(* ===== verification/Prelude.thy ===== *)
theory Prelude
  imports Complex_Main "HOL-Library.Char_ord" "HOL-Library.List_Lexorder" "HOL-Library.Product_Lexorder"
begin

text \<open>
  Shared vocabulary of the development: Go's string functions used by the program
  (\<open>strings.Split\<close> with a one-byte separator, \<open>strings.HasPrefix\<close>, \<open>strconv.Itoa\<close>),
  the "return at the first failing index" loop, map-deduplication of string slices, and
  the generic list lemmas of the component theories.  Strings are byte strings
  (\<open>string\<close>), ordered bytewise as Go orders them (\<open>List_Lexorder\<close> over
  \<open>Char_ord\<close>).  A Go \<open>error\<close> result is an \<open>option\<close> (\<open>None\<close> is \<open>nil\<close>); a Go
  \<open>(T, error)\<close> result is a sum whose left side is the error.
\<close>

type_synonym bytes = string
type_synonym time = int \<comment> \<open>an instant: nanoseconds since Go's zero time\<close>

named_theorems go_defs \<open>definitions of string and slice helpers\<close>

subsection \<open>Slices and loops\<close>

text \<open>The loop \<open>for i, x := range xs { if P(x) { return i } }\<close>.\<close>

fun first_index :: "('a \<Rightarrow> bool) \<Rightarrow> 'a list \<Rightarrow> nat option" where
  "first_index P [] = None"
| "first_index P (x # xs) = (if P x then Some 0 else map_option Suc (first_index P xs))"

lemma first_index_None [simp]: "first_index P xs = None \<longleftrightarrow> (\<forall>x\<in>set xs. \<not> P x)"
  by (induction xs) auto

lemma first_index_Some:
  "first_index P xs = Some i \<longleftrightarrow> i < length xs \<and> P (xs ! i) \<and> (\<forall>j<i. \<not> P (xs ! j))"
proof (induction xs arbitrary: i)
  case (Cons x xs)
  show ?case
  proof (cases i)
    case 0
    then show ?thesis by auto
  next
    case (Suc k)
    have "(\<forall>j<Suc k. \<not> P ((x # xs) ! j)) \<longleftrightarrow> \<not> P x \<and> (\<forall>j<k. \<not> P (xs ! j))"
      by (auto simp: less_Suc_eq_0_disj)
    then show ?thesis using Suc Cons.IH[of k] by auto
  qed
qed simp

lemma case_first_index_None [simp]:
  "(case first_index P xs of None \<Rightarrow> a | Some i \<Rightarrow> Some (f i)) = None \<longleftrightarrow> (\<forall>x\<in>set xs. \<not> P x) \<and> a = None"
proof (cases "first_index P xs")
  case (Some i)
  then have "xs ! i \<in> set xs" "P (xs ! i)" by (simp_all add: first_index_Some)
  with Some show ?thesis by auto
next
  case None
  then have "\<forall>x\<in>set xs. \<not> P x" by simp
  then show ?thesis unfolding None by simp
qed

text \<open>Keeping the first occurrence of every element, in input order.\<close>

fun dedupe_from :: "'a list \<Rightarrow> 'a list \<Rightarrow> 'a list" where
  "dedupe_from seen [] = []"
| "dedupe_from seen (x # xs) =
     (if List.member seen x then dedupe_from seen xs else x # dedupe_from (x # seen) xs)"

lemma set_dedupe_from [simp]: "set (dedupe_from seen xs) = set xs - set seen"
  by (induction seen xs rule: dedupe_from.induct) auto

lemma distinct_dedupe_from [simp]: "distinct (dedupe_from seen xs)"
  by (induction seen xs rule: dedupe_from.induct) auto

lemma sorted_distinct_ext:
  "sorted xs \<Longrightarrow> distinct xs \<Longrightarrow> sorted ys \<Longrightarrow> distinct ys \<Longrightarrow> set xs = set ys \<Longrightarrow> xs = ys"
  by (simp add: sorted_distinct_set_unique)

subsection \<open>Strings\<close>

text \<open>\<open>strings.Split(s, sep)\<close> for a separator of one byte: never empty, and \<open>Split("")\<close> is
  the one-element slice of the empty string.\<close>

fun go_split :: "char \<Rightarrow> string \<Rightarrow> string list" where
  "go_split c [] = [[]]"
| "go_split c (x # xs) =
     (if x = c then [] # go_split c xs
      else (case go_split c xs of [] \<Rightarrow> [[x]] | p # ps \<Rightarrow> (x # p) # ps))"

fun go_join :: "char \<Rightarrow> string list \<Rightarrow> string" where
  "go_join c [] = []"
| "go_join c [p] = p"
| "go_join c (p # q # ps) = p @ c # go_join c (q # ps)"

lemma go_split_ne [simp]: "go_split c s \<noteq> []"
  by (induction s) (auto split: list.splits)

lemma go_split_no_sep: "p \<in> set (go_split c s) \<Longrightarrow> c \<notin> set p"
proof (induction s arbitrary: p)
  case (Cons x xs)
  then show ?case by (cases "go_split c xs") (auto split: if_splits)
qed simp

lemma go_join_Cons: "ps \<noteq> [] \<Longrightarrow> go_join c (p # ps) = p @ c # go_join c ps"
  by (cases ps) auto

lemma go_join_Cons_Cons: "go_join c ((x # p) # ps) = x # go_join c (p # ps)"
  by (cases ps) auto

lemma go_join_split [simp]: "go_join c (go_split c s) = s"
proof (induction s)
  case (Cons x xs)
  show ?case
  proof (cases "x = c")
    case True
    with Cons show ?thesis by (simp add: go_join_Cons)
  next
    case False
    with Cons show ?thesis by (cases "go_split c xs") (auto simp: go_join_Cons_Cons)
  qed
qed simp

lemma go_split_append_sep:
  "c \<notin> set p \<Longrightarrow> go_split c (p @ c # r) = p # go_split c r"
  by (induction p) auto

lemma go_split_single: "c \<notin> set p \<Longrightarrow> go_split c p = [p]"
  by (induction p) auto

lemma go_split_join:
  "ps \<noteq> [] \<Longrightarrow> (\<forall>p\<in>set ps. c \<notin> set p) \<Longrightarrow> go_split c (go_join c ps) = ps"
  by (induction c ps rule: go_join.induct) (auto simp: go_split_single go_split_append_sep)

lemma go_split_inj: "go_split c s = go_split c t \<Longrightarrow> s = t"
  by (metis go_join_split)

lemma go_join_append:
  "ps \<noteq> [] \<Longrightarrow> qs \<noteq> [] \<Longrightarrow> go_join c (ps @ qs) = go_join c ps @ c # go_join c qs"
  by (induction c ps rule: go_join.induct) (auto simp: go_join_Cons)

lemma go_split_append:
  "go_split c (a @ c # b) = go_split c a @ go_split c b"
proof (induction a)
  case (Cons x xs)
  then show ?case by (cases "go_split c xs") auto
qed simp

text \<open>\<open>strings.HasPrefix\<close>.\<close>

fun has_prefix :: "string \<Rightarrow> string \<Rightarrow> bool" where
  "has_prefix s [] = True"
| "has_prefix [] (p # ps) = False"
| "has_prefix (x # xs) (p # ps) = (x = p \<and> has_prefix xs ps)"

lemma has_prefix_iff: "has_prefix s p \<longleftrightarrow> (\<exists>r. s = p @ r)"
  by (induction s p rule: has_prefix.induct) auto

text \<open>\<open>strconv.Itoa\<close> on a non-negative integer.\<close>

definition digit_char :: "nat \<Rightarrow> char" where
  "digit_char d = char_of (48 + d)"

fun itoa :: "nat \<Rightarrow> string" where
  "itoa n = (if n < 10 then [digit_char n] else itoa (n div 10) @ [digit_char (n mod 10)])"

declare itoa.simps [simp del]

lemma of_char_digit: "d < 10 \<Longrightarrow> (of_char (digit_char d) :: nat) = 48 + d"
  by (simp add: digit_char_def of_char_of)

lemma digit_char_inj: "d < 10 \<Longrightarrow> e < 10 \<Longrightarrow> digit_char d = digit_char e \<longleftrightarrow> d = e"
  by (metis add_left_cancel of_char_digit)

lemma itoa_ne [simp]: "itoa n \<noteq> []"
  by (subst itoa.simps) simp

lemma itoa_digits: "c \<in> set (itoa n) \<Longrightarrow> \<exists>d<10. c = digit_char d"
proof (induction n rule: itoa.induct)
  case (1 n)
  show ?case
  proof (cases "n < 10")
    case True
    with 1 show ?thesis by (subst (asm) itoa.simps) auto
  next
    case False
    with 1 show ?thesis by (subst (asm) (2) itoa.simps) (auto intro: exI[of _ "n mod 10"])
  qed
qed

lemma itoa_no_nul: "CHR 0x00 \<notin> set (itoa n)"
proof
  assume "CHR 0x00 \<in> set (itoa n)"
  then obtain d where "d < 10" "CHR 0x00 = digit_char d" using itoa_digits by blast
  then have "(of_char (CHR 0x00) :: nat) = 48 + d" by (simp add: of_char_digit)
  then show False by simp
qed

lemma itoa_inj: "itoa m = itoa n \<Longrightarrow> m = n"
proof (induction m arbitrary: n rule: itoa.induct)
  case (1 m)
  have m: "itoa m = (if m < 10 then [digit_char m] else itoa (m div 10) @ [digit_char (m mod 10)])"
    by (rule itoa.simps)
  have n: "itoa n = (if n < 10 then [digit_char n] else itoa (n div 10) @ [digit_char (n mod 10)])"
    by (rule itoa.simps)
  show ?case
  proof (cases "m < 10 \<or> n < 10")
    case True
    with m n 1(2) show ?thesis
      by (auto simp: digit_char_inj append_eq_Cons_conv Cons_eq_append_conv split: if_splits)
  next
    case False
    with m n 1(2) have "itoa (m div 10) = itoa (n div 10)" "m mod 10 = n mod 10"
      by (auto simp: digit_char_inj)
    with False 1(1)[of "n div 10"] have "m div 10 = n div 10" "m mod 10 = n mod 10" by auto
    then show ?thesis by (metis div_mult_mod_eq)
  qed
qed

lemma map_of_filter_key: "map_of (filter (\<lambda>x. fst x \<noteq> k) xs) k' = (if k' = k then None else map_of xs k')"
  by (induction xs) auto

end
