(* ===== verification/Regexp_Lang.thy ===== *)
theory Regexp_Lang
  imports Prelude
begin

text \<open>
  Regular expressions as the source's anchored pattern constants use them: byte classes,
  concatenation, alternation, Kleene star and counted repetition.  \<open>rx_lang\<close> is the
  language of an expression; \<open>rx_match\<close> decides it by derivatives, so that a published
  pattern can be run on a concrete input.
\<close>

datatype rx = Rx_Zero | Rx_One | Rx_Class "char \<Rightarrow> bool" | Rx_Alt rx rx | Rx_Cat rx rx | Rx_Star rx

definition rx_char :: "char \<Rightarrow> rx" where
  "rx_char c = Rx_Class (\<lambda>x. x = c)"

text \<open>A bracketed class: a union of byte ranges.\<close>

definition rx_ranges :: "(char \<times> char) list \<Rightarrow> rx" where
  "rx_ranges rs = Rx_Class (\<lambda>c. list_ex (\<lambda>(lo, hi). lo \<le> c \<and> c \<le> hi) rs)"

primrec rx_power :: "nat \<Rightarrow> rx \<Rightarrow> rx" where
  "rx_power 0 r = Rx_One"
| "rx_power (Suc n) r = Rx_Cat r (rx_power n r)"

text \<open>\<open>r{0,n}\<close>.\<close>

primrec rx_upto :: "nat \<Rightarrow> rx \<Rightarrow> rx" where
  "rx_upto 0 r = Rx_One"
| "rx_upto (Suc n) r = Rx_Alt Rx_One (Rx_Cat r (rx_upto n r))"

primrec rx_lang :: "rx \<Rightarrow> string set" where
  "rx_lang Rx_Zero = {}"
| "rx_lang Rx_One = {[]}"
| "rx_lang (Rx_Class P) = {[c] |c. P c}"
| "rx_lang (Rx_Alt r s) = rx_lang r \<union> rx_lang s"
| "rx_lang (Rx_Cat r s) = {u @ v |u v. u \<in> rx_lang r \<and> v \<in> rx_lang s}"
| "rx_lang (Rx_Star r) = {concat us |us. set us \<subseteq> rx_lang r}"

primrec rx_nullable :: "rx \<Rightarrow> bool" where
  "rx_nullable Rx_Zero = False"
| "rx_nullable Rx_One = True"
| "rx_nullable (Rx_Class P) = False"
| "rx_nullable (Rx_Alt r s) = (rx_nullable r \<or> rx_nullable s)"
| "rx_nullable (Rx_Cat r s) = (rx_nullable r \<and> rx_nullable s)"
| "rx_nullable (Rx_Star r) = True"

primrec rx_deriv :: "char \<Rightarrow> rx \<Rightarrow> rx" where
  "rx_deriv c Rx_Zero = Rx_Zero"
| "rx_deriv c Rx_One = Rx_Zero"
| "rx_deriv c (Rx_Class P) = (if P c then Rx_One else Rx_Zero)"
| "rx_deriv c (Rx_Alt r s) = Rx_Alt (rx_deriv c r) (rx_deriv c s)"
| "rx_deriv c (Rx_Cat r s) =
     (if rx_nullable r then Rx_Alt (Rx_Cat (rx_deriv c r) s) (rx_deriv c s)
      else Rx_Cat (rx_deriv c r) s)"
| "rx_deriv c (Rx_Star r) = Rx_Cat (rx_deriv c r) (Rx_Star r)"

fun rx_match :: "rx \<Rightarrow> string \<Rightarrow> bool" where
  "rx_match r [] = rx_nullable r"
| "rx_match r (c # cs) = rx_match (rx_deriv c r) cs"

lemma rx_nullable_lang: "rx_nullable r \<longleftrightarrow> [] \<in> rx_lang r"
  by (induction r) (auto intro: exI[of _ "[]"])

lemma concat_Cons_cases:
  "concat us = c # w \<Longrightarrow> \<exists>v us' us''. us = us' @ (c # v) # us'' \<and> concat us' = [] \<and> w = v @ concat us''"
proof (induction us)
  case (Cons u us)
  show ?case
  proof (cases u)
    case Nil
    with Cons obtain v us' us'' where "us = us' @ (c # v) # us''" "concat us' = []" "w = v @ concat us''"
      by auto
    with Nil show ?thesis by (intro exI[of _ v] exI[of _ "u # us'"] exI[of _ us'']) simp
  next
    case (Cons d v)
    with Cons.prems show ?thesis by (intro exI[of _ v] exI[of _ "[]"] exI[of _ us]) simp
  qed
qed simp

lemma rx_star_deriv:
  "c # w \<in> rx_lang (Rx_Star r) \<longleftrightarrow> (\<exists>u v. w = u @ v \<and> c # u \<in> rx_lang r \<and> v \<in> rx_lang (Rx_Star r))"
proof
  assume "c # w \<in> rx_lang (Rx_Star r)"
  then obtain us where us: "concat us = c # w" "set us \<subseteq> rx_lang r" by auto
  from concat_Cons_cases[OF us(1)] obtain v us' us''
    where "us = us' @ (c # v) # us''" "w = v @ concat us''" by blast
  with us(2) show "\<exists>u v. w = u @ v \<and> c # u \<in> rx_lang r \<and> v \<in> rx_lang (Rx_Star r)"
    by (intro exI[of _ v] exI[of _ "concat us''"]) auto
next
  assume "\<exists>u v. w = u @ v \<and> c # u \<in> rx_lang r \<and> v \<in> rx_lang (Rx_Star r)"
  then obtain u us where "w = u @ concat us" "c # u \<in> rx_lang r" "set us \<subseteq> rx_lang r" by auto
  then show "c # w \<in> rx_lang (Rx_Star r)" by (auto intro!: exI[of _ "(c # u) # us"])
qed

lemma rx_deriv_lang: "w \<in> rx_lang (rx_deriv c r) \<longleftrightarrow> c # w \<in> rx_lang r"
proof (induction r arbitrary: w)
  case (Rx_Cat r s)
  show ?case
    by (auto simp: Rx_Cat rx_nullable_lang Cons_eq_append_conv)
next
  case (Rx_Star r)
  show ?case
    by (subst rx_star_deriv) (simp add: Rx_Star del: rx_lang.simps(6))
qed auto

lemma rx_match_lang: "rx_match r s \<longleftrightarrow> s \<in> rx_lang r"
  by (induction r s rule: rx_match.induct) (auto simp: rx_nullable_lang rx_deriv_lang)

lemma rx_star_Nil: "[] \<in> rx_lang (Rx_Star r)"
  by (simp add: exI[of _ "[]"])

lemma rx_star_class: "rx_lang (Rx_Star (Rx_Class P)) = {s. \<forall>c\<in>set s. P c}"
proof (intro set_eqI)
  fix s show "s \<in> rx_lang (Rx_Star (Rx_Class P)) \<longleftrightarrow> s \<in> {s. \<forall>c\<in>set s. P c}"
  proof (induction s)
    case (Cons c s)
    show ?case by (subst rx_star_deriv) (use Cons in \<open>simp del: rx_lang.simps(6)\<close>)
  qed (simp add: rx_star_Nil del: rx_lang.simps(6))
qed

lemma rx_CatI: "u \<in> rx_lang r \<Longrightarrow> v \<in> rx_lang s \<Longrightarrow> u @ v \<in> rx_lang (Rx_Cat r s)"
  by auto

lemma rx_CatE:
  assumes "w \<in> rx_lang (Rx_Cat r s)"
  obtains u v where "w = u @ v" "u \<in> rx_lang r" "v \<in> rx_lang s"
  using assms by auto

lemma rx_cat_class:
  "s \<in> rx_lang (Rx_Cat (Rx_Class P) q) \<longleftrightarrow> (\<exists>c r. s = c # r \<and> P c \<and> r \<in> rx_lang q)" (is "?L \<longleftrightarrow> ?R")
proof
  assume ?L
  then show ?R by (elim rx_CatE) auto
next
  assume ?R
  then obtain c r where "s = [c] @ r" "[c] \<in> rx_lang (Rx_Class P)" "r \<in> rx_lang q" by auto
  then show ?L by (simp only: rx_CatI)
qed

lemma rx_char_iff [simp]: "w \<in> rx_lang (rx_char c) \<longleftrightarrow> w = [c]"
  by (auto simp: rx_char_def)

lemma rx_cat_char:
  "s \<in> rx_lang (Rx_Cat r (Rx_Cat (Rx_Cat (rx_char c) q) p)) \<longleftrightarrow>
   (\<exists>u v. s = u @ c # v \<and> u \<in> rx_lang r \<and> v \<in> rx_lang (Rx_Cat q p))" (is "?L \<longleftrightarrow> ?R")
proof
  assume ?L
  then obtain u v w where "s = u @ ([c] @ v) @ w" "u \<in> rx_lang r" "v \<in> rx_lang q" "w \<in> rx_lang p"
    by (elim rx_CatE) (metis rx_char_iff)
  then show ?R by (intro exI[of _ u] exI[of _ "v @ w"]) (simp add: rx_CatI del: rx_lang.simps)
next
  assume ?R
  then obtain u v w where *: "s = u @ ([c] @ v) @ w" "u \<in> rx_lang r" "v \<in> rx_lang q" "w \<in> rx_lang p"
    by (auto elim!: rx_CatE simp del: rx_lang.simps)
  show ?L unfolding *(1) by (intro rx_CatI) (simp_all add: * del: rx_lang.simps)
qed

text \<open>A body \<open>r(?:c r){n}\<close> is the join of \<open>n + 1\<close> words of \<open>r\<close>.\<close>

lemma rx_power_join:
  "s \<in> rx_lang (Rx_Cat r (rx_power n (Rx_Cat (rx_char c) r))) \<longleftrightarrow>
   (\<exists>ps. length ps = Suc n \<and> set ps \<subseteq> rx_lang r \<and> s = go_join c ps)"
proof (induction n arbitrary: s)
  case 0
  show ?case by (auto simp: length_Suc_conv)
next
  case (Suc n)
  have "s \<in> rx_lang (Rx_Cat r (rx_power (Suc n) (Rx_Cat (rx_char c) r))) \<longleftrightarrow>
    (\<exists>u v. s = u @ c # v \<and> u \<in> rx_lang r \<and>
       v \<in> rx_lang (Rx_Cat r (rx_power n (Rx_Cat (rx_char c) r))))"
    by (simp only: rx_power.simps rx_cat_char)
  also have "\<dots> \<longleftrightarrow> (\<exists>u ps. s = u @ c # go_join c ps \<and> u \<in> rx_lang r \<and>
       length ps = Suc n \<and> set ps \<subseteq> rx_lang r)"
    by (simp only: Suc.IH) blast
  also have "\<dots> \<longleftrightarrow> (\<exists>ps. length ps = Suc (Suc n) \<and> set ps \<subseteq> rx_lang r \<and> s = go_join c ps)"
    (is "?L \<longleftrightarrow> ?R")
  proof
    assume ?L
    then obtain u ps where *: "s = u @ c # go_join c ps" "u \<in> rx_lang r" "length ps = Suc n"
      "set ps \<subseteq> rx_lang r" by blast
    from *(3) have "ps \<noteq> []" by auto
    with * show ?R by (intro exI[of _ "u # ps"]) (simp add: go_join_Cons)
  next
    assume ?R
    then obtain us where us: "length us = Suc (Suc n)" "set us \<subseteq> rx_lang r" "s = go_join c us" by blast
    then obtain u ps where "us = u # ps" by (cases us) auto
    with us have "length ps = Suc n" "set (u # ps) \<subseteq> rx_lang r" "s = go_join c (u # ps)" by auto
    moreover from this have "ps \<noteq> []" by auto
    ultimately show ?L by (intro exI[of _ u] exI[of _ ps]) (simp add: go_join_Cons)
  qed
  finally show ?case .
qed

lemma rx_upto_power: "rx_lang (rx_upto n r) = (\<Union>k\<le>n. rx_lang (rx_power k r))"
proof (induction n)
  case (Suc n)
  have "(\<Union>k\<le>Suc n. rx_lang (rx_power k r)) =
    rx_lang (rx_power 0 r) \<union> (\<Union>k\<le>n. rx_lang (rx_power (Suc k) r))"
    by (auto simp: atMost_Suc_eq_insert_0 simp del: rx_power.simps)
  with Suc show ?case by auto
qed simp

lemma rx_upto_join:
  "s \<in> rx_lang (Rx_Cat r (rx_upto n (Rx_Cat (rx_char c) r))) \<longleftrightarrow>
   (\<exists>ps. 1 \<le> length ps \<and> length ps \<le> Suc n \<and> set ps \<subseteq> rx_lang r \<and> s = go_join c ps)"
  (is "?L \<longleftrightarrow> ?R")
proof
  assume ?L
  then obtain u v where uv: "s = u @ v" "u \<in> rx_lang r" "v \<in> rx_lang (rx_upto n (Rx_Cat (rx_char c) r))"
    by (rule rx_CatE)
  from uv(3) obtain k where k: "k \<le> n" "v \<in> rx_lang (rx_power k (Rx_Cat (rx_char c) r))"
    unfolding rx_upto_power by blast
  from rx_CatI[OF uv(2) k(2)] obtain ps where "length ps = Suc k" "set ps \<subseteq> rx_lang r" "s = go_join c ps"
    unfolding rx_power_join uv(1) by blast
  with k(1) show ?R by (intro exI[of _ ps]) simp
next
  assume ?R
  then obtain ps where ps: "1 \<le> length ps" "length ps \<le> Suc n" "set ps \<subseteq> rx_lang r" "s = go_join c ps"
    by blast
  define k where "k = length ps - 1"
  with ps have "length ps = Suc k" "k \<le> n" by auto
  with ps have "s \<in> rx_lang (Rx_Cat r (rx_power k (Rx_Cat (rx_char c) r)))"
    unfolding rx_power_join by (intro exI[of _ ps]) simp
  then obtain u v where uv: "s = u @ v" "u \<in> rx_lang r" "v \<in> rx_lang (rx_power k (Rx_Cat (rx_char c) r))"
    by (rule rx_CatE)
  from uv(3) \<open>k \<le> n\<close> have "v \<in> rx_lang (rx_upto n (Rx_Cat (rx_char c) r))"
    unfolding rx_upto_power by blast
  from rx_CatI[OF uv(2) this] show ?L unfolding uv(1) .
qed

text \<open>Concatenation is a monoid on languages.\<close>

lemma rx_cat_One: "rx_lang (Rx_Cat Rx_One r) = rx_lang r"
  by simp

lemma rx_cat_Zero: "rx_lang (Rx_Cat Rx_Zero r) = {}"
  by simp

lemma rx_cat_assoc: "rx_lang (Rx_Cat (Rx_Cat r s) t) = rx_lang (Rx_Cat r (Rx_Cat s t))"
proof (intro set_eqI iffI)
  fix w assume "w \<in> rx_lang (Rx_Cat (Rx_Cat r s) t)"
  then obtain x y z where "w = x @ (y @ z)" "x \<in> rx_lang r" "y \<in> rx_lang s" "z \<in> rx_lang t"
    by (elim rx_CatE) simp
  then show "w \<in> rx_lang (Rx_Cat r (Rx_Cat s t))" by (simp only: rx_CatI)
next
  fix w assume "w \<in> rx_lang (Rx_Cat r (Rx_Cat s t))"
  then obtain x y z where "w = (x @ y) @ z" "x \<in> rx_lang r" "y \<in> rx_lang s" "z \<in> rx_lang t"
    by (elim rx_CatE) simp
  then show "w \<in> rx_lang (Rx_Cat (Rx_Cat r s) t)" by (simp only: rx_CatI)
qed

lemmas rx_cat_monoid = rx_cat_One rx_cat_Zero rx_cat_assoc

end
