(* ===== verification/Entity_Id.thy ===== *)
theory Entity_Id
  imports Regexp_Lang "HOL-Library.Sublist"
begin

text \<open>
  Entity identities (\<open>pkg/types/entity_id.go\<close>, \<open>entity_id_authority.go\<close>,
  \<open>entity_domain_authority.go\<close>, \<open>entity_type.go\<close>, \<open>type.go\<close>): the six-position dotted
  ID \<open>org.platform.system.domain.type.instance\<close>, its validator with every coded reason,
  declaration patterns, query prefixes, the authority check of the two lanes, and the
  message type key.  The lemmas show that the hand-written validators accept exactly the
  published regular expressions (up to the byte bound), that parsing and printing are
  inverse, that prefixes are position aligned, and which reason is reported.
\<close>

subsection \<open>Coded contract errors\<close>

datatype detail_value = DInt int | DStr string

record contract_error =
  ce_code :: string
  ce_detail :: "(string \<times> detail_value) list"

definition newEntityIDContractError ::
  "string \<Rightarrow> string \<Rightarrow> (string \<times> detail_value) list \<Rightarrow> contract_error" where
  "newEntityIDContractError code reason detail =
     \<lparr>ce_code = code, ce_detail = (''reason'', DStr reason) # detail\<rparr>"

definition ce_reason :: "contract_error \<Rightarrow> detail_value option" where
  "ce_reason e = map_of (ce_detail e) ''reason''"

definition ce_index :: "contract_error \<Rightarrow> detail_value option" where
  "ce_index e = map_of (ce_detail e) ''segment_index''"

definition ErrorCodeEntityIDInvalid :: string where
  "ErrorCodeEntityIDInvalid = ''entity_id_invalid''"

definition ErrorCodeEntityIDPatternInvalid :: string where
  "ErrorCodeEntityIDPatternInvalid = ''entity_id_pattern_invalid''"

definition ErrorCodeEntityIDPrefixInvalid :: string where
  "ErrorCodeEntityIDPrefixInvalid = ''entity_id_prefix_invalid''"

definition ErrorCodeEntityIDAuthorityInvalid :: string where
  "ErrorCodeEntityIDAuthorityInvalid = ''entity_id_authority_invalid''"

subsection \<open>The validator\<close>

definition isEntityIDAlphanumeric :: "char \<Rightarrow> bool" where
  "isEntityIDAlphanumeric v \<longleftrightarrow>
     CHR ''a'' \<le> v \<and> v \<le> CHR ''z'' \<or> CHR ''A'' \<le> v \<and> v \<le> CHR ''Z'' \<or> CHR ''0'' \<le> v \<and> v \<le> CHR ''9''"

definition isEntityIDRemainingByte :: "char \<Rightarrow> bool" where
  "isEntityIDRemainingByte v \<longleftrightarrow> isEntityIDAlphanumeric v \<or> v = CHR ''_'' \<or> v = CHR ''-''"

definition MaxEntityIDBytes :: nat where
  "MaxEntityIDBytes = 256"

definition canonicalEntityIDParts :: nat where
  "canonicalEntityIDParts = 6"

abbreviation dot :: char where
  "dot \<equiv> CHR ''.''"

definition index_detail :: "nat \<Rightarrow> (string \<times> detail_value) list" where
  "index_detail i = [(''segment_index'', DInt (int i))]"

definition validateEntityIDValue :: "string \<Rightarrow> string \<Rightarrow> nat \<Rightarrow> nat \<Rightarrow> bool \<Rightarrow> contract_error option" where
  "validateEntityIDValue value code minimumParts maximumParts allowWildcard =
     (if value = [] then Some (newEntityIDContractError code ''empty'' [])
      else if length value > MaxEntityIDBytes then
        Some (newEntityIDContractError code ''bytes''
          [(''measured_bytes'', DInt (int (length value))), (''allowed_bytes'', DInt (int MaxEntityIDBytes))])
      else let parts = go_split dot value in
        if length parts < minimumParts \<or> length parts > maximumParts then
          Some (newEntityIDContractError code ''arity''
            [(''measured_parts'', DInt (int (length parts))), (''allowed_parts'', DInt (int maximumParts))])
        else case first_index (\<lambda>p. p = []) parts of
          Some i \<Rightarrow> Some (newEntityIDContractError code ''empty_segment'' (index_detail i))
        | None \<Rightarrow>
          (case first_index (\<lambda>p. \<not> (allowWildcard \<and> p = ''*'') \<and> \<not> isEntityIDAlphanumeric (hd p)) parts of
            Some i \<Rightarrow> Some (newEntityIDContractError code ''first_byte'' (index_detail i))
          | None \<Rightarrow>
            (case first_index (\<lambda>p. \<not> (allowWildcard \<and> p = ''*'') \<and>
                    first_index (\<lambda>c. \<not> isEntityIDRemainingByte c) (tl p) \<noteq> None) parts of
              Some i \<Rightarrow> Some (newEntityIDContractError code ''alphabet'' (index_detail i))
            | None \<Rightarrow> None)))"

definition ValidateEntityID :: "string \<Rightarrow> contract_error option" where
  "ValidateEntityID value =
     validateEntityIDValue value ErrorCodeEntityIDInvalid canonicalEntityIDParts canonicalEntityIDParts False"

definition IsValidEntityID :: "string \<Rightarrow> bool" where
  "IsValidEntityID value \<longleftrightarrow> ValidateEntityID value = None"

definition ValidateEntityIDPattern :: "string \<Rightarrow> contract_error option" where
  "ValidateEntityIDPattern value =
     validateEntityIDValue value ErrorCodeEntityIDPatternInvalid canonicalEntityIDParts canonicalEntityIDParts True"

definition ValidateEntityIDPrefix :: "string \<Rightarrow> contract_error option" where
  "ValidateEntityIDPrefix value =
     validateEntityIDValue value ErrorCodeEntityIDPrefixInvalid 1 canonicalEntityIDParts False"

definition validateEntityIDSegment :: "string \<Rightarrow> contract_error option" where
  "validateEntityIDSegment value =
     (if value = [] then Some (newEntityIDContractError ErrorCodeEntityIDInvalid ''empty_segment'' (index_detail 0))
      else if \<not> isEntityIDAlphanumeric (hd value) then
        Some (newEntityIDContractError ErrorCodeEntityIDInvalid ''first_byte'' (index_detail 0))
      else case first_index (\<lambda>c. \<not> isEntityIDRemainingByte c) (tl value) of
        Some _ \<Rightarrow> Some (newEntityIDContractError ErrorCodeEntityIDInvalid ''alphabet'' (index_detail 0))
      | None \<Rightarrow> None)"

subsection \<open>The published regular expressions\<close>

definition entityIDLiteralSegmentPattern :: rx where
  "entityIDLiteralSegmentPattern =
     Rx_Cat (rx_ranges [(CHR ''A'', CHR ''Z''), (CHR ''a'', CHR ''z''), (CHR ''0'', CHR ''9'')])
       (Rx_Star (rx_ranges [(CHR ''A'', CHR ''Z''), (CHR ''a'', CHR ''z''), (CHR ''0'', CHR ''9''),
          (CHR ''_'', CHR ''_''), (CHR ''-'', CHR ''-'')]))"

definition entityIDPatternSegmentPattern :: rx where
  "entityIDPatternSegmentPattern = Rx_Alt (rx_char (CHR ''*'')) entityIDLiteralSegmentPattern"

definition EntityIDLiteralPattern :: rx where
  "EntityIDLiteralPattern =
     Rx_Cat entityIDLiteralSegmentPattern (rx_power 5 (Rx_Cat (rx_char dot) entityIDLiteralSegmentPattern))"

definition EntityIDDeclarationPattern :: rx where
  "EntityIDDeclarationPattern =
     Rx_Cat entityIDPatternSegmentPattern (rx_power 5 (Rx_Cat (rx_char dot) entityIDPatternSegmentPattern))"

definition EntityIDLiteralPrefixPattern :: rx where
  "EntityIDLiteralPrefixPattern =
     Rx_Cat entityIDLiteralSegmentPattern (rx_upto 5 (Rx_Cat (rx_char dot) entityIDLiteralSegmentPattern))"

definition OptionalEntityIDLiteralPattern :: rx where
  "OptionalEntityIDLiteralPattern = Rx_Alt Rx_One EntityIDLiteralPattern"

subsection \<open>IDs\<close>

record EntityType =
  ety_Domain :: string
  ety_Type :: string

definition EntityType_Key :: "EntityType \<Rightarrow> string" where
  "EntityType_Key et = ety_Domain et @ ''.'' @ ety_Type et"

definition EntityType_IsValid :: "EntityType \<Rightarrow> bool" where
  "EntityType_IsValid et \<longleftrightarrow> ety_Domain et \<noteq> [] \<and> ety_Type et \<noteq> []"

record EntityID =
  eid_Org :: string
  eid_Platform :: string
  eid_System :: string
  eid_Domain :: string
  eid_Type :: string
  eid_Instance :: string

definition EntityID_Key :: "EntityID \<Rightarrow> string" where
  "EntityID_Key eid = eid_Org eid @ ''.'' @ eid_Platform eid @ ''.'' @ eid_System eid @ ''.'' @
     eid_Domain eid @ ''.'' @ eid_Type eid @ ''.'' @ eid_Instance eid"

definition EntityID_EntityType :: "EntityID \<Rightarrow> EntityType" where
  "EntityID_EntityType eid = \<lparr>ety_Domain = eid_Domain eid, ety_Type = eid_Type eid\<rparr>"

definition EntityID_IsValid :: "EntityID \<Rightarrow> bool" where
  "EntityID_IsValid eid \<longleftrightarrow> ValidateEntityID (EntityID_Key eid) = None"

definition ParseEntityID :: "string \<Rightarrow> contract_error + EntityID" where
  "ParseEntityID s =
     (case ValidateEntityID s of
        Some err \<Rightarrow> Inl err
      | None \<Rightarrow> let parts = go_split dot s in
          Inr \<lparr>eid_Org = parts ! 0, eid_Platform = parts ! 1, eid_System = parts ! 2,
               eid_Domain = parts ! 3, eid_Type = parts ! 4, eid_Instance = parts ! 5\<rparr>)"

fun matchParts :: "string list \<Rightarrow> string list \<Rightarrow> bool" where
  "matchParts (p # ps) (e # es) = (if p \<noteq> ''*'' \<and> p \<noteq> e then False else matchParts ps es)"
| "matchParts ps es = True"

definition MatchEntityIDPattern :: "string \<Rightarrow> string \<Rightarrow> contract_error + bool" where
  "MatchEntityIDPattern pattern entityID =
     (case ValidateEntityIDPattern pattern of
        Some err \<Rightarrow> Inl err
      | None \<Rightarrow> (case ValidateEntityID entityID of
          Some err \<Rightarrow> Inl err
        | None \<Rightarrow> Inr (matchParts (go_split dot pattern) (go_split dot entityID))))"

definition DeploymentPrefix :: "EntityID \<Rightarrow> string" where
  "DeploymentPrefix eid = eid_Org eid @ ''.'' @ eid_Platform eid"

definition SourcePrefix :: "EntityID \<Rightarrow> string" where
  "SourcePrefix eid = DeploymentPrefix eid @ ''.'' @ eid_System eid"

definition TaxonomyPrefix :: "EntityID \<Rightarrow> string" where
  "TaxonomyPrefix eid = SourcePrefix eid @ ''.'' @ eid_Domain eid"

definition TypePrefix :: "EntityID \<Rightarrow> string" where
  "TypePrefix eid = TaxonomyPrefix eid @ ''.'' @ eid_Type eid"

definition EntityID_HasPrefix :: "EntityID \<Rightarrow> string \<Rightarrow> bool" where
  "EntityID_HasPrefix eid pfx \<longleftrightarrow>
     (let key = EntityID_Key eid in key = pfx \<or> has_prefix key (pfx @ ''.''))"

definition IsSibling :: "EntityID \<Rightarrow> EntityID \<Rightarrow> bool" where
  "IsSibling eid other \<longleftrightarrow> TypePrefix eid = TypePrefix other \<and> eid_Instance eid \<noteq> eid_Instance other"

subsection \<open>Authority lanes and reserved tokens\<close>

definition newEntityIDAuthorityError :: "string \<Rightarrow> nat \<Rightarrow> string \<Rightarrow> contract_error" where
  "newEntityIDAuthorityError reason segmentIndex lane =
     newEntityIDContractError ErrorCodeEntityIDAuthorityInvalid reason
       (index_detail segmentIndex @ (if lane \<noteq> [] then [(''lane'', DStr lane)] else []))"

definition ValidateEntityIDAuthority :: "string \<Rightarrow> string \<Rightarrow> string \<Rightarrow> bool \<Rightarrow> contract_error option" where
  "ValidateEntityIDAuthority candidate org platform importLane =
     (case ParseEntityID candidate of
        Inl err \<Rightarrow> Some err
      | Inr parsed \<Rightarrow>
          let lane = (if importLane then ''import'' else ''local'');
              foreignIndex = (if eid_Org parsed \<noteq> org then Some 0
                              else if eid_Platform parsed \<noteq> platform then Some 1 else None)
          in if importLane then
               (case foreignIndex of
                  None \<Rightarrow> Some (newEntityIDAuthorityError ''local_authority_claimed'' 1 lane)
                | Some _ \<Rightarrow> None)
             else (case foreignIndex of
                  Some i \<Rightarrow> Some (newEntityIDAuthorityError ''foreign_authority'' i lane)
                | None \<Rightarrow> None))"

definition IsFrameworkEntityDomain :: "string \<Rightarrow> bool" where
  "IsFrameworkEntityDomain domain \<longleftrightarrow> List.member [''agent'', ''ops'', ''graph''] domain"

definition IsReservedInstanceToken :: "string \<Rightarrow> bool" where
  "IsReservedInstanceToken token \<longleftrightarrow> List.member [''group'', ''container'', ''level''] token"

subsection \<open>Message types\<close>

record MsgType =
  mt_Domain :: string
  mt_Category :: string
  mt_Version :: string

definition MsgType_Key :: "MsgType \<Rightarrow> string" where
  "MsgType_Key mt = mt_Domain mt @ ''.'' @ mt_Category mt @ ''.'' @ mt_Version mt"

definition MsgType_IsValid :: "MsgType \<Rightarrow> bool" where
  "MsgType_IsValid mt \<longleftrightarrow> mt_Domain mt \<noteq> [] \<and> mt_Category mt \<noteq> [] \<and> mt_Version mt \<noteq> []"

datatype msg_type_error = MtEmpty string | MtContainsDot string string

fun validateTypeComponents :: "(string \<times> string) list \<Rightarrow> msg_type_error option" where
  "validateTypeComponents [] = None"
| "validateTypeComponents ((name, value) # rest) =
     (if value = [] then Some (MtEmpty name)
      else if dot \<in> set value then Some (MtContainsDot name value)
      else validateTypeComponents rest)"

definition MsgType_Validate :: "MsgType \<Rightarrow> msg_type_error option" where
  "MsgType_Validate mt = validateTypeComponents
     [(''domain'', mt_Domain mt), (''category'', mt_Category mt), (''version'', mt_Version mt)]"

definition MsgType_Equal :: "MsgType \<Rightarrow> MsgType \<Rightarrow> bool" where
  "MsgType_Equal mt other \<longleftrightarrow> mt_Domain mt = mt_Domain other \<and>
     mt_Category mt = mt_Category other \<and> mt_Version mt = mt_Version other"

subsection \<open>What the validators accept\<close>

definition literal_segment :: "string \<Rightarrow> bool" where
  "literal_segment p \<longleftrightarrow> p \<noteq> [] \<and> isEntityIDAlphanumeric (hd p) \<and> (\<forall>c\<in>set (tl p). isEntityIDRemainingByte c)"

lemma alnum_remaining: "isEntityIDAlphanumeric c \<Longrightarrow> isEntityIDRemainingByte c"
  by (simp add: isEntityIDRemainingByte_def)

lemma dot_not_remaining [simp]: "\<not> isEntityIDRemainingByte dot"
  by (simp add: isEntityIDRemainingByte_def isEntityIDAlphanumeric_def less_eq_char_def)

lemma star_not_alnum [simp]: "\<not> isEntityIDAlphanumeric (CHR ''*'')"
  by (simp add: isEntityIDAlphanumeric_def less_eq_char_def)

lemma literal_segment_all: "literal_segment p \<Longrightarrow> c \<in> set p \<Longrightarrow> isEntityIDRemainingByte c"
  by (cases p) (auto simp: literal_segment_def alnum_remaining)

lemma literal_segment_no_dot: "literal_segment p \<Longrightarrow> dot \<notin> set p"
  using literal_segment_all dot_not_remaining by blast

lemma literal_segment_not_star [simp]: "\<not> literal_segment ''*''"
  by (simp add: literal_segment_def)

lemma literal_segment_validate: "literal_segment p \<longleftrightarrow> validateEntityIDSegment p = None"
  by (simp add: literal_segment_def validateEntityIDSegment_def)

lemma literal_segment_rx: "p \<in> rx_lang entityIDLiteralSegmentPattern \<longleftrightarrow> literal_segment p"
proof -
  have a: "rx_ranges [(CHR ''A'', CHR ''Z''), (CHR ''a'', CHR ''z''), (CHR ''0'', CHR ''9'')] =
    Rx_Class isEntityIDAlphanumeric"
    by (auto simp: rx_ranges_def isEntityIDAlphanumeric_def)
  have r: "rx_ranges [(CHR ''A'', CHR ''Z''), (CHR ''a'', CHR ''z''), (CHR ''0'', CHR ''9''),
      (CHR ''_'', CHR ''_''), (CHR ''-'', CHR ''-'')] = Rx_Class isEntityIDRemainingByte"
    by (auto simp: rx_ranges_def isEntityIDAlphanumeric_def isEntityIDRemainingByte_def fun_eq_iff)
  show ?thesis
    unfolding entityIDLiteralSegmentPattern_def a r rx_cat_class rx_star_class
    by (cases p) (auto simp: literal_segment_def)
qed

lemma pattern_segment_rx: "p \<in> rx_lang entityIDPatternSegmentPattern \<longleftrightarrow> p = ''*'' \<or> literal_segment p"
  by (simp add: entityIDPatternSegmentPattern_def literal_segment_rx)

lemma validate_accepts:
  "validateEntityIDValue v code lo hi w = None \<longleftrightarrow>
     v \<noteq> [] \<and> length v \<le> MaxEntityIDBytes \<and>
     lo \<le> length (go_split dot v) \<and> length (go_split dot v) \<le> hi \<and>
     (\<forall>p\<in>set (go_split dot v). w \<and> p = ''*'' \<or> literal_segment p)"
  by (auto simp: validateEntityIDValue_def Let_def literal_segment_def not_less)

lemma ValidateEntityID_iff:
  "ValidateEntityID v = None \<longleftrightarrow> length v \<le> 256 \<and> length (go_split dot v) = 6 \<and>
     (\<forall>p\<in>set (go_split dot v). literal_segment p)"
  by (auto simp: ValidateEntityID_def validate_accepts canonicalEntityIDParts_def MaxEntityIDBytes_def)

lemma ValidateEntityIDPattern_iff:
  "ValidateEntityIDPattern v = None \<longleftrightarrow> length v \<le> 256 \<and> length (go_split dot v) = 6 \<and>
     (\<forall>p\<in>set (go_split dot v). p = ''*'' \<or> literal_segment p)"
  by (auto simp: ValidateEntityIDPattern_def validate_accepts canonicalEntityIDParts_def MaxEntityIDBytes_def)

lemma ValidateEntityIDPrefix_iff:
  "ValidateEntityIDPrefix v = None \<longleftrightarrow> length v \<le> 256 \<and> length (go_split dot v) \<le> 6 \<and>
     (\<forall>p\<in>set (go_split dot v). literal_segment p)"
  by (cases "v = []")
    (auto simp: ValidateEntityIDPrefix_def validate_accepts canonicalEntityIDParts_def MaxEntityIDBytes_def
      literal_segment_def Suc_le_eq)

text \<open>The parts of a joined word are its segments, so a counted repetition is a condition on the split.\<close>

lemma split_iff_join:
  assumes Q: "\<And>p. p \<in> rx_lang r \<longleftrightarrow> Q p" and dot: "\<And>p. Q p \<Longrightarrow> dot \<notin> set p" and C: "\<not> C 0"
  shows "(\<exists>ps. C (length ps) \<and> set ps \<subseteq> rx_lang r \<and> s = go_join dot ps) \<longleftrightarrow>
    C (length (go_split dot s)) \<and> (\<forall>p\<in>set (go_split dot s). Q p)"
  (is "?L \<longleftrightarrow> ?R")
proof
  assume ?L
  then obtain ps where ps: "C (length ps)" "\<forall>p\<in>set ps. Q p" "s = go_join dot ps" using Q by blast
  moreover have "ps \<noteq> []" using ps(1) C by (intro notI) simp
  ultimately have "go_split dot s = ps" using dot by (auto intro: go_split_join)
  with ps show ?R by simp
next
  assume ?R
  then show ?L using Q by (intro exI[of _ "go_split dot s"]) auto
qed

lemma EntityIDLiteralPattern_lang:
  "s \<in> rx_lang EntityIDLiteralPattern \<longleftrightarrow> length (go_split dot s) = 6 \<and> (\<forall>p\<in>set (go_split dot s). literal_segment p)"
  unfolding EntityIDLiteralPattern_def rx_power_join
  by (subst split_iff_join[OF literal_segment_rx literal_segment_no_dot]) simp_all

lemma EntityIDDeclarationPattern_lang:
  "s \<in> rx_lang EntityIDDeclarationPattern \<longleftrightarrow>
     length (go_split dot s) = 6 \<and> (\<forall>p\<in>set (go_split dot s). p = ''*'' \<or> literal_segment p)"
  unfolding EntityIDDeclarationPattern_def rx_power_join
  by (subst split_iff_join[OF pattern_segment_rx]) (auto dest: literal_segment_no_dot)

lemma EntityIDLiteralPrefixPattern_lang:
  "s \<in> rx_lang EntityIDLiteralPrefixPattern \<longleftrightarrow>
     length (go_split dot s) \<le> 6 \<and> (\<forall>p\<in>set (go_split dot s). literal_segment p)"
  unfolding EntityIDLiteralPrefixPattern_def rx_upto_join
  using split_iff_join[OF literal_segment_rx literal_segment_no_dot, of "\<lambda>n. 1 \<le> n \<and> n \<le> Suc 5" s]
  by (simp add: Suc_le_eq)

text \<open>C20. The hand-written validators and the regular expressions published for JSON schemas describe
  the same IDs, declaration patterns and query prefixes: a value is accepted exactly when it has at
  most 256 bytes and the anchored expression matches it.\<close>

theorem entity_id_validators_match_regex:
  "(ValidateEntityID s = None \<longleftrightarrow> length s \<le> 256 \<and> rx_match EntityIDLiteralPattern s) \<and>
   (ValidateEntityIDPattern s = None \<longleftrightarrow> length s \<le> 256 \<and> rx_match EntityIDDeclarationPattern s) \<and>
   (ValidateEntityIDPrefix s = None \<longleftrightarrow> length s \<le> 256 \<and> rx_match EntityIDLiteralPrefixPattern s) \<and>
   (s = [] \<or> ValidateEntityID s = None \<longleftrightarrow> length s \<le> 256 \<and> rx_match OptionalEntityIDLiteralPattern s)"
  by (auto simp: ValidateEntityID_iff ValidateEntityIDPattern_iff ValidateEntityIDPrefix_iff rx_match_lang
      EntityIDLiteralPattern_lang EntityIDDeclarationPattern_lang EntityIDLiteralPrefixPattern_lang
      OptionalEntityIDLiteralPattern_def)

subsection \<open>Parsing and printing\<close>

abbreviation eid_parts :: "EntityID \<Rightarrow> string list" where
  "eid_parts e \<equiv> [eid_Org e, eid_Platform e, eid_System e, eid_Domain e, eid_Type e, eid_Instance e]"

lemma Key_join: "EntityID_Key e = go_join dot (eid_parts e)"
  by (simp add: EntityID_Key_def)

lemma length_split_join: "length (go_split c (go_join c ps)) = (\<Sum>p\<leftarrow>ps. length (go_split c p)) + (if ps = [] then 1 else 0)"
  by (induction c ps rule: go_join.induct) (auto simp: go_split_append)

lemma split_length1: "length (go_split c p) = 1 \<Longrightarrow> c \<notin> set p"
proof (induction p)
  case (Cons x p)
  then show ?case by (cases "go_split c p") (auto split: if_splits)
qed simp

lemma split_length_pos: "1 \<le> length (go_split c p)"
  using go_split_ne[of c p] by (cases "go_split c p") auto

lemma Key_split:
  assumes "length (go_split dot (EntityID_Key e)) = 6"
  shows "go_split dot (EntityID_Key e) = eid_parts e"
proof -
  have "\<forall>p\<in>set (eid_parts e). length (go_split dot p) = 1"
    using assms split_length_pos[of dot "eid_Org e"] split_length_pos[of dot "eid_Platform e"]
      split_length_pos[of dot "eid_System e"] split_length_pos[of dot "eid_Domain e"]
      split_length_pos[of dot "eid_Type e"] split_length_pos[of dot "eid_Instance e"]
    unfolding Key_join length_split_join by simp
  then have "\<forall>p\<in>set (eid_parts e). dot \<notin> set p" using split_length1 by blast
  then show ?thesis unfolding Key_join by (intro go_split_join) simp_all
qed

lemma six_parts: "length ps = 6 \<Longrightarrow> ps = [ps ! 0, ps ! 1, ps ! 2, ps ! 3, ps ! 4, ps ! 5]"
  by (rule nth_equalityI) (auto simp: less_Suc_eq numeral_eq_Suc)

lemma ParseEntityID_Inr:
  "ParseEntityID s = Inr e \<longleftrightarrow> ValidateEntityID s = None \<and> go_split dot s = eid_parts e"
proof (cases "ValidateEntityID s")
  case None
  then have "length (go_split dot s) = 6" by (simp add: ValidateEntityID_iff)
  from six_parts[OF this] None show ?thesis
    by (cases e) (auto simp: ParseEntityID_def Let_def)
qed (simp add: ParseEntityID_def)

lemma ParseEntityID_Inl: "ParseEntityID s = Inl err \<longleftrightarrow> ValidateEntityID s = Some err"
  by (simp add: ParseEntityID_def Let_def split: option.splits)

text \<open>C23. Parsing and printing of entity IDs are inverse: \<open>ParseEntityID\<close> returns an ID exactly for
  the strings that are the key of a valid ID, and it returns that ID.  In particular no two valid
  IDs share a key, and a key is never rewritten.\<close>

theorem entity_id_parse_key_inverse:
  "ParseEntityID s = Inr e \<longleftrightarrow> EntityID_Key e = s \<and> EntityID_IsValid e"
proof
  assume "ParseEntityID s = Inr e"
  then have *: "ValidateEntityID s = None" "go_split dot s = eid_parts e"
    by (simp_all add: ParseEntityID_Inr)
  then have "s = EntityID_Key e" unfolding Key_join by (metis go_join_split)
  with * show "EntityID_Key e = s \<and> EntityID_IsValid e" by (simp add: EntityID_IsValid_def)
next
  assume "EntityID_Key e = s \<and> EntityID_IsValid e"
  then show "ParseEntityID s = Inr e"
    using Key_split[of e] by (auto simp: ParseEntityID_Inr EntityID_IsValid_def ValidateEntityID_iff)
qed

subsection \<open>Prefixes, siblings and patterns\<close>

lemma has_prefix_dot_parts:
  "has_prefix key (p @ ''.'') \<longleftrightarrow> (\<exists>rest. rest \<noteq> [] \<and> go_split dot key = go_split dot p @ rest)"
proof
  assume "has_prefix key (p @ ''.'')"
  then obtain r where "key = p @ dot # r" by (auto simp: has_prefix_iff)
  then show "\<exists>rest. rest \<noteq> [] \<and> go_split dot key = go_split dot p @ rest"
    by (simp add: go_split_append)
next
  assume "\<exists>rest. rest \<noteq> [] \<and> go_split dot key = go_split dot p @ rest"
  then obtain rest where "rest \<noteq> []" "go_split dot key = go_split dot p @ rest" by blast
  then have "key = p @ dot # go_join dot rest"
    using go_join_append[of "go_split dot p" rest dot] go_join_split[of dot key] by simp
  then show "has_prefix key (p @ ''.'')" by (simp add: has_prefix_iff)
qed

text \<open>\<open>HasPrefix\<close> is position aligned: an ID lies under a prefix exactly when the dotted positions of
  the prefix are an initial segment of the positions of the ID's key, so no prefix ever matches
  inside a position.\<close>

theorem entity_id_has_prefix_positions:
  "EntityID_HasPrefix e p \<longleftrightarrow> prefix (go_split dot p) (go_split dot (EntityID_Key e))"
proof -
  have "EntityID_HasPrefix e p \<longleftrightarrow> go_split dot (EntityID_Key e) = go_split dot p \<or>
     (\<exists>rest. rest \<noteq> [] \<and> go_split dot (EntityID_Key e) = go_split dot p @ rest)"
    unfolding EntityID_HasPrefix_def Let_def has_prefix_dot_parts
    using go_split_inj[of dot "EntityID_Key e" p] by auto
  also have "\<dots> \<longleftrightarrow> prefix (go_split dot p) (go_split dot (EntityID_Key e))"
    unfolding prefix_def by (metis append_Nil2)
  finally show ?thesis .
qed

lemma TypePrefix_join:
  "TypePrefix e = go_join dot [eid_Org e, eid_Platform e, eid_System e, eid_Domain e, eid_Type e]"
  by (simp add: TypePrefix_def TaxonomyPrefix_def SourcePrefix_def DeploymentPrefix_def)

lemma valid_parts: "EntityID_IsValid e \<Longrightarrow> p \<in> set (eid_parts e) \<Longrightarrow> literal_segment p"
  using Key_split[of e] by (auto simp: EntityID_IsValid_def ValidateEntityID_iff)

text \<open>Valid IDs are siblings exactly when they agree on organisation, platform, system, domain and
  type and differ in the instance; the type prefix of each is then a prefix of the other's key.\<close>

theorem entity_id_sibling_positions:
  assumes "EntityID_IsValid a" "EntityID_IsValid b"
  shows "(IsSibling a b \<longleftrightarrow> eid_Org a = eid_Org b \<and> eid_Platform a = eid_Platform b \<and>
            eid_System a = eid_System b \<and> EntityID_EntityType a = EntityID_EntityType b \<and>
            eid_Instance a \<noteq> eid_Instance b) \<and>
         (IsSibling a b \<longrightarrow> EntityID_HasPrefix b (TypePrefix a) \<and> a \<noteq> b)"
proof -
  let ?five = "\<lambda>e. [eid_Org e, eid_Platform e, eid_System e, eid_Domain e, eid_Type e]"
  have split: "go_split dot (TypePrefix e) = ?five e" if "EntityID_IsValid e" for e
    unfolding TypePrefix_join
    using valid_parts[OF that] literal_segment_no_dot by (intro go_split_join) auto
  have sib: "IsSibling a b \<longleftrightarrow> ?five a = ?five b \<and> eid_Instance a \<noteq> eid_Instance b"
    using split[OF assms(1)] split[OF assms(2)] go_split_inj[of dot "TypePrefix a" "TypePrefix b"]
    unfolding IsSibling_def by metis
  moreover have "EntityID_HasPrefix b (TypePrefix a)" if "IsSibling a b"
  proof -
    have "EntityID_Key b = TypePrefix b @ ''.'' @ eid_Instance b"
      by (simp add: TypePrefix_join Key_join)
    then show ?thesis using that by (simp add: IsSibling_def EntityID_HasPrefix_def has_prefix_iff)
  qed
  ultimately show ?thesis by (auto simp: EntityID_EntityType_def IsSibling_def)
qed

definition sib_a :: EntityID where
  "sib_a = \<lparr>eid_Org = ''acme'', eid_Platform = ''dep1'', eid_System = ''src'', eid_Domain = ''git'',
     eid_Type = ''commit'', eid_Instance = ''a1''\<rparr>"

definition sib_b :: EntityID where
  "sib_b = sib_a\<lparr>eid_Instance := ''a2''\<rparr>"

theorem entity_id_sibling_positions_witness:
  "EntityID_IsValid sib_a \<and> EntityID_IsValid sib_b \<and> EntityID_HasPrefix sib_b (TypePrefix sib_a)"
proof -
  have v: "EntityID_IsValid sib_a" "EntityID_IsValid sib_b" by code_simp+
  have "IsSibling sib_a sib_b" by code_simp
  with entity_id_sibling_positions[OF v] v show ?thesis by blast
qed

lemma valid_length: "ValidateEntityID s = None \<Longrightarrow> length (go_split dot s) = 6"
  by (simp add: ValidateEntityID_iff)

lemma pattern_length: "ValidateEntityIDPattern s = None \<Longrightarrow> length (go_split dot s) = 6"
  by (simp add: ValidateEntityIDPattern_iff)

lemma matchParts_all2:
  "length ps = length es \<Longrightarrow> matchParts ps es \<longleftrightarrow> list_all2 (\<lambda>p e. p = ''*'' \<or> p = e) ps es"
  by (induction ps es rule: list_induct2) auto

lemma MatchEntityIDPattern_Inr:
  "MatchEntityIDPattern p s = Inr b \<longleftrightarrow> ValidateEntityIDPattern p = None \<and> ValidateEntityID s = None \<and>
     b = list_all2 (\<lambda>p e. p = ''*'' \<or> p = e) (go_split dot p) (go_split dot s)"
  by (auto simp: MatchEntityIDPattern_def matchParts_all2 valid_length pattern_length
      split: option.splits)

text \<open>Declaration patterns denote what they say: a literal ID is itself a declaration pattern
  and as such matches that ID and no other; and whenever a pattern matches, it is below any pattern
  with wildcards at all six positions, which matches every valid ID.\<close>

theorem entity_id_pattern_literal_and_top:
  assumes "ValidateEntityID s = None" "ValidateEntityID t = None"
  shows "MatchEntityIDPattern s t = Inr (s = t) \<and> MatchEntityIDPattern ''*.*.*.*.*.*'' t = Inr True"
proof -
  have lit: "list_all2 (\<lambda>p e. p = ''*'' \<or> p = e) ps es \<longleftrightarrow> ps = es"
    if "\<forall>p\<in>set ps. literal_segment p" for ps es :: "string list"
    using that by (induction ps arbitrary: es) (auto simp: list_all2_Cons1)
  have "go_split dot ''*.*.*.*.*.*'' = replicate 6 ''*''" by code_simp
  then show ?thesis
    using assms lit[of "go_split dot s" "go_split dot t"] go_split_inj[of dot s t]
    by (auto simp: MatchEntityIDPattern_Inr ValidateEntityIDPattern_iff ValidateEntityID_iff
        list_all2_conv_all_nth)
qed

theorem entity_id_pattern_literal_and_top_witness:
  "MatchEntityIDPattern (EntityID_Key sib_a) (EntityID_Key sib_b) = Inr False"
proof -
  have "ValidateEntityID (EntityID_Key sib_a) = None" "ValidateEntityID (EntityID_Key sib_b) = None"
    by code_simp+
  moreover have "EntityID_Key sib_a \<noteq> EntityID_Key sib_b" by code_simp
  ultimately show ?thesis
    using entity_id_pattern_literal_and_top[of "EntityID_Key sib_a" "EntityID_Key sib_b"] by simp
qed

subsection \<open>Authority lanes\<close>

text \<open>C25. The two authority lanes partition the valid IDs: a structurally invalid candidate is rejected
  on both lanes with the structural error, and a valid candidate is accepted on exactly one of the
  local lane (its org and platform are the deployment's own) and the import lane (they are not).\<close>

theorem entity_id_authority_lanes_partition:
  "(case ValidateEntityID c of
      Some err \<Rightarrow> (\<forall>lane. ValidateEntityIDAuthority c org platform lane = Some err)
    | None \<Rightarrow>
        (ValidateEntityIDAuthority c org platform False = None \<longleftrightarrow> prefix [org, platform] (go_split dot c)) \<and>
        (ValidateEntityIDAuthority c org platform True = None \<longleftrightarrow> \<not> prefix [org, platform] (go_split dot c)))"
proof (cases "ValidateEntityID c")
  case None
  define e where "e = \<lparr>eid_Org = go_split dot c ! 0, eid_Platform = go_split dot c ! 1,
    eid_System = go_split dot c ! 2, eid_Domain = go_split dot c ! 3, eid_Type = go_split dot c ! 4,
    eid_Instance = go_split dot c ! 5\<rparr>"
  have parse: "ParseEntityID c = Inr e" using None by (simp add: ParseEntityID_def e_def Let_def)
  then have "go_split dot c = eid_parts e" by (simp add: ParseEntityID_Inr)
  then show ?thesis using None by (auto simp: ValidateEntityIDAuthority_def parse Let_def)
next
  case (Some err)
  then have "ParseEntityID c = Inl err" by (simp add: ParseEntityID_Inl)
  with Some show ?thesis by (simp add: ValidateEntityIDAuthority_def)
qed

subsection \<open>Which violation is reported\<close>

lemma contract_error_sel [simp]:
  "ce_code (newEntityIDContractError code r d) = code"
  "ce_reason (newEntityIDContractError code r d) = Some (DStr r)"
  "ce_index (newEntityIDContractError code r d) = map_of d ''segment_index''"
  by (simp_all add: newEntityIDContractError_def ce_reason_def ce_index_def)

text \<open>C40. A rejected ID is reported with the first reason that applies, in the order empty, byte bound,
  arity, empty position, first byte, alphabet; a position index is the first failing position of
  that check, and every earlier check has passed for all positions.\<close>

theorem entity_id_first_violation:
  assumes "ValidateEntityID s = Some e"
  shows "ce_code e = ErrorCodeEntityIDInvalid \<and> (let ps = go_split dot s in
    (s = [] \<and> ce_reason e = Some (DStr ''empty'') \<or>
     s \<noteq> [] \<and> 256 < length s \<and> ce_reason e = Some (DStr ''bytes'') \<or>
     s \<noteq> [] \<and> length s \<le> 256 \<and> length ps \<noteq> 6 \<and> ce_reason e = Some (DStr ''arity'') \<or>
     length s \<le> 256 \<and> length ps = 6 \<and> (\<exists>i<6. ce_index e = Some (DInt (int i)) \<and>
       (ce_reason e = Some (DStr ''empty_segment'') \<and> ps ! i = [] \<and> (\<forall>j<i. ps ! j \<noteq> []) \<or>
        [] \<notin> set ps \<and> ce_reason e = Some (DStr ''first_byte'') \<and> \<not> isEntityIDAlphanumeric (hd (ps ! i)) \<and>
          (\<forall>j<i. isEntityIDAlphanumeric (hd (ps ! j))) \<or>
        [] \<notin> set ps \<and> (\<forall>p\<in>set ps. isEntityIDAlphanumeric (hd p)) \<and>
          ce_reason e = Some (DStr ''alphabet'') \<and> \<not> literal_segment (ps ! i) \<and> (\<forall>j<i. literal_segment (ps ! j))))))"
proof -
  define ps where "ps = go_split dot s"
  note e = assms(1)[unfolded ValidateEntityID_def validateEntityIDValue_def Let_def, folded ps_def]
  consider (empty) "s = []" | (bytes) "s \<noteq> []" "256 < length s"
    | (arity) "s \<noteq> []" "length s \<le> 256" "length ps < 6 \<or> 6 < length ps" | (parts) "s \<noteq> []" "length s \<le> 256" "length ps = 6"
    by linarith
  then show ?thesis
  proof cases
    case parts
    show ?thesis
    proof (cases "first_index (\<lambda>p. p = []) ps")
      case (Some i)
      with e parts show ?thesis
        by (auto simp: MaxEntityIDBytes_def canonicalEntityIDParts_def first_index_Some index_detail_def Let_def ps_def[symmetric])
    next
      case None
      then have ne: "[] \<notin> set ps" by auto
      show ?thesis
      proof (cases "first_index (\<lambda>p. \<not> isEntityIDAlphanumeric (hd p)) ps")
        case (Some i)
        with e parts None ne show ?thesis
          by (auto simp: MaxEntityIDBytes_def canonicalEntityIDParts_def first_index_Some index_detail_def Let_def ps_def[symmetric])
      next
        case alnum: None
        with e parts None obtain i where
          i: "first_index (\<lambda>p. first_index (\<lambda>c. \<not> isEntityIDRemainingByte c) (tl p) \<noteq> None) ps = Some i"
          "e = newEntityIDContractError ErrorCodeEntityIDInvalid ''alphabet'' (index_detail i)"
          by (auto simp: MaxEntityIDBytes_def canonicalEntityIDParts_def simp del: first_index_None split: option.splits)
        from alnum have al: "\<forall>p\<in>set ps. isEntityIDAlphanumeric (hd p)" by simp
        have "literal_segment (ps ! j)" if "j < i" for j
          using i(1) that ne al parts(3) nth_mem[of j ps]
          by (auto simp: first_index_Some literal_segment_def simp del: nth_mem)
        moreover have "i < 6" "\<not> literal_segment (ps ! i)"
          using i(1) parts(3) by (auto simp: first_index_Some literal_segment_def)
        ultimately show ?thesis using ne al parts by (simp add: i(2) index_detail_def Let_def ps_def[symmetric])
      qed
    qed
  qed (use e in \<open>auto simp: MaxEntityIDBytes_def canonicalEntityIDParts_def Let_def ps_def[symmetric]\<close>)
qed

theorem entity_id_first_violation_witness:
  "\<exists>e. ValidateEntityID ''acme.dep1..git.commit.-a'' = Some e \<and>
       ce_reason e = Some (DStr ''empty_segment'') \<and> ce_index e = Some (DInt 2)"
proof -
  let ?e = "newEntityIDContractError ErrorCodeEntityIDInvalid ''empty_segment'' (index_detail 2)"
  have "ValidateEntityID ''acme.dep1..git.commit.-a'' = Some ?e" by code_simp
  from entity_id_first_violation[OF this] this show ?thesis
    by (intro exI[of _ ?e]) (simp add: index_detail_def)
qed

subsection \<open>Message type keys\<close>

lemma MsgType_Validate_iff:
  "MsgType_Validate mt = None \<longleftrightarrow> MsgType_IsValid mt \<and>
     dot \<notin> set (mt_Domain mt) \<and> dot \<notin> set (mt_Category mt) \<and> dot \<notin> set (mt_Version mt)"
  by (auto simp: MsgType_Validate_def MsgType_IsValid_def)

lemma MsgType_Key_join: "MsgType_Key mt = go_join dot [mt_Domain mt, mt_Category mt, mt_Version mt]"
  by (simp add: MsgType_Key_def)

text \<open>The component grammar of a message type makes its key unambiguous: two types that pass
  \<open>Validate\<close> have the same key only if they are equal.\<close>

theorem msg_type_key_injective:
  assumes "MsgType_Validate a = None" "MsgType_Validate b = None"
  shows "MsgType_Key a = MsgType_Key b \<longleftrightarrow> MsgType_Equal a b"
proof -
  have "MsgType_Key m = MsgType_Key n \<Longrightarrow> mt_Domain m = mt_Domain n \<and> mt_Category m = mt_Category n \<and> mt_Version m = mt_Version n"
    if "MsgType_Validate m = None" "MsgType_Validate n = None" for m n
  proof -
    assume "MsgType_Key m = MsgType_Key n"
    then have "go_split dot (MsgType_Key m) = go_split dot (MsgType_Key n)" by simp
    then show ?thesis
      unfolding MsgType_Key_join using that by (simp add: go_split_join MsgType_Validate_iff del: go_join.simps)
  qed
  from this[OF assms] show ?thesis by (auto simp only: MsgType_Equal_def MsgType_Key_def)
qed

theorem msg_type_key_injective_witness:
  "MsgType_Key \<lparr>mt_Domain = ''sensors'', mt_Category = ''gps'', mt_Version = ''v1''\<rparr> \<noteq>
   MsgType_Key \<lparr>mt_Domain = ''sensors'', mt_Category = ''gps'', mt_Version = ''v2''\<rparr>"
proof -
  let ?a = "\<lparr>mt_Domain = ''sensors'', mt_Category = ''gps'', mt_Version = ''v1''\<rparr>"
  let ?b = "\<lparr>mt_Domain = ''sensors'', mt_Category = ''gps'', mt_Version = ''v2''\<rparr>"
  have "MsgType_Validate ?a = None" "MsgType_Validate ?b = None" by code_simp+
  from msg_type_key_injective[OF this] show ?thesis by (simp add: MsgType_Equal_def)
qed

end
