(* ===== verification/Predicate_Contract.thy ===== *)
theory Predicate_Contract
  imports Regexp_Lang
begin

text \<open>
  Predicate identities (\<open>vocabulary/predicate_contract.go\<close>): the three-segment lower-kebab
  grammar with its byte bounds and coded reasons, and the memo of validated predicates, a
  concurrent map with an admission cap, modelled as a state that \<open>ParsePredicate\<close> reads and
  extends.  The lemmas show that the scanner accepts exactly the documented expression
  \<open>[a-z][a-z0-9]*(-[a-z0-9]+)*\<close> per segment and that a warm memo never changes a verdict.
\<close>

subsection \<open>The grammar\<close>

datatype PredicateValidationReason =
    PredicateReasonEmpty
  | PredicateReasonLength
  | PredicateReasonArity
  | PredicateReasonSegmentEmpty
  | PredicateReasonSegmentLength
  | PredicateReasonSegmentStart
  | PredicateReasonSegmentCharacter
  | PredicateReasonSegmentHyphen

text \<open>The string value of a reason; violations are ordered by it.\<close>

fun reason_string :: "PredicateValidationReason \<Rightarrow> string" where
  "reason_string PredicateReasonEmpty = ''empty''"
| "reason_string PredicateReasonLength = ''length''"
| "reason_string PredicateReasonArity = ''arity''"
| "reason_string PredicateReasonSegmentEmpty = ''segment_empty''"
| "reason_string PredicateReasonSegmentLength = ''segment_length''"
| "reason_string PredicateReasonSegmentStart = ''segment_start''"
| "reason_string PredicateReasonSegmentCharacter = ''segment_character''"
| "reason_string PredicateReasonSegmentHyphen = ''segment_hyphen''"

record PredicateParts =
  pp_Domain :: string
  pp_Category :: string
  pp_Property :: string

definition PredicateParts_String :: "PredicateParts \<Rightarrow> string" where
  "PredicateParts_String p = pp_Domain p @ ''.'' @ pp_Category p @ ''.'' @ pp_Property p"

record PredicateValidationError =
  pve_Predicate :: string
  pve_Reason :: PredicateValidationReason
  pve_Segment :: int

definition newPredicateValidationError ::
  "string \<Rightarrow> PredicateValidationReason \<Rightarrow> int \<Rightarrow> PredicateValidationError" where
  "newPredicateValidationError predicate reason segment =
     \<lparr>pve_Predicate = predicate, pve_Reason = reason, pve_Segment = segment\<rparr>"

definition MaxPredicateSegmentBytes :: nat where
  "MaxPredicateSegmentBytes = 64"

definition MaxPredicateBytes :: nat where
  "MaxPredicateBytes = 3 * MaxPredicateSegmentBytes + 2"

definition isLowerASCII :: "char \<Rightarrow> bool" where
  "isLowerASCII c \<longleftrightarrow> CHR ''a'' \<le> c \<and> c \<le> CHR ''z''"

definition isDigitASCII :: "char \<Rightarrow> bool" where
  "isDigitASCII c \<longleftrightarrow> CHR ''0'' \<le> c \<and> c \<le> CHR ''9''"

text \<open>The scan over the bytes after the first; \<open>cs = []\<close> is \<open>i == len(segment)-1\<close>.\<close>

fun scanSegment :: "bool \<Rightarrow> string \<Rightarrow> PredicateValidationReason option" where
  "scanSegment previousHyphen [] = None"
| "scanSegment previousHyphen (c # cs) =
     (if isLowerASCII c \<or> isDigitASCII c then scanSegment False cs
      else if c = CHR ''-'' then
        (if previousHyphen \<or> cs = [] then Some PredicateReasonSegmentHyphen else scanSegment True cs)
      else Some PredicateReasonSegmentCharacter)"

definition validatePredicateSegment :: "string \<Rightarrow> string \<Rightarrow> nat \<Rightarrow> PredicateValidationError option" where
  "validatePredicateSegment predicate segment index =
     (if segment = [] then Some (newPredicateValidationError predicate PredicateReasonSegmentEmpty (int index))
      else if length segment > MaxPredicateSegmentBytes then
        Some (newPredicateValidationError predicate PredicateReasonSegmentLength (int index))
      else if \<not> isLowerASCII (hd segment) then
        Some (newPredicateValidationError predicate PredicateReasonSegmentStart (int index))
      else map_option (\<lambda>r. newPredicateValidationError predicate r (int index)) (scanSegment False (tl segment)))"

fun validatePredicateSegments :: "string \<Rightarrow> nat \<Rightarrow> string list \<Rightarrow> PredicateValidationError option" where
  "validatePredicateSegments predicate i [] = None"
| "validatePredicateSegments predicate i (s # ss) =
     (case validatePredicateSegment predicate s i of
        Some err \<Rightarrow> Some err
      | None \<Rightarrow> validatePredicateSegments predicate (Suc i) ss)"

subsection \<open>The memo\<close>

record predicate_memo =
  validParsedPredicates :: "(string \<times> PredicateParts) list"
  validParsedPredicateCount :: int

definition maxMemoizedPredicates :: int where
  "maxMemoizedPredicates = 65536"

definition empty_predicate_memo :: predicate_memo where
  "empty_predicate_memo = \<lparr>validParsedPredicates = [], validParsedPredicateCount = 0\<rparr>"

definition memoizeParsedPredicate :: "string \<Rightarrow> PredicateParts \<Rightarrow> predicate_memo \<Rightarrow> predicate_memo" where
  "memoizeParsedPredicate predicate parts m =
     (if validParsedPredicateCount m \<ge> maxMemoizedPredicates then m
      else case map_of (validParsedPredicates m) predicate of
        Some _ \<Rightarrow> m
      | None \<Rightarrow> m\<lparr>validParsedPredicates := (predicate, parts) # validParsedPredicates m,
                  validParsedPredicateCount := validParsedPredicateCount m + 1\<rparr>)"

definition ParsePredicate ::
  "predicate_memo \<Rightarrow> string \<Rightarrow> predicate_memo \<times> (PredicateValidationError + PredicateParts)" where
  "ParsePredicate m predicate =
     (case map_of (validParsedPredicates m) predicate of
        Some cached \<Rightarrow> (m, Inr cached)
      | None \<Rightarrow>
        if predicate = [] then (m, Inl (newPredicateValidationError predicate PredicateReasonEmpty (-1)))
        else if length predicate > MaxPredicateBytes then
          (m, Inl (newPredicateValidationError predicate PredicateReasonLength (-1)))
        else let segments = go_split (CHR ''.'') predicate in
          if length segments \<noteq> 3 then
            (m, Inl (newPredicateValidationError predicate PredicateReasonArity (-1)))
          else case validatePredicateSegments predicate 0 segments of
            Some err \<Rightarrow> (m, Inl err)
          | None \<Rightarrow>
              let parts = \<lparr>pp_Domain = segments ! 0, pp_Category = segments ! 1, pp_Property = segments ! 2\<rparr>
              in (memoizeParsedPredicate predicate parts m, Inr parts))"

text \<open>A parse on an empty memo.\<close>

definition parse_predicate_cold :: "string \<Rightarrow> PredicateValidationError + PredicateParts" where
  "parse_predicate_cold predicate = snd (ParsePredicate empty_predicate_memo predicate)"

subsection \<open>The scanner accepts the documented expression\<close>

definition kebab_tail_class :: rx where
  "kebab_tail_class = rx_ranges [(CHR ''a'', CHR ''z''), (CHR ''0'', CHR ''9'')]"

definition kebab_groups :: rx where
  "kebab_groups = Rx_Star (Rx_Cat (rx_char (CHR ''-'')) (Rx_Cat kebab_tail_class (Rx_Star kebab_tail_class)))"

definition kebab_rx :: rx where
  "kebab_rx = Rx_Cat (rx_ranges [(CHR ''a'', CHR ''z'')]) (Rx_Cat (Rx_Star kebab_tail_class) kebab_groups)"

lemma kebab_tail_class_eq: "kebab_tail_class = Rx_Class (\<lambda>c. isLowerASCII c \<or> isDigitASCII c)"
  by (auto simp: kebab_tail_class_def rx_ranges_def isLowerASCII_def isDigitASCII_def fun_eq_iff)

lemma hyphen_not_tail [simp]: "\<not> isLowerASCII (CHR ''-'')" "\<not> isDigitASCII (CHR ''-'')"
  by (simp_all add: isLowerASCII_def isDigitASCII_def less_eq_char_def)

lemma kebab_groups_Cons:
  "c # w \<in> rx_lang kebab_groups \<longleftrightarrow>
     c = CHR ''-'' \<and> w \<in> rx_lang (Rx_Cat kebab_tail_class (Rx_Cat (Rx_Star kebab_tail_class) kebab_groups))"
  unfolding rx_deriv_lang[symmetric] kebab_groups_def
  by (simp add: rx_char_def rx_cat_monoid del: rx_lang.simps(5,6))

lemma kebab_body_Cons:
  "c # w \<in> rx_lang (Rx_Cat (Rx_Star kebab_tail_class) kebab_groups) \<longleftrightarrow>
     (isLowerASCII c \<or> isDigitASCII c) \<and> w \<in> rx_lang (Rx_Cat (Rx_Star kebab_tail_class) kebab_groups) \<or>
     c # w \<in> rx_lang kebab_groups"
proof -
  have "c # w \<in> rx_lang (Rx_Cat (Rx_Star kebab_tail_class) kebab_groups) \<longleftrightarrow>
    w \<in> rx_lang (Rx_Cat (Rx_Cat (rx_deriv c kebab_tail_class) (Rx_Star kebab_tail_class)) kebab_groups) \<or>
    w \<in> rx_lang (rx_deriv c kebab_groups)"
    unfolding rx_deriv_lang[symmetric] by (simp del: rx_lang.simps(5,6))
  then show ?thesis
    by (simp add: rx_deriv_lang kebab_tail_class_eq rx_cat_monoid del: rx_lang.simps(5,6))
qed

lemma kebab_Nil: "[] \<in> rx_lang (Rx_Cat (Rx_Star kebab_tail_class) kebab_groups)"
  unfolding rx_nullable_lang[symmetric] by (simp add: kebab_groups_def)

lemma scanSegment_rx:
  "scanSegment False cs = None \<longleftrightarrow> cs \<in> rx_lang (Rx_Cat (Rx_Star kebab_tail_class) kebab_groups)"
  "cs \<noteq> [] \<Longrightarrow> scanSegment True cs = None \<longleftrightarrow>
     cs \<in> rx_lang (Rx_Cat kebab_tail_class (Rx_Cat (Rx_Star kebab_tail_class) kebab_groups))"
proof (induction cs)
  case Nil
  case 1
  show ?case by (simp add: kebab_Nil del: rx_lang.simps(5))
next
  case Nil
  case 2
  then show ?case by simp
next
  case (Cons c cs)
  have ne: "[] \<notin> rx_lang (Rx_Cat kebab_tail_class r)" for r
    by (simp add: kebab_tail_class_eq rx_cat_class del: rx_lang.simps(5))
  case 1
  show ?case
    using Cons.IH ne by (cases cs) (auto simp: kebab_body_Cons kebab_groups_Cons simp del: rx_lang.simps(5))
  case 2
  show ?case
    using Cons.IH(1) by (auto simp: kebab_tail_class_eq rx_cat_class simp del: rx_lang.simps(5))
qed

lemma validatePredicateSegment_ok:
  "validatePredicateSegment p s i = None \<longleftrightarrow> length s \<le> 64 \<and> s \<in> rx_lang kebab_rx"
proof -
  have "rx_ranges [(CHR ''a'', CHR ''z'')] = Rx_Class isLowerASCII"
    by (simp add: rx_ranges_def isLowerASCII_def fun_eq_iff)
  then have "s \<in> rx_lang kebab_rx \<longleftrightarrow> s \<noteq> [] \<and> isLowerASCII (hd s) \<and> scanSegment False (tl s) = None"
    unfolding kebab_rx_def scanSegment_rx(1) by (cases s) (simp_all add: rx_cat_class del: rx_lang.simps(5))
  then show ?thesis
    by (auto simp: validatePredicateSegment_def MaxPredicateSegmentBytes_def)
qed

lemma validatePredicateSegments_ok:
  "validatePredicateSegments p i ss = None \<longleftrightarrow> (\<forall>s\<in>set ss. length s \<le> 64 \<and> s \<in> rx_lang kebab_rx)"
proof (induction ss arbitrary: i)
  case (Cons a ss)
  show ?case
    by (cases "validatePredicateSegment p a i")
      (use Cons validatePredicateSegment_ok[of p a i] in \<open>auto\<close>)
qed simp

lemma length_join3: "length ps = 3 \<Longrightarrow> length (go_join c ps) = length (ps ! 0) + length (ps ! 1) + length (ps ! 2) + 2"
proof -
  assume "length ps = 3"
  then obtain x y z where "ps = [x, y, z]" by (auto simp: numeral_3_eq_3 length_Suc_conv)
  then show ?thesis by simp
qed

lemma cold_Inr:
  "parse_predicate_cold p = Inr parts \<longleftrightarrow>
     (\<forall>s\<in>set (go_split (CHR ''.'') p). length s \<le> 64 \<and> s \<in> rx_lang kebab_rx) \<and>
     go_split (CHR ''.'') p = [pp_Domain parts, pp_Category parts, pp_Property parts]" (is "?L \<longleftrightarrow> ?R")
proof
  assume ?L
  then have v: "length (go_split (CHR ''.'') p) = 3"
      "validatePredicateSegments p 0 (go_split (CHR ''.'') p) = None"
      "parts = \<lparr>pp_Domain = go_split (CHR ''.'') p ! 0, pp_Category = go_split (CHR ''.'') p ! 1,
         pp_Property = go_split (CHR ''.'') p ! 2\<rparr>"
    by (auto simp: parse_predicate_cold_def ParsePredicate_def empty_predicate_memo_def Let_def
        split: if_splits option.splits)
  have "ss = [ss ! 0, ss ! 1, ss ! 2]" if "length ss = 3" for ss :: "string list"
    using that by (auto simp: numeral_3_eq_3 length_Suc_conv)
  from this[OF v(1)] v show ?R by (simp add: validatePredicateSegments_ok)
next
  assume R: ?R
  have len: "length (go_split (CHR ''.'') p) = 3" using R by simp
  have "length p = length (go_join (CHR ''.'') (go_split (CHR ''.'') p))" by simp
  also have "\<dots> \<le> MaxPredicateBytes"
  proof -
    have "length (pp_Domain parts) \<le> 64" "length (pp_Category parts) \<le> 64" "length (pp_Property parts) \<le> 64"
      using R by auto
    moreover have "go_split (CHR ''.'') p = [pp_Domain parts, pp_Category parts, pp_Property parts]"
      using R by blast
    ultimately show ?thesis
      unfolding length_join3[OF len] by (simp add: MaxPredicateBytes_def MaxPredicateSegmentBytes_def)
  qed
  finally have "length p \<le> MaxPredicateBytes" .
  moreover have "p \<noteq> []" using len by auto
  moreover have "validatePredicateSegments p 0 (go_split (CHR ''.'') p) = None"
    unfolding validatePredicateSegments_ok by (rule R[THEN conjunct1])
  ultimately show ?L using R[THEN conjunct2]
    by (simp add: parse_predicate_cold_def ParsePredicate_def empty_predicate_memo_def Let_def)
qed

text \<open>C26. \<open>ParsePredicate\<close> decides the documented grammar and loses nothing: it returns parts exactly when
  the predicate is the dotted spelling of those parts and each of the three parts has at most 64
  bytes and matches \<open>[a-z][a-z0-9]*(-[a-z0-9]+)*\<close>.  The bound of 194 bytes on the whole predicate never
  rejects anything these conditions accept.\<close>

theorem predicate_parse_iff_kebab:
  "parse_predicate_cold p = Inr parts \<longleftrightarrow>
     PredicateParts_String parts = p \<and>
     list_all (\<lambda>s. length s \<le> 64 \<and> rx_match kebab_rx s) [pp_Domain parts, pp_Category parts, pp_Property parts]"
proof -
  let ?ps = "[pp_Domain parts, pp_Category parts, pp_Property parts]"
  have str: "PredicateParts_String parts = go_join (CHR ''.'') ?ps"
    by (simp add: PredicateParts_String_def)
  have dotfree: "CHR ''.'' \<notin> set s" if "s \<in> rx_lang kebab_rx" for s
  proof
    assume "CHR ''.'' \<in> set s"
    have scan: "scanSegment b cs \<noteq> None" if "CHR ''.'' \<in> set cs" for b cs
      using that by (induction b cs rule: scanSegment.induct)
        (auto simp: isLowerASCII_def isDigitASCII_def less_eq_char_def)
    from that have "s \<noteq> [] \<and> isLowerASCII (hd s) \<and> scanSegment False (tl s) = None"
      using validatePredicateSegment_ok[of "[]" "[]" 0]
      unfolding kebab_rx_def scanSegment_rx(1) by (cases s)
        (auto simp: rx_ranges_def isLowerASCII_def rx_cat_class simp del: rx_lang.simps(5))
    with scan[of "tl s" False] \<open>CHR ''.'' \<in> set s\<close> show False
      by (cases s) (auto simp: isLowerASCII_def less_eq_char_def)
  qed
  show ?thesis
  proof
    assume "parse_predicate_cold p = Inr parts"
    then have *: "go_split (CHR ''.'') p = ?ps" "\<forall>s\<in>set ?ps. length s \<le> 64 \<and> s \<in> rx_lang kebab_rx"
      by (auto simp: cold_Inr)
    have "p = go_join (CHR ''.'') ?ps" using go_join_split[of "CHR ''.''" p] * by metis
    with * str show "PredicateParts_String parts = p \<and> list_all (\<lambda>s. length s \<le> 64 \<and> rx_match kebab_rx s) ?ps"
      by (simp add: rx_match_lang)
  next
    assume R: "PredicateParts_String parts = p \<and> list_all (\<lambda>s. length s \<le> 64 \<and> rx_match kebab_rx s) ?ps"
    then have "go_split (CHR ''.'') p = ?ps"
      using go_split_join[of ?ps "CHR ''.''"] dotfree str by (auto simp: rx_match_lang)
    with R show "parse_predicate_cold p = Inr parts" by (simp add: cold_Inr rx_match_lang)
  qed
qed

subsection \<open>The memo is transparent\<close>

definition memo_ok :: "predicate_memo \<Rightarrow> bool" where
  "memo_ok m \<longleftrightarrow> distinct (map fst (validParsedPredicates m)) \<and>
     validParsedPredicateCount m = int (length (validParsedPredicates m)) \<and>
     length (validParsedPredicates m) \<le> 65536 \<and>
     (\<forall>(p, parts)\<in>set (validParsedPredicates m). parse_predicate_cold p = Inr parts)"

lemma memo_ok_empty [simp]: "memo_ok empty_predicate_memo"
  by (simp add: memo_ok_def empty_predicate_memo_def)

lemma memo_lookup: "memo_ok m \<Longrightarrow> map_of (validParsedPredicates m) p = Some parts \<Longrightarrow> parse_predicate_cold p = Inr parts"
  by (fastforce simp: memo_ok_def dest: map_of_SomeD)

lemma memoize_ok:
  assumes "memo_ok m" "parse_predicate_cold p = Inr parts"
  shows "memo_ok (memoizeParsedPredicate p parts m)"
  using assms
  by (auto simp: memoizeParsedPredicate_def memo_ok_def maxMemoizedPredicates_def map_of_eq_None_iff
      split: option.splits)

lemma ParsePredicate_miss:
  assumes "map_of (validParsedPredicates m) p = None"
  shows "snd (ParsePredicate m p) = parse_predicate_cold p"
    "fst (ParsePredicate m p) = (case parse_predicate_cold p of Inl _ \<Rightarrow> m | Inr parts \<Rightarrow> memoizeParsedPredicate p parts m)"
  using assms
  by (auto simp: ParsePredicate_def parse_predicate_cold_def empty_predicate_memo_def Let_def split: option.splits)

text \<open>A sequence of calls on one memo.\<close>

fun parse_run :: "predicate_memo \<Rightarrow> string list \<Rightarrow> predicate_memo \<times> (PredicateValidationError + PredicateParts) list" where
  "parse_run m [] = (m, [])"
| "parse_run m (p # ps) =
     (let (m', r) = ParsePredicate m p; (m'', rs) = parse_run m' ps in (m'', r # rs))"

lemma ParsePredicate_memo_ok:
  assumes "memo_ok m"
  shows "memo_ok (fst (ParsePredicate m p)) \<and> snd (ParsePredicate m p) = parse_predicate_cold p"
proof (cases "map_of (validParsedPredicates m) p")
  case None
  then show ?thesis using assms by (auto simp: ParsePredicate_miss memoize_ok split: sum.splits)
next
  case (Some parts)
  then show ?thesis using assms memo_lookup[OF assms Some] by (simp add: ParsePredicate_def)
qed

text \<open>C28. A run of parses: starting from a memo that holds only validated predicates (in particular the
  empty one), any sequence of \<open>ParsePredicate\<close> calls returns what cold parses return, and the memo
  still holds only validated predicates, each once, with an exact count and at most 65536 of them.\<close>

theorem predicate_memo_transparent:
  assumes "memo_ok m"
  shows "snd (parse_run m ps) = map parse_predicate_cold ps \<and> memo_ok (fst (parse_run m ps))"
  using assms
proof (induction ps arbitrary: m)
  case (Cons p ps)
  obtain m' r where p: "ParsePredicate m p = (m', r)" by fastforce
  with ParsePredicate_memo_ok[OF Cons.prems, of p] Cons.IH[of m'] show ?case
    by (auto simp: split: prod.splits)
qed simp

theorem predicate_memo_transparent_witness:
  "snd (parse_run empty_predicate_memo [''robotics.battery.level'', ''Robotics.battery.level'', ''robotics.battery.level'']) =
     [Inr \<lparr>pp_Domain = ''robotics'', pp_Category = ''battery'', pp_Property = ''level''\<rparr>,
      Inl \<lparr>pve_Predicate = ''Robotics.battery.level'', pve_Reason = PredicateReasonSegmentStart, pve_Segment = 0\<rparr>,
      Inr \<lparr>pp_Domain = ''robotics'', pp_Category = ''battery'', pp_Property = ''level''\<rparr>]"
proof -
  have *: "parse_predicate_cold ''robotics.battery.level'' =
      Inr \<lparr>pp_Domain = ''robotics'', pp_Category = ''battery'', pp_Property = ''level''\<rparr>"
    "parse_predicate_cold ''Robotics.battery.level'' =
      Inl \<lparr>pve_Predicate = ''Robotics.battery.level'', pve_Reason = PredicateReasonSegmentStart, pve_Segment = 0\<rparr>"
    by code_simp+
  then show ?thesis
    unfolding predicate_memo_transparent[OF memo_ok_empty, THEN conjunct1] by simp
qed

end
