(* ===== verification/Go_Float.thy ===== *)
theory Go_Float
  imports Prelude "HOL-Library.Log_Nat"
begin

text \<open>
  IEEE-754 binary64 rounding as Go's \<open>float64\<close> uses it: the nearest representable value of a
  rational, ties to even, with gradual underflow and overflow to \<open>None\<close>.  Used for the numbers
  of JSON documents and for the failure rate of the endpoint breaker.  Finite values only; the
  sign of zero is not kept.
\<close>

definition flog2 :: "rat \<Rightarrow> int" where
  "flog2 x = (let (p, q) = quotient_of x; e = bitlen p - bitlen q in if 2 powi e \<le> x then e else e - 1)"

definition round_half_even :: "rat \<Rightarrow> int" where
  "round_half_even x =
     (let f = \<lfloor>x\<rfloor>; d = x - of_int f in
      if d < 1 / 2 then f else if 1 / 2 < d then f + 1 else if even f then f else f + 1)"

definition f64_ulp :: "rat \<Rightarrow> rat" where
  "f64_ulp a = 2 powi (max (flog2 a) (-1022) - 52)"

definition f64_round :: "rat \<Rightarrow> rat option" where
  "f64_round x =
     (if x = 0 then Some 0
      else let u = f64_ulp \<bar>x\<bar>; y = of_int (round_half_even (\<bar>x\<bar> / u)) * u in
        if 2 powi 1024 \<le> y then None else Some (if x < 0 then - y else y))"

text \<open>Conversion of an integer and the result of one arithmetic operation, where they are finite.\<close>

definition f64_of_int :: "int \<Rightarrow> rat" where
  "f64_of_int i = (case f64_round (of_int i) of Some r \<Rightarrow> r | None \<Rightarrow> of_int i)"

definition f64_val :: "rat \<Rightarrow> rat" where
  "f64_val x = (case f64_round x of Some r \<Rightarrow> r | None \<Rightarrow> x)"

lemma flog2_bounds:
  assumes "0 < x"
  shows "2 powi flog2 x \<le> x" "x < 2 powi (flog2 x + 1)"
proof -
  obtain p q where pq: "quotient_of x = (p, q)" by fastforce
  have q: "0 < q" using quotient_of_denom_pos[OF pq] .
  have x: "x = of_int p / of_int q" using quotient_of_div[OF pq] .
  have p: "0 < p" using assms q unfolding x by (simp add: zero_less_divide_iff)
  have b: "2 powi (bitlen n - 1) \<le> (of_int n :: rat) \<and> (of_int n :: rat) < 2 powi (bitlen n)" if "0 < n" for n
  proof -
    have "2 ^ nat (bitlen n - 1) \<le> n" "n < 2 ^ nat (bitlen n)" using bitlen_bounds[OF that] by auto
    then have "(2 :: rat) ^ nat (bitlen n - 1) \<le> of_int n" "of_int n < (2 :: rat) ^ nat (bitlen n)"
      by (metis of_int_le_iff of_int_numeral of_int_power, metis of_int_less_iff of_int_numeral of_int_power)
    moreover have "0 < bitlen n" using that bitlen_nonneg[of n] bitlen_eq_zero_iff[of n] by linarith
    ultimately show ?thesis by (simp add: power_int_def)
  qed
  define e where "e = bitlen p - bitlen q"
  have "(2 :: rat) powi (e - 1) = 2 powi (bitlen p - 1) / 2 powi (bitlen q)"
    by (simp add: e_def power_int_diff[symmetric] algebra_simps)
  also have "\<dots> \<le> x" unfolding x using b[OF p] b[OF q] q p
    by (intro frac_le) (auto simp: less_imp_le)
  finally have lo: "2 powi (e - 1) \<le> x" .
  have "x < 2 powi (bitlen p) / 2 powi (bitlen q - 1)" unfolding x using b[OF p] b[OF q] q p
    by (intro frac_less) auto
  also have "\<dots> = (2 :: rat) powi (e + 1)"
    by (simp add: e_def power_int_diff[symmetric] algebra_simps)
  finally have hi: "x < 2 powi (e + 1)" .
  have f: "flog2 x = (if 2 powi e \<le> x then e else e - 1)"
    by (simp add: flog2_def pq e_def)
  show "2 powi flog2 x \<le> x" "x < 2 powi (flog2 x + 1)"
    using lo hi by (auto simp: f)
qed

lemma powi2_mono: "(2 :: rat) powi a \<le> 2 powi b \<longleftrightarrow> a \<le> b"
  using power_int_strict_increasing[of b a "2 :: rat"] power_int_increasing[of a b "2 :: rat"] by force

lemma flog2_less: "0 < x \<Longrightarrow> x < 2 powi k \<Longrightarrow> flog2 x < k"
  using flog2_bounds(1)[of x] powi2_mono[of k "flog2 x"] by linarith

lemma flog2_ge: "0 < x \<Longrightarrow> 2 powi k \<le> x \<Longrightarrow> k \<le> flog2 x"
  using flog2_bounds(2)[of x] powi2_mono[of "flog2 x + 1" k] by linarith

lemma round_half_even_int [simp]: "round_half_even (of_int m) = m"
  by (simp add: round_half_even_def)

lemma round_half_even_le: "x \<le> of_int m \<Longrightarrow> round_half_even x \<le> m"
  by (auto simp: round_half_even_def Let_def) linarith+

lemma round_half_even_nonneg: "0 \<le> x \<Longrightarrow> 0 \<le> round_half_even x"
  by (auto simp: round_half_even_def Let_def)

lemma powi2_pos [simp]: "0 < (2 :: rat) powi k"
  by simp

lemma powi2_nonneg_int: "0 \<le> k \<Longrightarrow> \<exists>m. (2 :: rat) powi k = of_int m"
  by (intro exI[of _ "2 ^ nat k"]) (simp add: power_int_def)

text \<open>A value on the grid of some exponent lies on its own grid.\<close>

lemma on_own_grid:
  assumes a: "a = of_int m * 2 powi (e - 52)" and m: "0 < m" "m \<le> 2 ^ 53" and e: "-1022 \<le> e"
  shows "\<exists>n. a / f64_ulp a = of_int n"
proof -
  have pos: "0 < a" using a m by simp
  define e' where "e' = max (flog2 a) (-1022)"
  have ulp: "f64_ulp a = 2 powi (e' - 52)" by (simp add: f64_ulp_def e'_def)
  have q: "a / f64_ulp a = of_int m * 2 powi (e - e')"
    unfolding ulp by (subst a) (simp add: power_int_diff field_simps)
  show ?thesis
  proof (cases "m = 2 ^ 53")
    case True
    have "a = 2 powi (e + 1)"
      unfolding a True using power_int_add[of "2 :: rat" 53 "e - 52"] by (simp add: add.commute)
    then have "e' = e + 1"
      using flog2_ge[OF pos, of "e + 1"] flog2_less[OF pos, of "e + 2"] e
        power_int_strict_increasing[of "e + 1" "e + 2" "2 :: rat"] by (simp add: e'_def)
    then show ?thesis unfolding q True by (intro exI[of _ "2 ^ 52"]) simp
  next
    case False
    then have "(of_int m :: rat) < 2 ^ 53" using m by (metis of_int_less_iff of_int_numeral of_int_power order_less_le)
    then have "a < 2 powi (e + 1)"
      unfolding a using power_int_add[of "2 :: rat" 53 "e - 52"] by (simp add: add.commute)
    then have "e' \<le> e" using flog2_less[OF pos] e by (fastforce simp: e'_def)
    then obtain k where "(2 :: rat) powi (e - e') = of_int k" using powi2_nonneg_int[of "e - e'"] by auto
    then show ?thesis unfolding q by (intro exI[of _ "m * k"]) simp
  qed
qed

text \<open>Rounding is a projection: a rounded value is its own rounding.\<close>

lemma f64_round_idem:
  assumes "f64_round x = Some y"
  shows "f64_round y = Some y"
proof (cases "x = 0")
  case True
  with assms show ?thesis by (simp add: f64_round_def)
next
  case False
  define a where "a = \<bar>x\<bar>"
  define e where "e = max (flog2 a) (-1022)"
  define m where "m = round_half_even (a / 2 powi (e - 52))"
  define z where "z = of_int m * (2 :: rat) powi (e - 52)"
  have pos: "0 < a" using False by (simp add: a_def)
  have y: "z < 2 powi 1024" "y = (if x < 0 then - z else z)"
    using assms False by (auto simp: f64_round_def f64_ulp_def Let_def a_def e_def m_def z_def split: if_splits)
  have "a < 2 powi (e + 1)"
    using flog2_bounds(2)[OF pos] powi2_mono[of "flog2 a + 1" "e + 1"] by (auto simp: e_def)
  then have "a / 2 powi (e - 52) \<le> of_int (2 ^ 53)"
    using power_int_add[of "2 :: rat" 53 "e - 52"] by (simp add: divide_le_eq add.commute)
  then have m: "m \<le> 2 ^ 53" "0 \<le> m"
    unfolding m_def using pos by (auto intro!: round_half_even_le round_half_even_nonneg)
  show ?thesis
  proof (cases "m = 0")
    case True
    with y show ?thesis by (simp add: f64_round_def z_def)
  next
    case m0: False
    obtain n where n: "z / f64_ulp z = of_int n"
      using on_own_grid[OF z_def, of] m m0 by (auto simp: e_def)
    have z: "0 < z" using m m0 by (simp add: z_def)
    have u: "0 < f64_ulp z" by (simp add: f64_ulp_def)
    have "\<bar>y\<bar> = z" "y \<noteq> 0" "y < 0 \<longleftrightarrow> x < 0" using y(2) z by auto
    moreover have "of_int n * f64_ulp z = z" using n u by (simp add: field_simps)
    ultimately show ?thesis using y n by (simp add: f64_round_def Let_def)
  qed
qed

lemma round_half_even_ge: "of_int m \<le> x \<Longrightarrow> m \<le> round_half_even x"
  by (auto simp: round_half_even_def Let_def) linarith+

text \<open>Rounding never crosses a power of two downwards.\<close>

lemma f64_round_ge_pow2:
  assumes "f64_round x = Some y" "2 powi k \<le> x" "-1022 \<le> k"
  shows "2 powi k \<le> y"
proof -
  have pos: "0 < x" using assms(2) powi2_pos[of k] by linarith
  define e where "e = max (flog2 x) (-1022)"
  have ke: "k \<le> e" using flog2_ge[OF pos assms(2)] by (simp add: e_def)
  have fe: "flog2 x = e" using ke flog2_ge[OF pos assms(2)] assms(3) by (auto simp: e_def)
  have "(2 :: rat) powi 52 * 2 powi (e - 52) = 2 powi e"
    using power_int_add[of "2 :: rat" 52 "e - 52"] by simp
  then have "of_int (2 ^ 52) \<le> x / 2 powi (e - 52)"
    using flog2_bounds(1)[OF pos] fe by (simp add: le_divide_eq)
  then have m: "2 ^ 52 \<le> round_half_even (x / 2 powi (e - 52))" by (rule round_half_even_ge)
  have y: "y = of_int (round_half_even (x / 2 powi (e - 52))) * 2 powi (e - 52)"
    using assms(1) pos by (auto simp: f64_round_def f64_ulp_def Let_def e_def split: if_splits)
  have "(2 :: rat) powi k \<le> 2 powi e" using ke powi2_mono by blast
  also have "\<dots> = 2 ^ 52 * 2 powi (e - 52)"
    using power_int_add[of "2 :: rat" 52 "e - 52"] by simp
  also have "\<dots> \<le> y"
  proof -
    have "(2 :: rat) ^ 52 \<le> of_int (round_half_even (x / 2 powi (e - 52)))"
      using m by (metis of_int_le_iff of_int_numeral of_int_power)
    then show ?thesis unfolding y by (intro mult_right_mono) simp_all
  qed
  finally show ?thesis .
qed

lemma f64_round_le_pow2:
  assumes "f64_round x = Some y" "x \<le> 2 powi k" "-1022 \<le> k"
  shows "y \<le> 2 powi k"
proof (cases "0 < x")
  case True
  define e where "e = max (flog2 x) (-1022)"
  have "flog2 x \<le> k"
    using flog2_bounds(1)[OF True] assms(2) powi2_mono[of "flog2 x" k] by linarith
  then have ek: "e \<le> k" using assms(3) by (simp add: e_def)
  obtain m where m: "(2 :: rat) powi (k - e + 52) = of_int m" using powi2_nonneg_int[of "k - e + 52"] ek by auto
  have u: "of_int m * 2 powi (e - 52) = (2 :: rat) powi k"
    unfolding m[symmetric] by (simp flip: power_int_add)
  have "x / 2 powi (e - 52) \<le> of_int m" using assms(2) u by (simp add: divide_le_eq)
  then have "round_half_even (x / 2 powi (e - 52)) \<le> m" by (rule round_half_even_le)
  then have "of_int (round_half_even (x / 2 powi (e - 52))) * 2 powi (e - 52) \<le> (2 :: rat) powi k"
    unfolding u[symmetric] by (intro mult_right_mono) simp_all
  moreover have "y = of_int (round_half_even (x / 2 powi (e - 52))) * 2 powi (e - 52)"
    using assms(1) True by (auto simp: f64_round_def f64_ulp_def Let_def e_def split: if_splits)
  ultimately show ?thesis by simp
next
  case False
  define z where "z = of_int (round_half_even (\<bar>x\<bar> / f64_ulp \<bar>x\<bar>)) * f64_ulp \<bar>x\<bar>"
  have "0 \<le> z" unfolding z_def
    by (intro mult_nonneg_nonneg) (auto simp: f64_ulp_def intro!: round_half_even_nonneg divide_nonneg_pos)
  moreover have "y = - z \<or> y = 0" using assms(1) False by (auto simp: f64_round_def Let_def z_def split: if_splits)
  ultimately show ?thesis using powi2_pos[of k] by linarith
qed

lemma f64_of_int_exact: "0 \<le> n \<Longrightarrow> n \<le> 2 ^ 53 \<Longrightarrow> f64_of_int n = of_int n"
proof (cases "n = 0")
  case False
  assume n: "0 \<le> n" "n \<le> 2 ^ 53"
  then have pos: "0 < (of_int n :: rat)" using False by simp
  obtain k where k: "(of_int n :: rat) / f64_ulp (of_int n) = of_int k"
    using on_own_grid[of "of_int n" n 52] n False by auto
  have "0 < f64_ulp (of_int n)" by (simp add: f64_ulp_def)
  then have "of_int k * f64_ulp (of_int n) = of_int n" using k by (simp add: field_simps)
  then show ?thesis using pos k by (auto simp: f64_of_int_def f64_round_def Let_def)
qed (simp add: f64_of_int_def f64_round_def)

text \<open>In the upper half of the unit interval one grid point above one half is told apart from it.\<close>

lemma f64_round_gt_half:
  assumes "f64_round x = Some y" "1 / 2 + 2 powi (-53) \<le> x" "x < 1"
  shows "1 / 2 < y"
proof -
  have pos: "0 < x" using assms(2) powi2_pos[of "-53"] by linarith
  have half: "(2 :: rat) powi (-1) = 1 / 2" by (simp add: power_int_minus)
  have "(2 :: rat) powi (-1) \<le> x" using assms(2) powi2_pos[of "-53"] unfolding half by linarith
  then have "flog2 x = -1" using flog2_ge[OF pos, of "-1"] flog2_less[OF pos, of 0] assms(3) by simp
  then have u: "f64_ulp x = 2 powi (-53)" by (simp add: f64_ulp_def)
  have g: "(2 ^ 52 + 1) * 2 powi (-53) = 1 / 2 + (2 :: rat) powi (-53)"
    by (simp add: power_int_minus field_simps)
  have "(of_int (2 ^ 52 + 1) :: rat) \<le> x / 2 powi (-53)" using assms(2) g by (simp add: le_divide_eq)
  then have r: "2 ^ 52 + 1 \<le> round_half_even (x / 2 powi (-53))" by (rule round_half_even_ge)
  have "(2 ^ 52 + 1) * 2 powi (-53) \<le> of_int (round_half_even (x / 2 powi (-53))) * (2 :: rat) powi (-53)"
  proof (intro mult_right_mono)
    show "(2 ^ 52 + 1 :: rat) \<le> of_int (round_half_even (x / 2 powi (-53)))"
      using of_int_le_iff[where 'a = rat, THEN iffD2, OF r] by simp
  qed simp
  moreover have "y = of_int (round_half_even (x / 2 powi (-53))) * 2 powi (-53)"
    using assms(1) pos u by (auto simp: f64_round_def Let_def split: if_splits)
  moreover have "0 < (2 :: rat) powi (-53)" by simp
  ultimately show ?thesis using g by linarith
qed

lemma f64_round_unit: "0 \<le> x \<Longrightarrow> x \<le> 1 \<Longrightarrow> \<exists>y. f64_round x = Some y"
proof (rule ccontr)
  assume x: "0 \<le> x" "x \<le> 1" "\<nexists>y. f64_round x = Some y"
  then have pos: "0 < x" by (cases "x = 0") (auto simp: f64_round_def)
  define e where "e = max (flog2 x) (-1022)"
  have "flog2 x \<le> 0" using flog2_less[OF pos, of 1] x(2) by simp
  then have e: "e \<le> 0" by (simp add: e_def)
  have "x < 2 powi (e + 1)" using flog2_bounds(2)[OF pos] powi2_mono[of "flog2 x + 1" "e + 1"] by (auto simp: e_def)
  then have "x / 2 powi (e - 52) \<le> of_int (2 ^ 53)"
    using power_int_add[of "2 :: rat" 53 "e - 52"] by (simp add: divide_le_eq add.commute)
  then have "round_half_even (x / 2 powi (e - 52)) \<le> 2 ^ 53" by (rule round_half_even_le)
  then have "(of_int (round_half_even (x / 2 powi (e - 52))) :: rat) \<le> of_int (2 ^ 53)" by (rule of_int_le_iff[THEN iffD2])
  then have "of_int (round_half_even (x / 2 powi (e - 52))) * 2 powi (e - 52) \<le> (2 ^ 53 :: rat) * 2 powi (e - 52)"
    by (intro mult_right_mono) simp_all
  also have "\<dots> = 2 powi (e + 1)" using power_int_add[of "2 :: rat" 53 "e - 52"] by (simp add: add.commute)
  also have "\<dots> < 2 powi 1024" using e power_int_strict_increasing[of "e + 1" 1024 "2 :: rat"] by simp
  finally show False using x(3) pos by (auto simp: f64_round_def f64_ulp_def Let_def e_def split: if_splits)
qed

end
