(* ===== verification/Go_Json.thy ===== *)
theory Go_Json
  imports Go_Float
begin

text \<open>
  What the program uses of Go's dynamic values and of \<open>encoding/json\<close>.  A value of type \<open>any\<close>
  is a \<open>gval\<close>; a JSON document is its syntax tree \<open>json\<close>.  Marshalling orders the keys of a map
  and keeps the declaration order of a struct, refuses values that have no JSON form, and writes
  an invalid UTF-8 byte of a string as an escape of U+FFFD, which a decoder reads back as the
  three bytes of U+FFFD; decoding turns every number into the nearest \<open>float64\<close>, an object into a
  map in which the last of several equal keys wins, and invalid UTF-8 into U+FFFD.  The text of a
  tree (white space, escapes, number formatting) is not modelled here: the one consumer of the
  text takes it as a parameter.  The RFC 3339 text of an instant is kept as the instant.
\<close>

subsection \<open>UTF-8\<close>

definition byte_in :: "char \<Rightarrow> nat \<Rightarrow> nat \<Rightarrow> bool" where
  "byte_in c lo hi \<longleftrightarrow> lo \<le> of_char c \<and> of_char c \<le> hi"

text \<open>A leading byte announces its number of continuation bytes and the range of the first of them.\<close>

definition utf8_lead :: "char \<Rightarrow> (nat \<times> nat \<times> nat) option" where
  "utf8_lead a =
     (if byte_in a 0x00 0x7F then Some (0, 0, 0)
      else if byte_in a 0xC2 0xDF then Some (1, 0x80, 0xBF)
      else if byte_in a 0xE0 0xE0 then Some (2, 0xA0, 0xBF)
      else if byte_in a 0xED 0xED then Some (2, 0x80, 0x9F)
      else if byte_in a 0xE1 0xEF then Some (2, 0x80, 0xBF)
      else if byte_in a 0xF0 0xF0 then Some (3, 0x90, 0xBF)
      else if byte_in a 0xF4 0xF4 then Some (3, 0x80, 0x8F)
      else if byte_in a 0xF1 0xF3 then Some (3, 0x80, 0xBF)
      else None)"

text \<open>The width of the valid encoding at the head of a string, 0 if there is none.\<close>

fun utf8_size :: "string \<Rightarrow> nat" where
  "utf8_size [] = 0"
| "utf8_size (a # s) =
     (case utf8_lead a of
        None \<Rightarrow> 0
      | Some (k, lo, hi) \<Rightarrow>
          if k \<le> length s \<and> (k = 0 \<or> byte_in (hd s) lo hi) \<and> list_all (\<lambda>b. byte_in b 0x80 0xBF) (take k s)
          then Suc k else 0)"

datatype jchar = JByte char | JEscFFFD

function json_string :: "string \<Rightarrow> jchar list" where
  "json_string [] = []"
| "json_string (c # cs) =
     (case utf8_size (c # cs) of
        0 \<Rightarrow> JEscFFFD # json_string cs
      | Suc n \<Rightarrow> map JByte (take (Suc n) (c # cs)) @ json_string (drop n cs))"
  by pat_completeness auto
termination
  by (relation "measure length") auto

function valid_utf8 :: "string \<Rightarrow> bool" where
  "valid_utf8 [] = True"
| "valid_utf8 (c # cs) = (case utf8_size (c # cs) of 0 \<Rightarrow> False | Suc n \<Rightarrow> valid_utf8 (drop n cs))"
  by pat_completeness auto
termination
  by (relation "measure length") auto

fun jchar_bytes :: "jchar \<Rightarrow> string" where
  "jchar_bytes (JByte c) = [c]"
| "jchar_bytes JEscFFFD = [CHR 0xEF, CHR 0xBF, CHR 0xBD]"

definition utf8_fix :: "string \<Rightarrow> string" where
  "utf8_fix s = concat (map jchar_bytes (json_string s))"

definition json_unstring :: "jchar list \<Rightarrow> string" where
  "json_unstring ts = utf8_fix (concat (map jchar_bytes ts))"

subsection \<open>Values and documents\<close>

datatype gval =
    GNil | GBool bool | GString string | GInt int | GFloat rat | GTime time
  | GNonFinite \<comment> \<open>a NaN or an infinity\<close>
  | GUnsupported \<comment> \<open>a channel, a function or another value without a JSON form\<close>
  | GList "gval list" | GMap "(string \<times> gval) list" | GStruct "(string \<times> gval) list"

datatype json =
    JNull | JBool bool | JNum rat | JStr "jchar list" | JTime time
  | JArr "json list" | JObj "(jchar list \<times> json) list"

text \<open>\<open>time.Time\<close> marshals only with a year from 0 to 9999.\<close>

definition json_time_ok :: "time \<Rightarrow> bool" where
  "json_time_ok t \<longleftrightarrow> - 366 * 86400 * 1000000000 \<le> t \<and> t < 3652059 * 86400 * 1000000000"

text \<open>Keep the last binding of every key, ordered by key.\<close>

definition norm_keys :: "(string \<times> 'a) list \<Rightarrow> (string \<times> 'a) list" where
  "norm_keys kvs = map (\<lambda>k. (k, the (map_of (rev kvs) k))) (sort (remdups (map fst kvs)))"

fun opt_all :: "'a option list \<Rightarrow> 'a list option" where
  "opt_all [] = Some []"
| "opt_all (None # xs) = None"
| "opt_all (Some x # xs) = map_option (Cons x) (opt_all xs)"

fun json_marshal :: "gval \<Rightarrow> json option" where
  "json_marshal GNil = Some JNull"
| "json_marshal (GBool b) = Some (JBool b)"
| "json_marshal (GString s) = Some (JStr (json_string s))"
| "json_marshal (GInt i) = Some (JNum (of_int i))"
| "json_marshal (GFloat r) = Some (JNum r)"
| "json_marshal (GTime t) = (if json_time_ok t then Some (JTime t) else None)"
| "json_marshal GNonFinite = None"
| "json_marshal GUnsupported = None"
| "json_marshal (GList vs) = map_option JArr (opt_all (map json_marshal vs))"
| "json_marshal (GMap kvs) =
     map_option (\<lambda>js. JObj (map (\<lambda>(k, j). (json_string k, j)) (sort_key fst (zip (map fst kvs) js))))
       (opt_all (map (\<lambda>kv. json_marshal (snd kv)) kvs))"
| "json_marshal (GStruct kvs) =
     map_option (\<lambda>js. JObj (zip (map (\<lambda>kv. json_string (fst kv)) kvs) js))
       (opt_all (map (\<lambda>kv. json_marshal (snd kv)) kvs))"

text \<open>Decoding into \<open>any\<close>.\<close>

fun json_decode :: "json \<Rightarrow> gval option" where
  "json_decode JNull = Some GNil"
| "json_decode (JBool b) = Some (GBool b)"
| "json_decode (JNum r) = map_option GFloat (f64_round r)"
| "json_decode (JStr s) = Some (GString (json_unstring s))"
| "json_decode (JTime t) = (if json_time_ok t then Some (GTime t) else None)"
| "json_decode (JArr js) = map_option GList (opt_all (map json_decode js))"
| "json_decode (JObj kjs) =
     map_option (\<lambda>vs. GMap (norm_keys (zip (map (\<lambda>kj. json_unstring (fst kj)) kjs) vs)))
       (opt_all (map (\<lambda>kj. json_decode (snd kj)) kjs))"

text \<open>The value a reader gets back for a written one.\<close>

definition json_reload :: "gval \<Rightarrow> gval option" where
  "json_reload v = Option.bind (json_marshal v) json_decode"

subsection \<open>Strings survive decoding\<close>

lemma utf8_size_le: "utf8_size s \<le> length s"
  by (cases s) (auto split: option.splits)

lemma utf8_size_local:
  assumes "utf8_size s = Suc n"
  shows "utf8_size (take (Suc n) s @ r) = Suc n"
  using assms
  by (cases s) (auto simp: hd_append take_Cons' hd_conv_nth nth_append split: option.splits if_splits)

lemma valid_json_string: "valid_utf8 s \<Longrightarrow> json_string s = map JByte s"
proof (induction s rule: valid_utf8.induct)
  case (2 c cs)
  then obtain n where n: "utf8_size (c # cs) = Suc n" "valid_utf8 (drop n cs)"
    by (auto split: nat.splits)
  from 2(1)[OF n] n have "json_string (c # cs) = map JByte (take (Suc n) (c # cs)) @ map JByte (drop n cs)"
    by simp
  also have "\<dots> = map JByte (c # cs)" by (simp flip: map_append)
  finally show ?case .
qed simp

lemma fix_valid: "valid_utf8 s \<Longrightarrow> utf8_fix s = s"
  by (simp add: utf8_fix_def valid_json_string comp_def)

lemma valid_append_rune:
  assumes "utf8_size p = Suc n" "length p = Suc n"
  shows "valid_utf8 (p @ r) = valid_utf8 r"
proof -
  obtain c cs where p: "p = c # cs" using assms by (cases p) auto
  have "utf8_size (p @ r) = Suc n" using utf8_size_local[OF assms(1), of r] assms(2) by simp
  then show ?thesis using assms(2) by (simp add: p del: utf8_size.simps)
qed

lemma valid_fix: "valid_utf8 (utf8_fix s)"
proof (induction s rule: json_string.induct)
  case (2 c cs)
  show ?case
  proof (cases "utf8_size (c # cs)")
    case 0
    have "utf8_size [CHR 0xEF, CHR 0xBF, CHR 0xBD] = Suc 2" by (simp add: byte_in_def utf8_lead_def)
    then have "valid_utf8 ([CHR 0xEF, CHR 0xBF, CHR 0xBD] @ utf8_fix cs) = valid_utf8 (utf8_fix cs)"
      by (rule valid_append_rune) simp
    moreover have "utf8_fix (c # cs) = [CHR 0xEF, CHR 0xBF, CHR 0xBD] @ utf8_fix cs"
      using 0 by (simp add: utf8_fix_def del: utf8_size.simps)
    ultimately show ?thesis using 2(1)[OF 0] by simp
  next
    case (Suc n)
    have len: "length (take (Suc n) (c # cs)) = Suc n" using utf8_size_le[of "c # cs"] Suc by simp
    have "utf8_size (take (Suc n) (c # cs)) = Suc n" using utf8_size_local[OF Suc, of "[]"] by simp
    then have "valid_utf8 (take (Suc n) (c # cs) @ utf8_fix (drop n cs)) = valid_utf8 (utf8_fix (drop n cs))"
      using len by (rule valid_append_rune)
    moreover have "utf8_fix (c # cs) = take (Suc n) (c # cs) @ utf8_fix (drop n cs)"
      using Suc by (simp add: utf8_fix_def comp_def del: utf8_size.simps)
    ultimately show ?thesis using 2(2)[OF Suc] by simp
  qed
qed (simp add: utf8_fix_def)

lemma concat_jchar_JByte [simp]: "concat (map (jchar_bytes \<circ> JByte) s) = s"
  by (induction s) auto

lemma unstring_string: "json_unstring (json_string s) = utf8_fix s"
  using fix_valid[OF valid_fix[of s]] by (simp add: json_unstring_def flip: utf8_fix_def)

lemma unstring_valid [simp]: "valid_utf8 (json_unstring ts)"
  by (simp add: json_unstring_def valid_fix)

lemma unstring_string_valid: "valid_utf8 s \<Longrightarrow> json_unstring (json_string s) = s"
  by (simp add: unstring_string fix_valid)

subsection \<open>Decoded values are fixed points of writing and reading\<close>

lemma opt_all_Some: "opt_all xs = Some ys \<longleftrightarrow> xs = map Some ys"
proof (induction xs arbitrary: ys rule: opt_all.induct)
  case (3 x xs)
  then show ?case by (cases ys) auto
qed auto

lemma keys_norm_keys [simp]: "map fst (norm_keys kvs) = sort (remdups (map fst kvs))"
  by (simp add: norm_keys_def comp_def)

lemma set_norm_keys: "set (norm_keys kvs) \<subseteq> set kvs"
proof
  fix x assume "x \<in> set (norm_keys kvs)"
  then obtain k where k: "x = (k, the (map_of (rev kvs) k))" "k \<in> fst ` set (rev kvs)"
    by (auto simp: norm_keys_def)
  then obtain v where "map_of (rev kvs) k = Some v" by (metis map_of_eq_None_iff not_None_eq)
  with k show "x \<in> set kvs" by (metis map_of_SomeD option.sel set_rev)
qed

lemma norm_keys_id:
  assumes "sorted (map fst kvs)" "distinct (map fst kvs)"
  shows "norm_keys kvs = kvs"
proof -
  have "map_of (rev kvs) k = Some v" if "(k, v) \<in> set kvs" for k v
    using assms(2) that by (simp add: rev_map[symmetric])
  then have "map (\<lambda>k. (k, the (map_of (rev kvs) k))) (map fst kvs) = kvs"
    by (auto simp: comp_def intro!: map_idI)
  then show ?thesis using assms by (simp add: norm_keys_def sorted_sort_id distinct_remdups_id)
qed

fun native :: "gval \<Rightarrow> bool" where
  "native GNil = True"
| "native (GBool b) = True"
| "native (GString s) = valid_utf8 s"
| "native (GInt i) = False"
| "native (GFloat r) = (f64_round r = Some r)"
| "native (GTime t) = json_time_ok t"
| "native GNonFinite = False"
| "native GUnsupported = False"
| "native (GList vs) = list_all native vs"
| "native (GMap kvs) = (sorted (map fst kvs) \<and> distinct (map fst kvs) \<and>
     list_all (\<lambda>kv. valid_utf8 (fst kv)) kvs \<and> list_all (\<lambda>kv. native (snd kv)) kvs)"
| "native (GStruct kvs) = False"

lemma decode_native: "json_decode j = Some v \<Longrightarrow> native v"
proof (induction j arbitrary: v rule: json_decode.induct)
  case (6 js)
  then obtain vs where vs: "v = GList vs" "map json_decode js = map Some vs" by (auto simp: opt_all_Some)
  have "native w" if "w \<in> set vs" for w
  proof -
    from that have "Some w \<in> json_decode ` set js" using vs(2) by (metis imageI set_map)
    then show ?thesis using "6.IH" by auto
  qed
  then show ?case by (simp add: vs(1) list_all_iff)
next
  case (7 kjs)
  then obtain vs where vs: "v = GMap (norm_keys (zip (map (\<lambda>kj. json_unstring (fst kj)) kjs) vs))"
    "map (\<lambda>kj. json_decode (snd kj)) kjs = map Some vs"
    by (auto simp: opt_all_Some)
  have nat: "native w" if "w \<in> set vs" for w
  proof -
    from that have "Some w \<in> (\<lambda>kj. json_decode (snd kj)) ` set kjs" using vs(2) by (metis imageI set_map)
    then show ?thesis using "7.IH" by auto
  qed
  have "valid_utf8 k \<and> native w" if "(k, w) \<in> set (norm_keys (zip (map (\<lambda>kj. json_unstring (fst kj)) kjs) vs))" for k w
    using set_zip_leftD[OF subsetD[OF set_norm_keys that]] set_zip_rightD[OF subsetD[OF set_norm_keys that]] nat
    by auto
  then show ?case by (auto simp: vs(1) list_all_iff)
qed (auto simp: f64_round_idem split: if_splits)

lemma native_marshal: "native v \<Longrightarrow> \<exists>j. json_marshal v = Some j \<and> json_decode j = Some v"
proof (induction v rule: json_marshal.induct)
  case (3 s)
  then show ?case by (simp add: unstring_string_valid)
next
  case (9 vs)
  then have "\<forall>v\<in>set vs. \<exists>j. json_marshal v = Some j \<and> json_decode j = Some v" by (auto simp: list_all_iff)
  then obtain f where f: "\<forall>v\<in>set vs. json_marshal v = Some (f v) \<and> json_decode (f v) = Some v" by metis
  then have "opt_all (map json_marshal vs) = Some (map f vs)" "opt_all (map json_decode (map f vs)) = Some vs"
    by (simp_all add: opt_all_Some)
  then show ?case by simp
next
  case (10 kvs)
  then have "\<forall>kv\<in>set kvs. \<exists>j. json_marshal (snd kv) = Some j \<and> json_decode j = Some (snd kv)"
    by (auto simp: list_all_iff)
  then obtain f where f: "\<forall>kv\<in>set kvs. json_marshal (snd kv) = Some (f kv) \<and> json_decode (f kv) = Some (snd kv)"
    by metis
  define kjs where "kjs = map (\<lambda>kv. (json_string (fst kv), f kv)) kvs"
  have m: "opt_all (map (\<lambda>kv. json_marshal (snd kv)) kvs) = Some (map f kvs)"
    using f by (simp add: opt_all_Some)
  have "sort_key fst (zip (map fst kvs) (map f kvs)) = map (\<lambda>kv. (fst kv, f kv)) kvs"
    using 10(2) by (subst zip_map_map, simp add: zip_same_conv_map comp_def sort_key_id_if_sorted)
  then have marshal: "json_marshal (GMap kvs) = Some (JObj kjs)"
    using m by (simp add: kjs_def comp_def)
  have d: "opt_all (map (\<lambda>kj. json_decode (snd kj)) kjs) = Some (map snd kvs)"
    using f by (simp add: kjs_def opt_all_Some)
  have keys: "map (\<lambda>kj. json_unstring (fst kj)) kjs = map fst kvs"
    using 10(2) by (simp add: kjs_def list_all_iff unstring_string_valid)
  have "json_decode (JObj kjs) = Some (GMap (norm_keys (zip (map fst kvs) (map snd kvs))))"
    by (simp only: json_decode.simps keys d option.map)
  also have "\<dots> = Some (GMap kvs)" using 10(2) by (simp add: zip_map_fst_snd norm_keys_id)
  finally show ?case using marshal by blast
qed auto

lemma reload_native: "json_reload v = Some w \<Longrightarrow> native w"
  by (auto simp: json_reload_def bind_eq_Some_conv intro: decode_native)

lemma reload_fixed: "native w \<Longrightarrow> json_reload w = Some w"
  using native_marshal[of w] by (auto simp: json_reload_def)

lemma reload_idem: "json_reload v = Some w \<Longrightarrow> json_reload w = Some w"
  using reload_native reload_fixed by blast

end
