(* ===== verification/Triples.thy ===== *)
theory Triples
  imports Go_Json Entity_Id "HOL-Library.Sublist"
begin

text \<open>
  Semantic statements (\<open>message/triple.go\<close>) and their identity on the append lane
  (\<open>message/triple_identity.go\<close>): the length-prefixed six-field key, the canonical key of an
  object, and duplicate suppression against stored triples and within a request.  The text of
  JSON documents and the \<open>%#v\<close> rendering of Go values enter as the parameter \<open>go_text\<close>.
\<close>

record Triple =
  tr_Subject :: string
  tr_Predicate :: string
  tr_Object :: gval
  tr_Source :: string
  tr_Timestamp :: time
  tr_Confidence :: rat
  tr_Context :: string
  tr_Datatype :: string
  tr_ExpiresAt :: "time option"

definition EntityReferenceDatatype :: string where
  "EntityReferenceDatatype = ''@id''"

definition IsRelationship :: "Triple \<Rightarrow> bool" where
  "IsRelationship t =
     (case tr_Object t of
        GString object \<Rightarrow>
          if tr_Datatype t = [] \<or> tr_Datatype t = EntityReferenceDatatype then IsValidEntityID object else False
      | _ \<Rightarrow> False)"

definition IsExpired :: "time \<Rightarrow> Triple \<Rightarrow> bool" where
  "IsExpired now t = (case tr_ExpiresAt t of None \<Rightarrow> False | Some expires \<Rightarrow> expires < now)"

subsection \<open>The append-lane key\<close>

record go_text =
  gt_json :: "json \<Rightarrow> string"
  gt_syntax :: "gval \<Rightarrow> string"

fun roundTripIsIdentity :: "gval \<Rightarrow> bool" where
  "roundTripIsIdentity GNil = True"
| "roundTripIsIdentity (GBool b) = True"
| "roundTripIsIdentity (GString s) = True"
| "roundTripIsIdentity _ = False"

definition canonicalObjectKey :: "go_text \<Rightarrow> gval \<Rightarrow> string" where
  "canonicalObjectKey T object =
     (case json_marshal object of
        None \<Rightarrow> ''!'' @ gt_syntax T object
      | Some encoded \<Rightarrow>
          if roundTripIsIdentity object then gt_json T encoded
          else case json_decode encoded of
            None \<Rightarrow> gt_json T encoded
          | Some normalized \<Rightarrow>
              (case json_marshal normalized of
                 None \<Rightarrow> gt_json T encoded
               | Some renormalized \<Rightarrow> gt_json T renormalized))"

definition writeIdentityField :: "string \<Rightarrow> string \<Rightarrow> string" where
  "writeIdentityField b field = b @ itoa (length field) @ [CHR 0x00] @ field"

definition AppendIdentityKey :: "go_text \<Rightarrow> Triple \<Rightarrow> string" where
  "AppendIdentityKey T t =
     (let b = [];
          b = writeIdentityField b (tr_Subject t);
          b = writeIdentityField b (tr_Predicate t);
          b = writeIdentityField b (tr_Datatype t);
          b = writeIdentityField b (tr_Source t);
          b = writeIdentityField b (tr_Context t);
          b = writeIdentityField b (canonicalObjectKey T (tr_Object t))
      in b)"

definition SameAppendTuple :: "go_text \<Rightarrow> Triple \<Rightarrow> Triple \<Rightarrow> bool" where
  "SameAppendTuple T left right \<longleftrightarrow> AppendIdentityKey T left = AppendIdentityKey T right"

fun dedupeLoop :: "go_text \<Rightarrow> string list \<Rightarrow> Triple list \<Rightarrow> Triple list" where
  "dedupeLoop T seen [] = []"
| "dedupeLoop T seen (t # ts) =
     (let key = AppendIdentityKey T t in
      if List.member seen key then dedupeLoop T seen ts else t # dedupeLoop T (key # seen) ts)"

definition DedupeAppendTriples :: "go_text \<Rightarrow> Triple list \<Rightarrow> Triple list \<Rightarrow> Triple list \<times> int" where
  "DedupeAppendTriples T stored incoming =
     (if incoming = [] then ([], 0)
      else let survivors = dedupeLoop T (map (AppendIdentityKey T) stored) incoming
           in (survivors, int (length incoming) - int (length survivors)))"

subsection \<open>The key is injective in its six fields\<close>

lemma append_nul_inj:
  "CHR 0x00 \<notin> set a \<Longrightarrow> CHR 0x00 \<notin> set b \<Longrightarrow> a @ CHR 0x00 # r = b @ CHR 0x00 # s \<longleftrightarrow> a = b \<and> r = s"
proof (induction a arbitrary: b)
  case Nil
  then show ?case by (cases b) auto
next
  case (Cons x a)
  then show ?case by (cases b) auto
qed

lemma identity_field_inj:
  "itoa (length f) @ CHR 0x00 # f @ r = itoa (length g) @ CHR 0x00 # g @ s \<longleftrightarrow> f = g \<and> r = s"
  using itoa_inj[of "length f" "length g"] by (auto simp: append_nul_inj itoa_no_nul)

lemma AppendIdentityKey_eq:
  "AppendIdentityKey T a = AppendIdentityKey T b \<longleftrightarrow>
     tr_Subject a = tr_Subject b \<and> tr_Predicate a = tr_Predicate b \<and> tr_Datatype a = tr_Datatype b \<and>
     tr_Source a = tr_Source b \<and> tr_Context a = tr_Context b \<and>
     canonicalObjectKey T (tr_Object a) = canonicalObjectKey T (tr_Object b)"
  using identity_field_inj[of "canonicalObjectKey T (tr_Object a)" "[]" "canonicalObjectKey T (tr_Object b)" "[]"]
  by (simp add: AppendIdentityKey_def writeIdentityField_def Let_def identity_field_inj)

text \<open>C8. The length-prefixed key identifies exactly its six fields, whatever bytes they hold: two triples
  are the same assertion on the append lane if and only if subject, predicate, datatype, source and
  context are equal and the objects have the same canonical key.  Timestamp, confidence and
  expiry never matter.\<close>

theorem append_identity_key_injective:
  "SameAppendTuple T a b \<longleftrightarrow>
     (tr_Subject a, tr_Predicate a, tr_Datatype a, tr_Source a, tr_Context a, canonicalObjectKey T (tr_Object a)) =
     (tr_Subject b, tr_Predicate b, tr_Datatype b, tr_Source b, tr_Context b, canonicalObjectKey T (tr_Object b))"
  by (simp add: SameAppendTuple_def AppendIdentityKey_eq)

subsection \<open>The object key survives persistence\<close>

definition utf8_object :: "gval \<Rightarrow> bool" where
  "utf8_object v = (case v of GString s \<Rightarrow> valid_utf8 s | _ \<Rightarrow> True)"

lemma canonical_native:
  assumes "native w" "json_marshal w = Some j"
  shows "canonicalObjectKey T w = gt_json T j"
  using native_marshal[OF assms(1)] assms(2) by (auto simp: canonicalObjectKey_def)

lemma canonical_reload:
  assumes "json_reload v = Some w" "utf8_object v"
  shows "canonicalObjectKey T w = canonicalObjectKey T v"
proof -
  from assms(1) obtain j where j: "json_marshal v = Some j" "json_decode j = Some w"
    by (auto simp: json_reload_def bind_eq_Some_conv)
  have n: "native w" using decode_native[OF j(2)] .
  obtain j' where j': "json_marshal w = Some j'" "json_decode j' = Some w" using native_marshal[OF n] by blast
  show ?thesis
  proof (cases "roundTripIsIdentity v")
    case False
    then show ?thesis using j j' canonical_native[OF n j'(1)] by (simp add: canonicalObjectKey_def)
  next
    case True
    then have "w = v" using assms j by (cases v) (auto simp: utf8_object_def unstring_string_valid)
    then show ?thesis by simp
  qed
qed

text \<open>C10. The canonical key of an object is stable under persistence: a value that can be written to and
  read back from a stored state has the same key before and after, integers beyond the exact
  range of \<open>float64\<close>, structs and unordered maps included.  The one exception is a bare string that is
  not valid UTF-8.\<close>

theorem canonical_object_key_persistent:
  assumes "json_reload v = Some w" "\<forall>s. v = GString s \<longrightarrow> valid_utf8 s"
  shows "canonicalObjectKey T w = canonicalObjectKey T v"
proof -
  have "utf8_object v" using assms(2) by (cases v) (auto simp: utf8_object_def)
  then show ?thesis using canonical_reload[OF assms(1)] by blast
qed

text \<open>A rendering of documents to apply the results at concrete inputs: the text of \<open>encoding/json\<close> for
  null, booleans, natural numbers, strings of printable bytes, arrays and objects.\<close>

fun sample_jchar :: "jchar \<Rightarrow> string" where
  "sample_jchar (JByte c) = [c]"
| "sample_jchar JEscFFFD = CHR 0x5C # ''ufffd''"

definition sample_jstring :: "jchar list \<Rightarrow> string" where
  "sample_jstring ts = CHR 0x22 # concat (map sample_jchar ts) @ [CHR 0x22]"

fun sample_json :: "json \<Rightarrow> string" where
  "sample_json JNull = ''null''"
| "sample_json (JBool b) = (if b then ''true'' else ''false'')"
| "sample_json (JNum r) = itoa (nat \<lfloor>r\<rfloor>)"
| "sample_json (JStr ts) = sample_jstring ts"
| "sample_json (JTime t) = itoa (nat t)"
| "sample_json (JArr js) = ''['' @ go_join (CHR '','') (map sample_json js) @ '']''"
| "sample_json (JObj kjs) =
     ''{'' @ go_join (CHR '','') (map (\<lambda>kj. sample_jstring (fst kj) @ '':'' @ sample_json (snd kj)) kjs) @ ''}''"

definition sample_text :: go_text where
  "sample_text = \<lparr>gt_json = sample_json, gt_syntax = (\<lambda>v. ''value'')\<rparr>"

definition wit_object :: gval where
  "wit_object = GStruct [(''zebra'', GBool True), (''alpha'', GString ''x'')]"

theorem canonical_object_key_persistent_witness:
  "json_reload wit_object = Some (GMap [(''alpha'', GString ''x''), (''zebra'', GBool True)]) \<and>
   canonicalObjectKey sample_text (GMap [(''alpha'', GString ''x''), (''zebra'', GBool True)]) =
   canonicalObjectKey sample_text wit_object"
proof -
  have r: "json_reload wit_object = Some (GMap [(''alpha'', GString ''x''), (''zebra'', GBool True)])"
    by code_simp
  then show ?thesis using canonical_object_key_persistent[OF r] by (simp add: wit_object_def)
qed

text \<open>The exception is real: the one-byte string \<open>0xFF\<close> is keyed by an escape, and the string a reader
  gets back for it by three plain bytes.\<close>

lemma invalid_utf8_object_key_drifts:
  "json_reload (GString [CHR 0xFF]) = Some (GString [CHR 0xEF, CHR 0xBF, CHR 0xBD]) \<and>
   canonicalObjectKey sample_text (GString [CHR 0xFF]) \<noteq>
   canonicalObjectKey sample_text (GString [CHR 0xEF, CHR 0xBF, CHR 0xBD])"
  by code_simp

subsection \<open>Duplicate suppression\<close>

abbreviation identity_keys :: "go_text \<Rightarrow> Triple list \<Rightarrow> string set" where
  "identity_keys T ts \<equiv> AppendIdentityKey T ` set ts"

lemma dedupeLoop_keys:
  "identity_keys T (dedupeLoop T seen ts) = identity_keys T ts - set seen \<and>
   distinct (map (AppendIdentityKey T) (dedupeLoop T seen ts)) \<and>
   subseq (dedupeLoop T seen ts) ts"
  by (induction T seen ts rule: dedupeLoop.induct) (auto simp: Let_def)

lemma dedupeLoop_all_seen: "identity_keys T ts \<subseteq> set seen \<Longrightarrow> dedupeLoop T seen ts = []"
  by (induction ts) auto

lemma dedupeLoop_fresh:
  "distinct (map (AppendIdentityKey T) ts) \<Longrightarrow> identity_keys T ts \<inter> set seen = {} \<Longrightarrow> dedupeLoop T seen ts = ts"
  by (induction T seen ts rule: dedupeLoop.induct) (auto simp: Let_def)

lemma Dedupe_fst: "fst (DedupeAppendTriples T stored incoming) = dedupeLoop T (map (AppendIdentityKey T) stored) incoming"
  by (simp add: DedupeAppendTriples_def Let_def)

lemma Dedupe_snd:
  "snd (DedupeAppendTriples T stored incoming) =
     int (length incoming) - int (length (fst (DedupeAppendTriples T stored incoming)))"
  by (simp add: DedupeAppendTriples_def Let_def)

lemmas Dedupe_sel = Dedupe_fst Dedupe_snd

lemma Dedupe_all_known:
  "identity_keys T incoming \<subseteq> identity_keys T stored \<Longrightarrow> DedupeAppendTriples T stored incoming = ([], int (length incoming))"
  by (simp add: DedupeAppendTriples_def Let_def dedupeLoop_all_seen)

text \<open>C11. Duplicate suppression keeps exactly one triple of every assertion that is not stored yet: the
  survivors are a subsequence of the request, have pairwise different keys none of which is stored,
  and cover every new key; the suppressed count is the rest of the request; and the survivors of a
  request with pairwise different new keys are the whole request.\<close>

theorem dedupe_append_exact:
  "(case DedupeAppendTriples T stored incoming of (survivors, suppressed) \<Rightarrow>
      subseq survivors incoming \<and>
      distinct (map (AppendIdentityKey T) survivors) \<and>
      identity_keys T survivors = identity_keys T incoming - identity_keys T stored \<and>
      suppressed = int (length incoming) - int (length survivors) \<and>
      (survivors = incoming \<longleftrightarrow>
         distinct (map (AppendIdentityKey T) incoming) \<and> identity_keys T incoming \<inter> identity_keys T stored = {}))"
proof -
  let ?seen = "map (AppendIdentityKey T) stored"
  have k: "identity_keys T (dedupeLoop T ?seen incoming) = identity_keys T incoming - set ?seen"
    "distinct (map (AppendIdentityKey T) (dedupeLoop T ?seen incoming))"
    "subseq (dedupeLoop T ?seen incoming) incoming"
    using dedupeLoop_keys[of T ?seen incoming] by blast+
  have "dedupeLoop T ?seen incoming = incoming \<longleftrightarrow>
      distinct (map (AppendIdentityKey T) incoming) \<and> identity_keys T incoming \<inter> identity_keys T stored = {}"
  proof
    assume eq: "dedupeLoop T ?seen incoming = incoming"
    then have "identity_keys T incoming = identity_keys T incoming - set ?seen" using k(1) by simp
    then show "distinct (map (AppendIdentityKey T) incoming) \<and> identity_keys T incoming \<inter> identity_keys T stored = {}"
      using k(2) eq unfolding set_map by (metis Diff_disjoint inf_commute)
  qed (simp add: dedupeLoop_fresh del: distinct_map)
  with k show ?thesis by (auto simp: split_beta Dedupe_sel simp del: distinct_map)
qed

end
