(* ===== verification/Go_Errors.thy ===== *)
theory Go_Errors
  imports Entity_Id
begin

text \<open>
  Go errors and their classification (\<open>pkg/errs/errs.go\<close>, \<open>shutdown.go\<close>).  An error is a chain: a
  package-level sentinel, a text, or a wrapper around one or two causes.  \<open>chain\<close> is the sequence
  \<open>errors.Is\<close> and \<open>errors.As\<close> walk, \<open>Error\<close> the text of an error, and the classification functions
  follow the source, substring patterns included.  The lemmas show that wrapping adds a handling
  class without losing the machine-readable contract.
\<close>

subsection \<open>Errors\<close>

datatype ErrorClass = ErrorTransient | ErrorInvalid | ErrorFatal

record error_meta =
  em_Class :: ErrorClass
  em_Message :: string
  em_Component :: string
  em_Operation :: string
  em_Code :: string
  em_Detail :: "(string \<times> detail_value) list"

datatype StateResetReason =
    GraphStateReasonUnreadableEntity
  | GraphStateReasonNoncanonicalPredicate
  | GraphStateReasonNoncanonicalEntityID

text \<open>The fields of a \<open>projection.MutationError\<close> beside its cause.\<close>

record mutation_meta =
  mm_Operation :: string
  mm_Kind :: string
  mm_Code :: string
  mm_Class :: ErrorClass
  mm_Commit :: string
  mm_Detail :: "(string \<times> detail_value) list"

datatype go_error =
    Sentinel string \<comment> \<open>a package-level error value, named by its text\<close>
  | ErrText string \<comment> \<open>an error without a cause made where it is returned\<close>
  | ErrWrap string go_error string \<comment> \<open>\<open>fmt.Errorf\<close> with \<open>%w\<close>: text before and after the cause\<close>
  | ErrClassified error_meta "go_error option"
  | ErrNonRetryable go_error
  | ErrStateContract StateResetReason string "go_error option"
  | ErrEntityField string int go_error
  | ErrPredicates "(string \<times> string) list"
  | ErrPredicate string string int
  | ErrShutdown string string go_error
  | ErrWrap2 string go_error string go_error string \<comment> \<open>\<open>fmt.Errorf\<close> with two \<open>%w\<close>\<close>
  | ErrTransport string string go_error \<comment> \<open>operation and outcome of a \<open>graphmutation.TransportError\<close>\<close>
  | ErrMutation mutation_meta go_error

fun chain :: "go_error \<Rightarrow> go_error list" where
  "chain (ErrWrap a e b) = ErrWrap a e b # chain e"
| "chain (ErrClassified m None) = [ErrClassified m None]"
| "chain (ErrClassified m (Some e)) = ErrClassified m (Some e) # chain e"
| "chain (ErrNonRetryable e) = ErrNonRetryable e # chain e"
| "chain (ErrStateContract r i None) = [ErrStateContract r i None]"
| "chain (ErrStateContract r i (Some e)) = ErrStateContract r i (Some e) # chain e"
| "chain (ErrEntityField f i e) = ErrEntityField f i e # chain e"
| "chain (ErrShutdown ow p e) = ErrShutdown ow p e # chain e"
| "chain (ErrWrap2 a e b f c) = ErrWrap2 a e b f c # chain e @ chain f"
| "chain (ErrTransport op oc e) = ErrTransport op oc e # chain e"
| "chain (ErrMutation m e) = ErrMutation m e # chain e"
| "chain e = [e]"

fun reset_reason_string :: "StateResetReason \<Rightarrow> string" where
  "reset_reason_string GraphStateReasonUnreadableEntity = ''unreadable_entity_state''"
| "reset_reason_string GraphStateReasonNoncanonicalPredicate = ''noncanonical_predicate''"
| "reset_reason_string GraphStateReasonNoncanonicalEntityID = ''noncanonical_entity_id''"

definition int_text :: "int \<Rightarrow> string" where
  "int_text i = (if i < 0 then ''-'' @ itoa (nat (- i)) else itoa (nat i))"

definition quoted :: "string \<Rightarrow> string" where
  "quoted s = CHR 0x22 # s @ [CHR 0x22]"

fun string_join :: "string \<Rightarrow> string list \<Rightarrow> string" where
  "string_join sep [] = []"
| "string_join sep [x] = x"
| "string_join sep (x # y # zs) = x @ sep @ string_join sep (y # zs)"

text \<open>The text of an error; quoting of arguments is plain.\<close>

fun Error :: "go_error \<Rightarrow> string" where
  "Error (Sentinel t) = t"
| "Error (ErrText t) = t"
| "Error (ErrWrap a e b) = a @ Error e @ b"
| "Error (ErrClassified m c) =
     (if em_Message m \<noteq> [] then em_Message m
      else case c of
        Some e \<Rightarrow> Error e
      | None \<Rightarrow> if em_Code m \<noteq> [] then em_Code m else ''classified error'')"
| "Error (ErrNonRetryable e) = ''non-retryable: '' @ Error e"
| "Error (ErrStateContract r i c) =
     ''graph_state_reset_required: '' @ reset_reason_string r @
     (if i \<noteq> [] then '': entity '' @ i else []) @
     (case c of Some e \<Rightarrow> '': '' @ Error e | None \<Rightarrow> [])"
| "Error (ErrEntityField f i e) =
     (if i < 0 then ''entity state contract violation: '' @ f
      else ''entity state contract violation: triple['' @ int_text i @ ''] '' @ f)"
| "Error (ErrPredicates vs) =
     (if vs = [] then ''entity predicate contract violation''
      else ''entity predicate contract violation: '' @
        string_join '', '' (map (\<lambda>(p, r). quoted p @ '' ('' @ r @ '')'') vs))"
| "Error (ErrPredicate p r i) =
     (if i \<ge> 0 then ''predicate '' @ quoted p @ '' is invalid: '' @ r @ '' at segment '' @ int_text (i + 1)
      else ''predicate '' @ quoted p @ '' is invalid: '' @ r)"
| "Error (ErrShutdown owner phase e) = ''shutdown '' @ owner @ '' at '' @ phase @ '': '' @ Error e"
| "Error (ErrWrap2 a e b f c) = a @ Error e @ b @ Error f @ c"
| "Error (ErrTransport op oc e) = ''graph mutation '' @ op @ '' transport failed ('' @ oc @ ''): '' @ Error e"
| "Error (ErrMutation m e) =
     ''projection mutation '' @ mm_Operation m @ '' failed ('' @ mm_Kind m @ '', '' @ mm_Commit m @ ''): '' @ Error e"

fun as_classified :: "go_error \<Rightarrow> (error_meta \<times> go_error option) option" where
  "as_classified (ErrClassified m c) = Some (m, c)"
| "as_classified _ = None"

text \<open>\<open>errors.As(err, &ce)\<close> for \<open>*ClassifiedError\<close>: the first one of the chain.\<close>

fun first_some :: "('a \<Rightarrow> 'b option) \<Rightarrow> 'a list \<Rightarrow> 'b option" where
  "first_some f [] = None"
| "first_some f (x # xs) = (case f x of Some y \<Rightarrow> Some y | None \<Rightarrow> first_some f xs)"

definition errors_as_classified :: "go_error \<Rightarrow> (error_meta \<times> go_error option) option" where
  "errors_as_classified err = first_some as_classified (chain err)"

text \<open>\<open>(*ClassifiedError).Is\<close>.\<close>

definition ClassifiedError_Is :: "error_meta \<Rightarrow> go_error \<Rightarrow> bool" where
  "ClassifiedError_Is ce target =
     (case errors_as_classified target of
        None \<Rightarrow> False
      | Some (t, cause) \<Rightarrow> em_Code t \<noteq> [] \<and> cause = None \<and> em_Code ce = em_Code t)"

fun same_sentinel :: "go_error \<Rightarrow> go_error \<Rightarrow> bool" where
  "same_sentinel (Sentinel a) (Sentinel b) = (a = b)"
| "same_sentinel _ _ = False"

definition errors_is :: "go_error \<Rightarrow> go_error \<Rightarrow> bool" where
  "errors_is err target =
     list_ex (\<lambda>e. same_sentinel e target \<or>
       (case as_classified e of Some (m, c) \<Rightarrow> ClassifiedError_Is m target | None \<Rightarrow> False)) (chain err)"

subsection \<open>Classification\<close>

definition to_lower :: "char \<Rightarrow> char" where
  "to_lower c = (if CHR ''A'' \<le> c \<and> c \<le> CHR ''Z'' then char_of (of_char c + (32 :: nat)) else c)"

fun contains :: "string \<Rightarrow> string \<Rightarrow> bool" where
  "contains [] sub = (sub = [])"
| "contains (c # cs) sub = (has_prefix (c # cs) sub \<or> contains cs sub)"

definition IsTransient :: "go_error option \<Rightarrow> bool" where
  "IsTransient oerr =
     (case oerr of
        None \<Rightarrow> False
      | Some err \<Rightarrow>
          (case errors_as_classified err of
             Some (ce, _) \<Rightarrow> em_Class ce = ErrorTransient
           | None \<Rightarrow>
               if list_ex (\<lambda>t. errors_is err (Sentinel t))
                    [''connection timeout'', ''connection lost'', ''storage unavailable'', ''rate limited'',
                     ''circuit breaker open'', ''context deadline exceeded'', ''context canceled''] then True
               else list_ex (contains (map to_lower (Error err)))
                    [''timeout'', ''connection'', ''network'', ''temporary'', ''unavailable'', ''busy'', ''retry'']))"

definition IsFatal :: "go_error option \<Rightarrow> bool" where
  "IsFatal oerr =
     (case oerr of
        None \<Rightarrow> False
      | Some err \<Rightarrow>
          (case errors_as_classified err of
             Some (ce, _) \<Rightarrow> em_Class ce = ErrorFatal
           | None \<Rightarrow>
               if list_ex (\<lambda>t. errors_is err (Sentinel t))
                    [''invalid configuration'', ''missing required configuration'', ''data corrupted'',
                     ''storage full'', ''resource exhausted'', ''quota exceeded''] then True
               else list_ex (contains (map to_lower (Error err)))
                    [''fatal'', ''panic'', ''corrupted'', ''invalid config'', ''missing config'',
                     ''out of memory'', ''disk full'']))"

definition IsInvalid :: "go_error option \<Rightarrow> bool" where
  "IsInvalid oerr =
     (case oerr of
        None \<Rightarrow> False
      | Some err \<Rightarrow>
          (case errors_as_classified err of
             Some (ce, _) \<Rightarrow> em_Class ce = ErrorInvalid
           | None \<Rightarrow> list_ex (\<lambda>t. errors_is err (Sentinel t))
               [''invalid data format'', ''parsing failed'', ''checksum validation failed'']))"

definition Classify :: "go_error option \<Rightarrow> ErrorClass" where
  "Classify err =
     (if err = None then ErrorTransient
      else if IsTransient err then ErrorTransient
      else if IsFatal err then ErrorFatal
      else if IsInvalid err then ErrorInvalid
      else ErrorTransient)"

subsection \<open>Constructors\<close>

definition newClassified :: "ErrorClass \<Rightarrow> string \<Rightarrow> string \<Rightarrow> string \<Rightarrow> error_meta" where
  "newClassified cl component operation message =
     \<lparr>em_Class = cl, em_Message = message, em_Component = component, em_Operation = operation,
      em_Code = [], em_Detail = []\<rparr>"

definition inheritMachineContract :: "error_meta \<Rightarrow> go_error \<Rightarrow> error_meta" where
  "inheritMachineContract m err =
     (case errors_as_classified err of
        Some (inner, _) \<Rightarrow>
          if em_Code inner \<noteq> [] then m\<lparr>em_Code := em_Code inner, em_Detail := em_Detail inner\<rparr> else m
      | None \<Rightarrow> m)"

definition Classified :: "ErrorClass \<Rightarrow> go_error option \<Rightarrow> go_error option" where
  "Classified cl err =
     map_option (\<lambda>e. ErrClassified (inheritMachineContract (newClassified cl [] [] (Error e)) e) (Some e)) err"

definition ClassifiedCode :: "ErrorClass \<Rightarrow> string \<Rightarrow> go_error \<Rightarrow> go_error" where
  "ClassifiedCode cl code e = ErrClassified ((newClassified cl [] [] (Error e))\<lparr>em_Code := code\<rparr>) (Some e)"

definition ClassifiedCodeDetail ::
  "ErrorClass \<Rightarrow> string \<Rightarrow> (string \<times> detail_value) list \<Rightarrow> go_error \<Rightarrow> go_error" where
  "ClassifiedCodeDetail cl code detail e =
     ErrClassified ((newClassified cl [] [] (Error e))\<lparr>em_Code := code, em_Detail := detail\<rparr>) (Some e)"

definition ErrRevisionMismatch :: go_error where
  "ErrRevisionMismatch = ErrClassified ((newClassified ErrorInvalid [] [] ''revision_mismatch'')
     \<lparr>em_Code := ''revision_mismatch''\<rparr>) None"

definition Wrap :: "go_error \<Rightarrow> string \<Rightarrow> string \<Rightarrow> string \<Rightarrow> go_error" where
  "Wrap e component meth action = ErrWrap (component @ ''.'' @ meth @ '': '' @ action @ '' failed: '') e []"

definition wrapClass :: "ErrorClass \<Rightarrow> go_error option \<Rightarrow> string \<Rightarrow> string \<Rightarrow> string \<Rightarrow> go_error option" where
  "wrapClass cl err component meth action =
     (case (case err of None \<Rightarrow> if action = [] then None else Some (ErrText action) | Some e \<Rightarrow> Some e) of
        None \<Rightarrow> None
      | Some e \<Rightarrow>
          let wrappedErr = Wrap e component meth action in
          Some (ErrClassified
            (inheritMachineContract (newClassified cl component meth (Error wrappedErr)) e) (Some wrappedErr)))"

definition WrapTransient :: "go_error option \<Rightarrow> string \<Rightarrow> string \<Rightarrow> string \<Rightarrow> go_error option" where
  "WrapTransient err component meth action = wrapClass ErrorTransient err component meth action"

definition WrapFatal :: "go_error option \<Rightarrow> string \<Rightarrow> string \<Rightarrow> string \<Rightarrow> go_error option" where
  "WrapFatal err component meth action = wrapClass ErrorFatal err component meth action"

definition WrapInvalid :: "go_error option \<Rightarrow> string \<Rightarrow> string \<Rightarrow> string \<Rightarrow> go_error option" where
  "WrapInvalid err component meth action = wrapClass ErrorInvalid err component meth action"

text \<open>The coded error of a rejected entity ID.\<close>

definition entity_id_error :: "contract_error \<Rightarrow> go_error" where
  "entity_id_error e = ClassifiedCodeDetail ErrorInvalid (ce_code e) (ce_detail e)
     (Sentinel ''invalid entity ID contract input'')"

subsection \<open>Shutdown errors\<close>

definition ShutdownPhase_valid :: "string \<Rightarrow> bool" where
  "ShutdownPhase_valid p = List.member
     [''drain_consumers'', ''drain_subscriptions'', ''shutdown_listener'', ''join_runtime'', ''close_transport''] p"

definition NewShutdownError :: "string \<Rightarrow> string \<Rightarrow> go_error option \<Rightarrow> go_error option" where
  "NewShutdownError owner phase err =
     (if owner = [] then Some (ErrText ''shutdown error: owner must not be empty'')
      else if \<not> ShutdownPhase_valid phase then Some (ErrText (''shutdown error: unknown phase '' @ quoted phase))
      else map_option (ErrShutdown owner phase) err)"

subsection \<open>Wrapping keeps the contract\<close>

definition machine_code :: "go_error \<Rightarrow> string" where
  "machine_code err = (case errors_as_classified err of Some (m, _) \<Rightarrow> em_Code m | None \<Rightarrow> [])"

definition machine_detail :: "go_error \<Rightarrow> (string \<times> detail_value) list" where
  "machine_detail err =
     (case errors_as_classified err of Some (m, _) \<Rightarrow> if em_Code m = [] then [] else em_Detail m | None \<Rightarrow> [])"

lemma as_classified_ErrClassified [simp]: "errors_as_classified (ErrClassified m c) = Some (m, c)"
  by (cases c) (simp_all add: errors_as_classified_def)

lemma first_some_Some: "first_some f xs = Some y \<Longrightarrow> \<exists>x\<in>set xs. f x = Some y"
  by (induction xs) (auto split: option.splits)

lemma errors_is_classified:
  "errors_is (ErrClassified m (Some e)) t \<longleftrightarrow> ClassifiedError_Is m t \<or> errors_is e t"
  by (cases t) (simp_all add: errors_is_def)

lemma errors_is_wrap [simp]: "errors_is (ErrWrap a e b) t \<longleftrightarrow> errors_is e t"
  by (cases t) (simp_all add: errors_is_def)

lemma errors_is_code: "errors_as_classified e = Some (m, c) \<Longrightarrow> ClassifiedError_Is m t \<Longrightarrow> errors_is e t"
proof -
  assume a: "errors_as_classified e = Some (m, c)" "ClassifiedError_Is m t"
  then obtain x where "x \<in> set (chain e)" "as_classified x = Some (m, c)"
    using first_some_Some[of as_classified "chain e" "(m, c)"] unfolding errors_as_classified_def by auto
  with a(2) show ?thesis unfolding errors_is_def list_ex_iff by (intro bexI[of _ x]) simp_all
qed

lemma uncoded_never_is: "em_Code m = [] \<Longrightarrow> \<not> ClassifiedError_Is m t"
  by (auto simp: ClassifiedError_Is_def split: option.splits)

lemma Is_code_only: "em_Code m = em_Code m' \<Longrightarrow> ClassifiedError_Is m t = ClassifiedError_Is m' t"
  by (simp add: ClassifiedError_Is_def split: option.splits)

lemma inherit_class [simp]: "em_Class (inheritMachineContract m e) = em_Class m"
  by (auto simp: inheritMachineContract_def split: option.splits)

lemma inherit_code:
  "em_Code m = [] \<Longrightarrow> em_Detail m = [] \<Longrightarrow> em_Code (inheritMachineContract m e) = machine_code e \<and>
     em_Detail (inheritMachineContract m e) = machine_detail e"
  by (auto simp: inheritMachineContract_def machine_code_def machine_detail_def split: option.splits)

lemma inherit_is:
  assumes "em_Code m = []" "em_Detail m = []" "ClassifiedError_Is (inheritMachineContract m e) t"
  shows "errors_is e t"
proof (cases "errors_as_classified e")
  case None
  with assms show ?thesis by (simp add: inheritMachineContract_def uncoded_never_is)
next
  case (Some mc)
  obtain m' c where mc: "mc = (m', c)" by fastforce
  have "em_Code (inheritMachineContract m e) = em_Code m'"
    using inherit_code[OF assms(1,2), of e] Some mc by (simp add: machine_code_def)
  then have "ClassifiedError_Is m' t" using assms(3) Is_code_only by metis
  then show ?thesis using errors_is_code Some mc by blast
qed

lemma classified_verdicts:
  "IsTransient (Some (ErrClassified m c)) \<longleftrightarrow> em_Class m = ErrorTransient"
  "IsFatal (Some (ErrClassified m c)) \<longleftrightarrow> em_Class m = ErrorFatal"
  "IsInvalid (Some (ErrClassified m c)) \<longleftrightarrow> em_Class m = ErrorInvalid"
  "Classify (Some (ErrClassified m c)) = em_Class m"
  by (simp_all add: IsTransient_def IsFatal_def IsInvalid_def Classify_def) (cases "em_Class m"; simp)

lemma newClassified_sel [simp]:
  "em_Class (newClassified cl c o' t) = cl" "em_Code (newClassified cl c o' t) = []"
  "em_Detail (newClassified cl c o' t) = []"
  by (simp_all add: newClassified_def)

text \<open>C29. Wrapping an error as transient, fatal or invalid sets exactly that handling class and nothing
  else a machine can observe: the code and its detail are those of the wrapped error, and every
  \<open>errors.Is\<close> test, the revision-mismatch sentinel included, has the same verdict as before.\<close>

theorem wrap_keeps_machine_contract:
  "\<exists>e'. wrapClass cl (Some e) component meth action = Some e' \<and>
     Classify (Some e') = cl \<and>
     (IsTransient (Some e'), IsFatal (Some e'), IsInvalid (Some e')) =
       (cl = ErrorTransient, cl = ErrorFatal, cl = ErrorInvalid) \<and>
     machine_code e' = machine_code e \<and> machine_detail e' = machine_detail e \<and>
     (\<forall>t. errors_is e' t \<longleftrightarrow> errors_is e t)"
proof -
  let ?w = "Wrap e component meth action"
  let ?m = "inheritMachineContract (newClassified cl component meth (Error ?w)) e"
  let ?e' = "ErrClassified ?m (Some ?w)"
  have c: "em_Code ?m = machine_code e" "em_Detail ?m = machine_detail e"
    using inherit_code by simp_all
  then have mc: "machine_code ?e' = machine_code e" by (simp add: machine_code_def)
  have "machine_detail ?e' = (if em_Code ?m = [] then [] else em_Detail ?m)"
    unfolding machine_detail_def by simp
  also have "\<dots> = machine_detail e"
    unfolding c by (auto simp: machine_code_def machine_detail_def split: option.splits)
  finally have md: "machine_detail ?e' = machine_detail e" .
  have "errors_is ?e' t \<longleftrightarrow> errors_is e t" for t
    using inherit_is[of "newClassified cl component meth (Error ?w)" e t]
    unfolding errors_is_classified by (auto simp: Wrap_def)
  moreover have "wrapClass cl (Some e) component meth action = Some ?e'"
    by (simp add: wrapClass_def Let_def)
  ultimately show ?thesis using mc md
    by (intro exI[of _ ?e']) (simp add: classified_verdicts)
qed

end
