(* ===== verification/Retry.thy ===== *)
theory Retry
  imports Go_Errors Go_Float
begin

text \<open>
  The retry loop (\<open>pkg/retry/retry.go\<close>).  The world of the caller is a state \<open>'s\<close>: the operation,
  the sleep and the random source are functions on it, so that anything may happen between two
  attempts.  A call ends with \<open>Ok\<close>, with an error, or in a panic of the random source.
\<close>

datatype 'a go_res = Ok 'a | Fail go_error | Panic string

record retry_config =
  rc_MaxAttempts :: int
  rc_InitialDelay :: int
  rc_MaxDelay :: int
  rc_Multiplier :: rat
  rc_AddJitter :: bool

record 's retry_env =
  re_ctx_err :: "'s \<Rightarrow> go_error option"
  re_jitter :: "int \<Rightarrow> 's \<Rightarrow> 's \<times> int" \<comment> \<open>\<open>randSource.Int63n(n)\<close> for positive \<open>n\<close>\<close>
  re_sleep :: "int \<Rightarrow> 's \<Rightarrow> 's \<times> go_error option" \<comment> \<open>the context's error if it ends the sleep\<close>

definition NonRetryable :: "go_error option \<Rightarrow> go_error option" where
  "NonRetryable err = map_option ErrNonRetryable err"

fun is_non_retryable :: "go_error \<Rightarrow> bool" where
  "is_non_retryable (ErrNonRetryable e) = True"
| "is_non_retryable _ = False"

definition IsNonRetryable :: "go_error \<Rightarrow> bool" where
  "IsNonRetryable err = list_ex is_non_retryable (chain err)"

definition retry_normalize :: "retry_config \<Rightarrow> go_error + retry_config" where
  "retry_normalize cfg =
     (if rc_InitialDelay cfg < 0 then Inl (ErrText ''retry: InitialDelay cannot be negative'')
      else if rc_MaxDelay cfg < 0 then Inl (ErrText ''retry: MaxDelay cannot be negative'')
      else if rc_Multiplier cfg < 0 then Inl (ErrText ''retry: Multiplier cannot be negative'')
      else
        let cfg = (if rc_Multiplier cfg > 1000 then cfg\<lparr>rc_Multiplier := 1000\<rparr> else cfg);
            cfg = (if rc_MaxAttempts cfg \<le> 0 then cfg\<lparr>rc_MaxAttempts := 1\<rparr> else cfg);
            cfg = (if rc_InitialDelay cfg = 0 then cfg\<lparr>rc_InitialDelay := 100000000\<rparr> else cfg);
            cfg = (if rc_MaxDelay cfg = 0 then cfg\<lparr>rc_MaxDelay := 5000000000\<rparr> else cfg);
            cfg = (if rc_Multiplier cfg = 0 then cfg\<lparr>rc_Multiplier := 2\<rparr> else cfg)
        in if rc_MaxDelay cfg > 0 \<and> rc_MaxDelay cfg < rc_InitialDelay cfg
           then Inl (ErrText ''retry: MaxDelay must be >= InitialDelay'')
           else Inr cfg)"

text \<open>The next delay, computed in \<open>float64\<close>; a product beyond its range is infinite.  The conversion to a
  duration is the truncation, which Go leaves to the machine for the single value \<open>2 ^ 63\<close> that passes
  the guard when \<open>MaxDelay\<close> itself rounds to it; multipliers are finite numbers.\<close>

definition next_delay :: "retry_config \<Rightarrow> int \<Rightarrow> int" where
  "next_delay cfg delay =
     (case f64_round (f64_of_int delay * rc_Multiplier cfg) of
        None \<Rightarrow> rc_MaxDelay cfg
      | Some nextDelay \<Rightarrow>
          if nextDelay > f64_of_int (rc_MaxDelay cfg) \<or> nextDelay > f64_of_int (2 ^ 63 - 1)
          then rc_MaxDelay cfg else \<lfloor>nextDelay\<rfloor>)"

text \<open>One backoff: jitter, then sleep.\<close>

definition retry_backoff :: "'s retry_env \<Rightarrow> retry_config \<Rightarrow> int \<Rightarrow> 's \<Rightarrow> 's \<times> (go_error option) go_res" where
  "retry_backoff env cfg delay s =
     (if rc_AddJitter cfg then
        if delay div 4 \<le> 0 then (s, Panic ''invalid argument to Int63n'')
        else let (s1, jitter) = re_jitter env (delay div 4) s;
                 (s2, cancelled) = re_sleep env (delay + jitter) s1
             in (s2, Ok cancelled)
      else let (s1, cancelled) = re_sleep env delay s in (s1, Ok cancelled))"

text \<open>The loop, with \<open>rest\<close> attempts left after this one.\<close>

fun retry_loop ::
  "'s retry_env \<Rightarrow> retry_config \<Rightarrow> ('s \<Rightarrow> 's \<times> go_error option) \<Rightarrow> nat \<Rightarrow> int \<Rightarrow> int \<Rightarrow> 's \<Rightarrow> 's \<times> unit go_res" where
  "retry_loop env cfg fn rest attempt delay s =
     (case fn s of
        (s1, None) \<Rightarrow> (s1, Ok ())
      | (s1, Some err) \<Rightarrow>
          if IsNonRetryable err then (s1, Fail err)
          else (case re_ctx_err env s1 of
            Some ce \<Rightarrow> (s1, Fail (ErrWrap (''retry cancelled before attempt '' @ int_text attempt @ '': '') ce []))
          | None \<Rightarrow>
              (case rest of
                 0 \<Rightarrow> (s1, Fail (ErrWrap (''retry failed after '' @ int_text (rc_MaxAttempts cfg) @ '' attempts: '') err []))
               | Suc rest' \<Rightarrow>
                   (case retry_backoff env cfg delay s1 of
                      (s2, Panic p) \<Rightarrow> (s2, Panic p)
                    | (s2, Fail e) \<Rightarrow> (s2, Fail e)
                    | (s2, Ok (Some ce)) \<Rightarrow>
                        (s2, Fail (ErrWrap (''retry cancelled during backoff for attempt '' @ int_text (attempt + 1) @ '': '') ce []))
                    | (s2, Ok None) \<Rightarrow>
                        retry_loop env cfg fn rest' (attempt + 1) (next_delay cfg delay) s2))))"

definition retry_Do :: "'s retry_env \<Rightarrow> retry_config \<Rightarrow> ('s \<Rightarrow> 's \<times> go_error option) \<Rightarrow> 's \<Rightarrow> 's \<times> unit go_res" where
  "retry_Do env cfg fn s =
     (case retry_normalize cfg of
        Inl err \<Rightarrow> (s, Fail err)
      | Inr c \<Rightarrow> retry_loop env c fn (nat (rc_MaxAttempts c - 1)) 1 (rc_InitialDelay c) s)"

declare retry_loop.simps [simp del]

subsection \<open>Invariants\<close>

text \<open>An invariant that failed attempts and backoffs keep holds before every attempt.\<close>

lemma retry_loop_rule:
  assumes "I s"
    and fail: "\<And>s s1 err. I s \<Longrightarrow> fn s = (s1, Some err) \<Longrightarrow> I s1"
    and bk: "\<And>s d s1 r. I s \<Longrightarrow> retry_backoff env cfg d s = (s1, r) \<Longrightarrow> I s1"
    and run: "retry_loop env cfg fn rest attempt delay s = (s', r)"
  shows "(case r of Ok _ \<Rightarrow> \<exists>s0. I s0 \<and> fn s0 = (s', None) | _ \<Rightarrow> I s')"
  using assms(1) run
proof (induction rest arbitrary: attempt delay s)
  case 0
  show ?case using 0 fail[OF 0(1)]
    by (subst (asm) retry_loop.simps) (auto split: prod.splits option.splits if_splits)
next
  case (Suc rest)
  obtain s1 o1 where f: "fn s = (s1, o1)" by fastforce
  show ?case
  proof (cases o1)
    case None
    then show ?thesis using Suc.prems f by (subst (asm) retry_loop.simps) auto
  next
    case (Some err)
    have I1: "I s1" using fail[OF Suc.prems(1)] f Some by blast
    obtain s2 b where b: "retry_backoff env cfg delay s1 = (s2, b)" by fastforce
    have I2: "I s2" using bk[OF I1 b] .
    show ?thesis
      using Suc.prems(2) I1 I2 f Some b Suc.IH[OF I2]
      by (subst (asm) retry_loop.simps) (auto split: if_splits option.splits go_res.splits)
  qed
qed

lemma retry_Do_rule:
  assumes "I s"
    and "\<And>s s1 err. I s \<Longrightarrow> fn s = (s1, Some err) \<Longrightarrow> I s1"
    and "\<And>s d s1 j. I s \<Longrightarrow> re_jitter env d s = (s1, j) \<Longrightarrow> I s1"
    and "\<And>s d s1 c. I s \<Longrightarrow> re_sleep env d s = (s1, c) \<Longrightarrow> I s1"
    and run: "retry_Do env cfg fn s = (s', r)"
  shows "(case r of Ok _ \<Rightarrow> \<exists>s0. I s0 \<and> fn s0 = (s', None) | _ \<Rightarrow> I s')"
proof (cases "retry_normalize cfg")
  case (Inl e)
  with run \<open>I s\<close> show ?thesis by (auto simp: retry_Do_def)
next
  case (Inr c)
  have bk: "I s1" if "I s" "retry_backoff env c d s = (s1, r)" for s d s1 r
  proof -
    obtain sa j where j: "re_jitter env (d div 4) s = (sa, j)" by fastforce
    obtain sb cb where b: "re_sleep env (d + j) sa = (sb, cb)" by fastforce
    obtain sc cc where c: "re_sleep env d s = (sc, cc)" by fastforce
    have "s1 = s \<or> s1 = sb \<or> s1 = sc"
      using that(2) by (auto simp: retry_backoff_def j b c split: if_splits)
    moreover have "I sb" using assms(4)[OF assms(3)[OF that(1) j] b] .
    moreover have "I sc" using assms(4)[OF that(1) c] .
    ultimately show ?thesis using that(1) by blast
  qed
  from Inr run have "retry_loop env c fn (nat (rc_MaxAttempts c - 1)) 1 (rc_InitialDelay c) s = (s', r)"
    by (simp add: retry_Do_def)
  from retry_loop_rule[where I = I, OF \<open>I s\<close> assms(2) bk this] show ?thesis .
qed

subsection \<open>Attempts and panics\<close>

lemma retry_loop_calls:
  assumes fn: "\<And>s. cnt (fst (fn s)) = Suc (cnt s)"
    and jit: "\<And>d s. cnt (fst (re_jitter env d s)) = cnt s"
    and slp: "\<And>d s. cnt (fst (re_sleep env d s)) = cnt s"
  shows "Suc (cnt s) \<le> cnt (fst (retry_loop env cfg fn rest attempt delay s)) \<and>
         cnt (fst (retry_loop env cfg fn rest attempt delay s)) \<le> cnt s + Suc rest"
proof (induction rest arbitrary: attempt delay s)
  case 0
  obtain s1 o1 where f: "fn s = (s1, o1)" by fastforce
  then have "cnt s1 = Suc (cnt s)" using fn[of s] by simp
  then show ?case by (subst (1 2) retry_loop.simps) (auto simp: f split: option.splits)
next
  case (Suc rest)
  obtain s1 o1 where f: "fn s = (s1, o1)" by fastforce
  then have c1: "cnt s1 = Suc (cnt s)" using fn[of s] by simp
  obtain s2 b where b: "retry_backoff env cfg delay s1 = (s2, b)" by fastforce
  obtain sa j where j: "re_jitter env (delay div 4) s1 = (sa, j)" by fastforce
  obtain sb cb where sb: "re_sleep env (delay + j) sa = (sb, cb)" by fastforce
  obtain sc cc where sc: "re_sleep env delay s1 = (sc, cc)" by fastforce
  have "s2 = s1 \<or> s2 = sb \<or> s2 = sc"
    using b by (auto simp: retry_backoff_def j sb sc split: if_splits)
  then have c2: "cnt s2 = Suc (cnt s)"
    using c1 jit[of "delay div 4" s1] slp[of "delay + j" sa] slp[of delay s1] by (auto simp: j sb sc)
  show ?case
    using Suc.IH[where attempt = "attempt + 1" and delay = "next_delay cfg delay" and s = s2]
    by (subst (1 2) retry_loop.simps) (auto simp: f b c1 c2 split: option.splits go_res.splits)
qed

lemma retry_normalize_attempts: "retry_normalize cfg = Inr c \<Longrightarrow> rc_MaxAttempts c = max 1 (rc_MaxAttempts cfg)"
  by (auto simp: retry_normalize_def Let_def split: if_splits)

text \<open>C35. The retry loop is bounded: with an accepted configuration the operation is called at least once
  and at most \<open>max 1 MaxAttempts\<close> times, whatever it returns and whatever the context does.\<close>

theorem retry_attempts_bounded:
  assumes "retry_normalize cfg = Inr c"
    and "\<And>s. cnt (fst (fn s)) = Suc (cnt s)"
    and "\<And>d s. cnt (fst (re_jitter env d s)) = cnt s"
    and "\<And>d s. cnt (fst (re_sleep env d s)) = cnt s"
  shows "cnt s + 1 \<le> cnt (fst (retry_Do env cfg fn s)) \<and>
         cnt (fst (retry_Do env cfg fn s)) \<le> cnt s + nat (max 1 (rc_MaxAttempts cfg))"
proof -
  have "Suc (nat (rc_MaxAttempts c - 1)) = nat (max 1 (rc_MaxAttempts cfg))"
    using retry_normalize_attempts[OF assms(1)] by simp
  then show ?thesis
    using retry_loop_calls[of cnt fn env s c "nat (rc_MaxAttempts c - 1)" 1 "rc_InitialDelay c", OF assms(2-4)]
    by (simp add: retry_Do_def assms(1))
qed

definition wit_retry_config :: retry_config where
  "wit_retry_config = \<lparr>rc_MaxAttempts = 3, rc_InitialDelay = 100, rc_MaxDelay = 1000, rc_Multiplier = 2, rc_AddJitter = False\<rparr>"

definition wit_retry_env :: "nat retry_env" where
  "wit_retry_env = \<lparr>re_ctx_err = (\<lambda>_. None), re_jitter = (\<lambda>d s. (s, 0)), re_sleep = (\<lambda>d s. (s, None))\<rparr>"

theorem retry_attempts_bounded_witness:
  "fst (retry_Do wit_retry_env wit_retry_config (\<lambda>s. (Suc s, Some (ErrText ''busy''))) 0) \<le> 3"
proof -
  have "retry_normalize wit_retry_config = Inr wit_retry_config" by code_simp
  from retry_attempts_bounded[OF this, of "\<lambda>s. s" "\<lambda>s. (Suc s, Some (ErrText ''busy''))" wit_retry_env 0]
  show ?thesis by (simp add: wit_retry_env_def wit_retry_config_def)
qed

lemma f64_of_int_ge4: "4 \<le> d \<Longrightarrow> 4 \<le> f64_of_int d"
  using f64_round_ge_pow2[of "of_int d" _ 2] by (auto simp: f64_of_int_def split: option.splits)

lemma next_delay_ge4:
  assumes "4 \<le> d" "1 \<le> rc_Multiplier cfg" "4 \<le> rc_MaxDelay cfg"
  shows "4 \<le> next_delay cfg d"
proof -
  have "4 \<le> f64_of_int d * rc_Multiplier cfg"
    using mult_mono[of 4 "f64_of_int d" 1 "rc_Multiplier cfg"] f64_of_int_ge4[OF assms(1)] assms(2) by simp
  then have "4 \<le> n" if "f64_round (f64_of_int d * rc_Multiplier cfg) = Some n" for n
    using f64_round_ge_pow2[OF that, of 2] by simp
  then show ?thesis using assms(3) by (auto simp: next_delay_def le_floor_iff split: option.splits)
qed

lemma retry_loop_no_panic:
  assumes "4 \<le> d" "1 \<le> rc_Multiplier cfg" "4 \<le> rc_MaxDelay cfg"
  shows "\<forall>p. snd (retry_loop env cfg fn rest attempt d s) \<noteq> Panic p"
  using assms(1)
proof (induction rest arbitrary: attempt d s)
  case 0
  then show ?case by (subst retry_loop.simps) (auto split: prod.splits option.splits)
next
  case (Suc rest)
  note n = next_delay_ge4[OF Suc.prems assms(2,3)]
  have np: "snd (retry_backoff env cfg d s) \<noteq> Panic p \<and> snd (retry_backoff env cfg d s) \<noteq> Fail e" for s p e
    using Suc.prems by (auto simp: retry_backoff_def split: prod.splits)
  show ?case
    using Suc.IH[OF n] np
    by (subst retry_loop.simps) (auto split: prod.splits option.splits go_res.splits, (metis snd_conv)+)
qed

text \<open>The retry loop never panics when the first delay is at least four nanoseconds and the multiplier
  at least one: the delay stays at least four, so the jitter is always drawn from a nonempty range.\<close>

theorem retry_never_panics:
  assumes "4 \<le> rc_InitialDelay cfg" "1 \<le> rc_Multiplier cfg"
  shows "\<forall>p. snd (retry_Do env cfg fn s) \<noteq> Panic p"
proof (cases "retry_normalize cfg")
  case (Inl e)
  then show ?thesis by (simp add: retry_Do_def)
next
  case (Inr c)
  then have "4 \<le> rc_InitialDelay c" "1 \<le> rc_Multiplier c" "4 \<le> rc_MaxDelay c"
    using assms by (auto simp: retry_normalize_def Let_def split: if_splits)
  then show ?thesis using retry_loop_no_panic by (simp add: retry_Do_def Inr)
qed

theorem retry_never_panics_witness:
  "snd (retry_Do wit_retry_env (wit_retry_config\<lparr>rc_AddJitter := True\<rparr>) (\<lambda>s. (Suc s, Some (ErrText ''busy''))) 0) \<noteq>
   Panic ''invalid argument to Int63n''"
  using retry_never_panics[of "wit_retry_config\<lparr>rc_AddJitter := True\<rparr>" wit_retry_env
      "\<lambda>s. (Suc s, Some (ErrText ''busy''))" 0]
  by (simp add: wit_retry_config_def)

text \<open>Below that bound the configuration is accepted and the second attempt panics.\<close>

lemma retry_small_delay_panics:
  "snd (retry_Do wit_retry_env (wit_retry_config\<lparr>rc_InitialDelay := 3, rc_AddJitter := True\<rparr>)
     (\<lambda>s. (Suc s, Some (ErrText ''busy''))) 0) = Panic ''invalid argument to Int63n''"
  by (simp add: retry_Do_def retry_normalize_def wit_retry_config_def, subst retry_loop.simps)
    (simp add: retry_backoff_def IsNonRetryable_def wit_retry_env_def)

end
