(* ===== verification/Gated_Dag.thy ===== *)
theory Gated_Dag
  imports Prelude
begin

text \<open>
  The decision function of gated-DAG dispatch (\<open>pkg/gateddag/gateddag.go\<close>): a unit's status is
  derived from marker membership, and a unit is dispatchable when it is ready and all its
  prerequisites are done.  The lemmas characterise the dispatchable and the stalled units, and show
  that a plan without cycles stalls only behind a failed unit, and otherwise makes progress until every
  unit is done.
\<close>

datatype Status = StatusReady | StatusDone | StatusBlocked

fun Status_String :: "Status \<Rightarrow> string" where
  "Status_String StatusDone = ''done''"
| "Status_String StatusBlocked = ''blocked''"
| "Status_String StatusReady = ''ready''"

record MarkerSet =
  ms_Completed :: "string \<Rightarrow> bool"
  ms_Failed :: "string \<Rightarrow> bool"
  ms_Dirtied :: "string \<Rightarrow> bool"

definition toSet :: "string list \<Rightarrow> string \<Rightarrow> bool" where
  "toSet ids = (\<lambda>id. List.member ids id)"

definition NewMarkerSet :: "string list \<Rightarrow> string list \<Rightarrow> string list \<Rightarrow> MarkerSet" where
  "NewMarkerSet completed failed dirtied =
     \<lparr>ms_Completed = toSet completed, ms_Failed = toSet failed, ms_Dirtied = toSet dirtied\<rparr>"

definition DeriveStatus :: "string \<Rightarrow> MarkerSet \<Rightarrow> Status" where
  "DeriveStatus u m =
     (if ms_Dirtied m u then StatusReady
      else if ms_Failed m u then StatusBlocked
      else if ms_Completed m u then StatusDone
      else StatusReady)"

record Decision =
  d_UnitID :: string
  d_Status :: Status
  d_Dispatchable :: bool
  d_Reason :: string

text \<open>The edge map; a unit without an entry has no prerequisites.\<close>

type_synonym depends_on = "string \<Rightarrow> string list"

definition decideUnit :: "string \<Rightarrow> depends_on \<Rightarrow> MarkerSet \<Rightarrow> Decision" where
  "decideUnit u dependsOn m =
     (let d = \<lparr>d_UnitID = u, d_Status = DeriveStatus u m, d_Dispatchable = False, d_Reason = []\<rparr> in
      case d_Status d of
        StatusDone \<Rightarrow> d\<lparr>d_Reason := ''already complete''\<rparr>
      | StatusBlocked \<Rightarrow>
          d\<lparr>d_Reason := ''failed '' @ [CHR 0xE2, CHR 0x80, CHR 0x94] @ '' awaiting recovery''\<rparr>
      | StatusReady \<Rightarrow>
          (case filter (\<lambda>dep. DeriveStatus dep m \<noteq> StatusDone) (dependsOn u) of
             dep # _ \<Rightarrow> d\<lparr>d_Reason := ''waiting on prerequisite '' @ dep\<rparr>
           | [] \<Rightarrow> d\<lparr>d_Dispatchable := True, d_Reason := ''ready''\<rparr>))"

definition Evaluate :: "string list \<Rightarrow> depends_on \<Rightarrow> MarkerSet \<Rightarrow> Decision list" where
  "Evaluate unitIDs dependsOn m = sort_key d_UnitID (map (\<lambda>u. decideUnit u dependsOn m) unitIDs)"

definition SelectDispatchable :: "string list \<Rightarrow> depends_on \<Rightarrow> MarkerSet \<Rightarrow> string list" where
  "SelectDispatchable unitIDs dependsOn m =
     map d_UnitID (filter d_Dispatchable (Evaluate unitIDs dependsOn m))"

definition Stalled :: "string list \<Rightarrow> depends_on \<Rightarrow> MarkerSet \<Rightarrow> string list" where
  "Stalled unitIDs dependsOn m =
     (let ds = Evaluate unitIDs dependsOn m;
          heldReady = map d_UnitID (filter (\<lambda>d. d_Status d = StatusReady \<and> \<not> d_Dispatchable d) ds)
      in if list_ex d_Dispatchable ds \<or> heldReady = [] then [] else heldReady)"

subsection \<open>What is dispatched and what is stalled\<close>

lemma decideUnit_sel [simp]:
  "d_UnitID (decideUnit u dep m) = u"
  "d_Status (decideUnit u dep m) = DeriveStatus u m"
  "d_Dispatchable (decideUnit u dep m) \<longleftrightarrow>
     DeriveStatus u m = StatusReady \<and> (\<forall>p\<in>set (dep u). DeriveStatus p m = StatusDone)"
  by (auto simp: decideUnit_def Let_def filter_empty_conv split: Status.splits list.splits)
    (metis (mono_tags, lifting) filter_eq_Cons_iff in_set_conv_decomp)

lemma set_Evaluate [simp]: "set (Evaluate us dep m) = (\<lambda>u. decideUnit u dep m) ` set us"
  by (simp add: Evaluate_def)

lemma sorted_Evaluate: "sorted (map d_UnitID (Evaluate us dep m))"
  by (simp add: Evaluate_def)

lemma sorted_map_filter: "sorted (map f xs) \<Longrightarrow> sorted (map f (filter P xs))"
  by (rule sorted_filter)

lemma SelectDispatchable_set:
  "set (SelectDispatchable us dep m) =
     {u \<in> set us. DeriveStatus u m = StatusReady \<and> (\<forall>p\<in>set (dep u). DeriveStatus p m = StatusDone)}"
proof -
  have "set (SelectDispatchable us dep m) =
    d_UnitID ` (\<lambda>u. decideUnit u dep m) ` {u \<in> set us. d_Dispatchable (decideUnit u dep m)}"
    by (auto simp: SelectDispatchable_def simp del: decideUnit_sel)
  then show ?thesis by (simp add: image_image)
qed

text \<open>C37. Dispatch waits for all prerequisites: the selected units are exactly the ready units of the
  plan all of whose prerequisites are done, in ID order.  A unit without a live marker but with an
  unfinished, failed or reset prerequisite is never selected.\<close>

theorem gateddag_dispatch_exact:
  "sorted (SelectDispatchable us dep m) \<and>
   (u \<in> set (SelectDispatchable us dep m) \<longleftrightarrow>
     u \<in> set us \<and>
     \<not> ((ms_Failed m u \<or> ms_Completed m u) \<and> \<not> ms_Dirtied m u) \<and>
     list_all (\<lambda>p. ms_Completed m p \<and> \<not> (ms_Failed m p \<or> ms_Dirtied m p)) (dep u))"
proof -
  have "sorted (SelectDispatchable us dep m)"
    by (simp add: SelectDispatchable_def sorted_map_filter sorted_Evaluate)
  moreover have "DeriveStatus p m = StatusDone \<longleftrightarrow> ms_Completed m p \<and> \<not> (ms_Failed m p \<or> ms_Dirtied m p)" for p
    by (simp add: DeriveStatus_def)
  moreover have "DeriveStatus u m = StatusReady \<longleftrightarrow> \<not> ((ms_Failed m u \<or> ms_Completed m u) \<and> \<not> ms_Dirtied m u)"
    by (simp add: DeriveStatus_def)
  ultimately show ?thesis by (simp add: SelectDispatchable_set list_all_iff)
qed

lemma Stalled_set:
  "set (Stalled us dep m) =
     (if set (SelectDispatchable us dep m) = {} then {u \<in> set us. DeriveStatus u m = StatusReady} else {})"
proof (cases "set (SelectDispatchable us dep m) = {}")
  case True
  then have none: "\<forall>u\<in>set us. \<not> d_Dispatchable (decideUnit u dep m)"
    by (auto simp: SelectDispatchable_set)
  then have no: "\<not> list_ex d_Dispatchable (Evaluate us dep m)" by (auto simp: list_ex_iff)
  have "Stalled us dep m =
      map d_UnitID (filter (\<lambda>d. d_Status d = StatusReady \<and> \<not> d_Dispatchable d) (Evaluate us dep m))"
    using no by (simp add: Stalled_def Let_def)
  then have "set (Stalled us dep m) =
      d_UnitID ` {d \<in> (\<lambda>u. decideUnit u dep m) ` set us. d_Status d = StatusReady \<and> \<not> d_Dispatchable d}"
    by (simp del: decideUnit_sel)
  also have "\<dots> = {u \<in> set us. DeriveStatus u m = StatusReady}"
    using none by (auto simp: image_iff simp del: decideUnit_sel(3)) (metis decideUnit_sel(1,2))
  finally show ?thesis using True by simp
next
  case False
  then have "list_ex d_Dispatchable (Evaluate us dep m)"
    by (auto simp: SelectDispatchable_set list_ex_iff)
  with False show ?thesis by (simp add: Stalled_def Let_def)
qed

subsection \<open>Progress of an acyclic plan\<close>

definition dag_edges :: "string list \<Rightarrow> depends_on \<Rightarrow> (string \<times> string) set" where
  "dag_edges us dep = {(p, u). u \<in> set us \<and> p \<in> set (dep u)}"

text \<open>The prerequisites are units of the plan and no unit waits for itself.\<close>

definition sound_plan :: "string list \<Rightarrow> depends_on \<Rightarrow> bool" where
  "sound_plan us dep \<longleftrightarrow> acyclic (dag_edges us dep) \<and> (\<forall>u\<in>set us. set (dep u) \<subseteq> set us)"

lemma finite_edges: "finite (dag_edges us dep)"
proof -
  have "dag_edges us dep = (\<Union>u\<in>set us. (\<lambda>p. (p, u)) ` set (dep u))" by (auto simp: dag_edges_def)
  then show ?thesis by simp
qed

lemma sound_plan_wf: "sound_plan us dep \<Longrightarrow> wf (dag_edges us dep)"
  using finite_acyclic_wf[OF finite_edges] by (simp add: sound_plan_def)

lemma stalled_behind_failure:
  assumes "sound_plan us dep" "u \<in> set (Stalled us dep m)"
  shows "\<exists>p\<in>set us. (p, u) \<in> (dag_edges us dep)\<^sup>+ \<and> DeriveStatus p m = StatusBlocked"
  using sound_plan_wf[OF assms(1)] assms(2)
proof (induction u rule: wf_induct_rule)
  case (less u)
  from less.prems have stuck: "SelectDispatchable us dep m = []" and u: "u \<in> set us" "DeriveStatus u m = StatusReady"
    by (auto simp: Stalled_set split: if_splits)
  then have "u \<notin> set (SelectDispatchable us dep m)" by simp
  with u obtain p where p: "p \<in> set (dep u)" "DeriveStatus p m \<noteq> StatusDone"
    by (auto simp: SelectDispatchable_set)
  then have edge: "(p, u) \<in> dag_edges us dep" and "p \<in> set us"
    using u assms(1) by (auto simp: dag_edges_def sound_plan_def)
  show ?case
  proof (cases "DeriveStatus p m = StatusBlocked")
    case True
    with edge \<open>p \<in> set us\<close> show ?thesis by blast
  next
    case False
    with p \<open>p \<in> set us\<close> stuck have "p \<in> set (Stalled us dep m)"
      by (cases "DeriveStatus p m") (auto simp: Stalled_set)
    from less.IH[OF edge this] edge show ?thesis by (meson trancl.trancl_into_trancl)
  qed
qed

text \<open>A run of a plan without failed and reset units.  The state is the list of units carrying the
  completion marker, from which every evaluation builds its marker set; in one step a dispatchable
  unit finishes its work and its completion marker is written.\<close>

inductive dag_step :: "string list \<Rightarrow> depends_on \<Rightarrow> string list \<Rightarrow> string list \<Rightarrow> bool" for us dep where
  completes: "u \<in> set (SelectDispatchable us dep (NewMarkerSet cs [] [])) \<Longrightarrow> dag_step us dep cs (u # cs)"

inductive_cases dag_stepE: "dag_step us dep cs cs'"

definition open_units :: "string list \<Rightarrow> string list \<Rightarrow> string set" where
  "open_units us cs = set us - set cs"

lemma finite_open [simp]: "finite (open_units us cs)"
  by (simp add: open_units_def)

lemma completed_status:
  "DeriveStatus u (NewMarkerSet cs [] []) = (if u \<in> set cs then StatusDone else StatusReady)"
  by (simp add: DeriveStatus_def NewMarkerSet_def toSet_def)

lemma completed_not_stalled: "sound_plan us dep \<Longrightarrow> Stalled us dep (NewMarkerSet cs [] []) = []"
  using stalled_behind_failure[of us dep _ "NewMarkerSet cs [] []"]
  by (fastforce simp: completed_status neq_Nil_conv split: if_splits)

lemma progress_possible:
  assumes "sound_plan us dep" "open_units us cs \<noteq> {}"
  shows "\<exists>u. dag_step us dep cs (u # cs)"
proof -
  have "SelectDispatchable us dep (NewMarkerSet cs [] []) \<noteq> []"
    using assms(2) arg_cong[where f=set, OF completed_not_stalled[OF assms(1), of cs]]
    by (auto simp: Stalled_set completed_status open_units_def split: if_splits)
  then show ?thesis by (metis completes list.set_sel(1))
qed

lemma dag_step_open: "dag_step us dep cs cs' \<Longrightarrow> card (open_units us cs) = Suc (card (open_units us cs'))"
proof (elim dag_stepE)
  fix u assume u: "u \<in> set (SelectDispatchable us dep (NewMarkerSet cs [] []))" and cs': "cs' = u # cs"
  then have "u \<in> open_units us cs" by (auto simp: SelectDispatchable_set completed_status open_units_def split: if_splits)
  moreover have "open_units us cs' = open_units us cs - {u}" using cs' by (auto simp: open_units_def)
  ultimately show ?thesis by (metis card_Suc_Diff1 finite_open)
qed

lemma dag_run_open: "(dag_step us dep ^^ n) cs cs' \<Longrightarrow> card (open_units us cs) = n + card (open_units us cs')"
  by (induction n arbitrary: cs') (auto dest!: dag_step_open)

lemma dag_run_exists:
  "sound_plan us dep \<Longrightarrow> \<exists>cs'. (dag_step us dep ^^ card (open_units us cs)) cs cs'"
proof (induction "card (open_units us cs)" arbitrary: cs)
  case (Suc n)
  then have "open_units us cs \<noteq> {}" by auto
  with Suc.prems obtain u where step: "dag_step us dep cs (u # cs)" using progress_possible by blast
  then have "n = card (open_units us (u # cs))" using dag_step_open Suc.hyps(2) by fastforce
  with Suc obtain cs' where "(dag_step us dep ^^ n) (u # cs) cs'" by blast
  with step Suc.hyps(2) show ?case by (metis relpowp_Suc_I2)
qed auto

text \<open>C9. A plan whose prerequisites are units of the plan and free of cycles never gets stuck on its
  own.  Whatever the markers, a unit is reported as stalled only behind a failed unit it depends on,
  directly or through others.  Without failed and reset units, where work that finishes is marked
  completed, no state is reported as stalled; a run of \<open>n\<close> completions leaves exactly \<open>n\<close> fewer open
  units; it can be continued as long as a unit is open; nothing is dispatchable exactly when every
  unit of the plan is done; and a run that completes the plan exists.\<close>

theorem gateddag_acyclic_plan_completes:
  assumes "sound_plan us dep"
  shows "(\<forall>u\<in>set (Stalled us dep m). \<exists>p\<in>set us. (p, u) \<in> (dag_edges us dep)\<^sup>+ \<and> DeriveStatus p m = StatusBlocked) \<and>
    Stalled us dep (NewMarkerSet cs [] []) = [] \<and>
    (SelectDispatchable us dep (NewMarkerSet cs [] []) = [] \<longleftrightarrow>
       (\<forall>u\<in>set us. DeriveStatus u (NewMarkerSet cs [] []) = StatusDone)) \<and>
    ((dag_step us dep ^^ n) cs cs' \<longrightarrow>
       card (open_units us cs) = n + card (open_units us cs') \<and>
       (open_units us cs' \<noteq> {} \<longrightarrow> (\<exists>u. dag_step us dep cs' (u # cs')))) \<and>
    (\<exists>cs'. (dag_step us dep ^^ card (open_units us cs)) cs cs' \<and>
       (\<forall>u\<in>set us. DeriveStatus u (NewMarkerSet cs' [] []) = StatusDone))"
proof -
  have none: "SelectDispatchable us dep (NewMarkerSet cs [] []) = [] \<longleftrightarrow> open_units us cs = {}"
  proof
    show "open_units us cs = {}" if "SelectDispatchable us dep (NewMarkerSet cs [] []) = []"
      using progress_possible[OF assms, of cs] that by (metis dag_stepE empty_iff list.set(1))
    show "SelectDispatchable us dep (NewMarkerSet cs [] []) = []" if "open_units us cs = {}"
      using that by (subst set_empty[symmetric])
        (auto simp: SelectDispatchable_set open_units_def completed_status split: if_splits)
  qed
  have all: "(\<forall>u\<in>set us. DeriveStatus u (NewMarkerSet xs [] []) = StatusDone) \<longleftrightarrow> open_units us xs = {}" for xs
    by (auto simp: completed_status open_units_def)
  obtain xs where xs: "(dag_step us dep ^^ card (open_units us cs)) cs xs"
    using dag_run_exists[OF assms] by blast
  have "open_units us xs = {}" using dag_run_open[OF xs] by simp
  with xs show ?thesis
    unfolding all using stalled_behind_failure[OF assms] completed_not_stalled[OF assms] dag_run_open
      progress_possible[OF assms] none by meson
qed

definition wit_deps :: depends_on where
  "wit_deps u = (if u = ''b'' then [''a''] else if u = ''c'' then [''a'', ''b''] else [])"

text \<open>A plan of three units: two completions in dependency order leave the third, and a failed first
  unit stalls the second.\<close>

theorem gateddag_acyclic_plan_completes_witness:
  "(dag_step [''a'', ''b'', ''c''] wit_deps ^^ 2) [] [''b'', ''a''] \<and>
   card (open_units [''a'', ''b'', ''c''] []) = 2 + card (open_units [''a'', ''b'', ''c''] [''b'', ''a'']) \<and>
   (\<exists>u. dag_step [''a'', ''b'', ''c''] wit_deps [''b'', ''a''] (u # [''b'', ''a''])) \<and>
   ''b'' \<in> set (Stalled [''a'', ''b'', ''c''] wit_deps (NewMarkerSet [] [''a''] [])) \<and>
   (\<exists>p\<in>set [''a'', ''b'', ''c'']. (p, ''b'') \<in> (dag_edges [''a'', ''b'', ''c''] wit_deps)\<^sup>+ \<and>
      DeriveStatus p (NewMarkerSet [] [''a''] []) = StatusBlocked)"
proof -
  have "dag_edges [''a'', ''b'', ''c''] wit_deps \<subseteq> measure (\<lambda>u. if u = ''a'' then 0 else if u = ''b'' then 1 else 2)"
    by (auto simp: dag_edges_def wit_deps_def split: if_splits)
  then have "acyclic (dag_edges [''a'', ''b'', ''c''] wit_deps)"
    using wf_acyclic wf_measure wf_subset by blast
  then have sound: "sound_plan [''a'', ''b'', ''c''] wit_deps" by (auto simp: sound_plan_def wit_deps_def)
  have "dag_step [''a'', ''b'', ''c''] wit_deps [] [''a'']" "dag_step [''a'', ''b'', ''c''] wit_deps [''a''] [''b'', ''a'']"
    by (auto intro!: completes simp: SelectDispatchable_set completed_status wit_deps_def)
  then have run: "(dag_step [''a'', ''b'', ''c''] wit_deps ^^ 2) [] [''b'', ''a'']"
    by (auto simp: numeral_2_eq_2)
  have "''b'' \<in> set (Stalled [''a'', ''b'', ''c''] wit_deps (NewMarkerSet [] [''a''] []))"
    by (auto simp: Stalled_set SelectDispatchable_set DeriveStatus_def NewMarkerSet_def toSet_def wit_deps_def)
  with gateddag_acyclic_plan_completes[OF sound, of "NewMarkerSet [] [''a''] []" "[]" 2 "[''b'', ''a'']"] run
  show ?thesis by (auto simp: open_units_def)
qed

end
