(* ===== verification/Watermark.thy ===== *)
theory Watermark
  imports Prelude "HOL-Library.Word"
begin

text \<open>
  The revision-lag watermark (\<open>pkg/revlag/watermark.go\<close>): delivered revisions are observed, their
  processing completes per key and out of order, and \<open>Indexed\<close> is the highest revision below which
  nothing is in flight.  Revisions keep their 64 bits.  The Go map of in-flight revisions is an
  association list with distinct keys.  The lemmas show, for every interleaving of observations in
  ascending revision order with completions, that the floor is sound and monotone and that the
  reported commit time is never newer than the floor.
\<close>

type_synonym rev = "64 word"

record inflight =
  if_key :: string
  if_commitAt :: time

record Watermark =
  wm_observedHigh :: rev
  wm_observedHighAt :: time
  wm_pending :: "(rev \<times> inflight) list"
  wm_coveredRev :: rev
  wm_coveredAt :: time

definition New :: Watermark where
  "New = \<lparr>wm_observedHigh = 0, wm_observedHighAt = 0, wm_pending = [], wm_coveredRev = 0, wm_coveredAt = 0\<rparr>"

definition Observe :: "rev \<Rightarrow> string \<Rightarrow> time \<Rightarrow> Watermark \<Rightarrow> Watermark" where
  "Observe r key commitAt w =
     (if r = 0 then w
      else let w = (if r > wm_observedHigh w
                    then w\<lparr>wm_observedHigh := r, wm_observedHighAt := commitAt\<rparr> else w)
           in w\<lparr>wm_pending := (r, \<lparr>if_key = key, if_commitAt = commitAt\<rparr>) #
                 filter (\<lambda>p. fst p \<noteq> r) (wm_pending w)\<rparr>)"

fun minRev :: "rev \<Rightarrow> rev list \<Rightarrow> rev" where
  "minRev m [] = m"
| "minRev m (r # rs) = minRev (if r < m then r else m) rs"

definition indexedLocked :: "Watermark \<Rightarrow> rev" where
  "indexedLocked w =
     (if wm_pending w = [] then wm_observedHigh w else minRev (- 1) (map fst (wm_pending w)) - 1)"

fun advanceLoop :: "rev \<Rightarrow> (rev \<times> time) list \<Rightarrow> Watermark \<Rightarrow> Watermark" where
  "advanceLoop flr [] w = w"
| "advanceLoop flr ((r, t) # ds) w =
     advanceLoop flr ds
       (if r \<le> flr \<and> r > wm_coveredRev w then w\<lparr>wm_coveredRev := r, wm_coveredAt := t\<rparr> else w)"

definition advanceCoveredLocked :: "(rev \<times> time) list \<Rightarrow> Watermark \<Rightarrow> Watermark" where
  "advanceCoveredLocked drained w =
     (if wm_pending w = [] then
        if wm_observedHigh w > wm_coveredRev w
        then w\<lparr>wm_coveredRev := wm_observedHigh w, wm_coveredAt := wm_observedHighAt w\<rparr> else w
      else advanceLoop (indexedLocked w) drained w)"

definition Complete :: "string \<Rightarrow> rev \<Rightarrow> Watermark \<Rightarrow> Watermark" where
  "Complete key rv w =
     (let drained = filter (\<lambda>(r, i). if_key i = key \<and> r \<le> rv) (wm_pending w) in
      if drained = [] then w
      else advanceCoveredLocked (map (\<lambda>(r, i). (r, if_commitAt i)) drained)
             (w\<lparr>wm_pending := filter (\<lambda>(r, i). \<not> (if_key i = key \<and> r \<le> rv)) (wm_pending w)\<rparr>))"

definition Indexed :: "Watermark \<Rightarrow> rev" where
  "Indexed w = indexedLocked w"

definition Observed :: "Watermark \<Rightarrow> rev" where
  "Observed w = wm_observedHigh w"

definition IndexedAt :: "Watermark \<Rightarrow> rev \<times> time" where
  "IndexedAt w = (indexedLocked w, wm_coveredAt w)"

subsection \<open>Runs\<close>

datatype wm_event = EObserve rev string time | EComplete string rev

fun wm_step :: "wm_event \<Rightarrow> Watermark \<Rightarrow> Watermark" where
  "wm_step (EObserve r k t) w = Observe r k t w"
| "wm_step (EComplete k r) w = Complete k r w"

definition wm_run :: "wm_event list \<Rightarrow> Watermark" where
  "wm_run evs = fold wm_step evs New"

fun delivered :: "wm_event list \<Rightarrow> (rev \<times> string \<times> time) list" where
  "delivered [] = []"
| "delivered (EObserve r k t # evs) = (r, k, t) # delivered evs"
| "delivered (EComplete k r # evs) = delivered evs"

text \<open>Delivery is ascending and starts at revision 1.\<close>

definition ascending :: "wm_event list \<Rightarrow> bool" where
  "ascending evs \<longleftrightarrow> sorted_wrt (<) (0 # map fst (delivered evs))"

text \<open>Revision \<open>r\<close> of \<open>k\<close> was completed after it was observed.\<close>

definition completed :: "wm_event list \<Rightarrow> rev \<Rightarrow> string \<Rightarrow> bool" where
  "completed evs r k \<longleftrightarrow>
     (\<exists>pre t post rv. evs = pre @ EObserve r k t # post \<and> EComplete k rv \<in> set post \<and> r \<le> rv)"

lemma delivered_append [simp]: "delivered (xs @ ys) = delivered xs @ delivered ys"
  by (induction xs rule: delivered.induct) auto

lemma wm_run_Nil [simp]: "wm_run [] = New"
  by (simp add: wm_run_def)

lemma wm_run_snoc [simp]: "wm_run (evs @ [e]) = wm_step e (wm_run evs)"
  by (simp add: wm_run_def)

lemma ascending_snoc_Observe:
  "ascending (evs @ [EObserve r k t]) \<longleftrightarrow> ascending evs \<and> 0 < r \<and> (\<forall>x\<in>set (delivered evs). fst x < r)"
  by (auto simp: ascending_def sorted_wrt_append)

lemma ascending_snoc_Complete: "ascending (evs @ [EComplete k r]) \<longleftrightarrow> ascending evs"
  by (simp add: ascending_def)

lemma completed_mono: "completed evs r k \<Longrightarrow> completed (evs @ es) r k"
proof -
  assume "completed evs r k"
  then obtain pre t post rv where "evs = pre @ EObserve r k t # post" "EComplete k rv \<in> set post" "r \<le> rv"
    by (auto simp: completed_def)
  then show ?thesis unfolding completed_def
    by (intro exI[of _ pre] exI[of _ t] exI[of _ "post @ es"] exI[of _ rv]) simp
qed

lemma delivered_split: "(r, k, t) \<in> set (delivered evs) \<Longrightarrow> \<exists>pre post. evs = pre @ EObserve r k t # post"
proof (induction evs rule: delivered.induct)
  case (2 r' k' t' evs)
  show ?case
  proof (cases "(r, k, t) = (r', k', t')")
    case True
    then show ?thesis by (intro exI[of _ "[]"] exI[of _ evs]) simp
  next
    case False
    with 2 obtain pre post where "evs = pre @ EObserve r k t # post" by auto
    then show ?thesis by (intro exI[of _ "EObserve r' k' t' # pre"] exI[of _ post]) simp
  qed
next
  case (3 k' r' evs)
  then obtain pre post where "evs = pre @ EObserve r k t # post" by auto
  then show ?case by (intro exI[of _ "EComplete k' r' # pre"] exI[of _ post]) simp
qed simp

lemma completed_now: "(r, k, t) \<in> set (delivered evs) \<Longrightarrow> r \<le> rv \<Longrightarrow> completed (evs @ [EComplete k rv]) r k"
proof -
  assume a: "(r, k, t) \<in> set (delivered evs)" "r \<le> rv"
  from delivered_split[OF a(1)] obtain pre post where "evs = pre @ EObserve r k t # post" by blast
  with a(2) show ?thesis unfolding completed_def
    by (intro exI[of _ pre] exI[of _ t] exI[of _ "post @ [EComplete k rv]"] exI[of _ rv]) simp
qed

subsection \<open>The floor\<close>

lemma minRev_le: "r \<in> set rs \<Longrightarrow> minRev m rs \<le> r" and minRev_le_init: "minRev m rs \<le> m"
proof (induction rs arbitrary: m)
  case (Cons a rs)
  { case 1
    then show ?case using Cons.IH(1)[of "if a < m then a else m"] Cons.IH(2)[of "if a < m then a else m"]
      by (auto split: if_splits) }
  { case 2
    show ?case using Cons.IH(2)[of "if a < m then a else m"] by (auto split: if_splits) }
qed auto

lemma minRev_in: "minRev m rs = m \<or> minRev m rs \<in> set rs"
proof (induction rs arbitrary: m)
  case (Cons a rs)
  show ?case using Cons.IH[of "if a < m then a else m"] by (auto split: if_splits)
qed simp

lemma minRev_mem: "rs \<noteq> [] \<Longrightarrow> minRev (- 1) rs \<in> set rs"
proof -
  assume "rs \<noteq> []"
  then obtain r where r: "r \<in> set rs" by (cases rs) auto
  show ?thesis
  proof (cases "minRev (- 1) rs \<in> set rs")
    case False
    then have "minRev (- 1) rs = - 1" using minRev_in by blast
    with minRev_le[OF r, of "- 1"] have "r = - 1" by (simp add: word_order.extremum_unique)
    with r \<open>minRev (- 1) rs = - 1\<close> show ?thesis by simp
  qed
qed

lemma le_pred_iff: "0 < m \<Longrightarrow> r \<le> m - 1 \<longleftrightarrow> r < (m :: rev)"
  by unat_arith

text \<open>What the floor means when nothing pending is revision 0.\<close>

lemma indexed_le_iff:
  assumes "\<forall>p\<in>set (wm_pending w). 0 < fst p"
  shows "r \<le> indexedLocked w \<longleftrightarrow>
    (if wm_pending w = [] then r \<le> wm_observedHigh w else \<forall>p\<in>set (wm_pending w). r < fst p)"
proof (cases "wm_pending w = []")
  case False
  let ?rs = "map fst (wm_pending w)"
  have mem: "minRev (- 1) ?rs \<in> set ?rs" using minRev_mem[of ?rs] False by simp
  then have pos: "0 < minRev (- 1) ?rs" using assms by auto
  have "(\<forall>p\<in>set (wm_pending w). r < fst p) \<longleftrightarrow> r < minRev (- 1) ?rs"
    using mem minRev_le[of _ ?rs "- 1"] by (auto intro: order_less_le_trans)
  then show ?thesis using False by (simp add: indexedLocked_def le_pred_iff[OF pos])
qed (simp add: indexedLocked_def)

subsection \<open>The invariant\<close>

definition wm_inv :: "wm_event list \<Rightarrow> Watermark \<Rightarrow> bool" where
  "wm_inv evs w \<longleftrightarrow>
     (\<forall>p\<in>set (wm_pending w). 0 < fst p \<and> (fst p, if_key (snd p), if_commitAt (snd p)) \<in> set (delivered evs)) \<and>
     (\<forall>r k t. (r, k, t) \<in> set (delivered evs) \<longrightarrow> r \<le> wm_observedHigh w \<and> (r \<in> fst ` set (wm_pending w) \<or> completed evs r k)) \<and>
     (wm_observedHigh w = 0 \<and> wm_observedHighAt w = 0 \<or> (\<exists>k. (wm_observedHigh w, k, wm_observedHighAt w) \<in> set (delivered evs))) \<and>
     wm_coveredRev w \<le> indexedLocked w \<and>
     (wm_coveredRev w = 0 \<and> wm_coveredAt w = 0 \<or> (\<exists>k. (wm_coveredRev w, k, wm_coveredAt w) \<in> set (delivered evs)))"

lemma wm_invD:
  assumes "wm_inv evs w"
  shows "p \<in> set (wm_pending w) \<Longrightarrow> 0 < fst p"
    "p \<in> set (wm_pending w) \<Longrightarrow> (fst p, if_key (snd p), if_commitAt (snd p)) \<in> set (delivered evs)"
    "(r, k, t) \<in> set (delivered evs) \<Longrightarrow> r \<le> wm_observedHigh w"
    "(r, k, t) \<in> set (delivered evs) \<Longrightarrow> r \<in> fst ` set (wm_pending w) \<or> completed evs r k"
    "wm_observedHigh w = 0 \<and> wm_observedHighAt w = 0 \<or> (\<exists>k. (wm_observedHigh w, k, wm_observedHighAt w) \<in> set (delivered evs))"
    "wm_coveredRev w \<le> indexedLocked w"
    "wm_coveredRev w = 0 \<and> wm_coveredAt w = 0 \<or> (\<exists>k. (wm_coveredRev w, k, wm_coveredAt w) \<in> set (delivered evs))"
  using assms unfolding wm_inv_def by blast+

lemma wm_invI:
  assumes "\<And>p. p \<in> set (wm_pending w) \<Longrightarrow> 0 < fst p"
    "\<And>p. p \<in> set (wm_pending w) \<Longrightarrow> (fst p, if_key (snd p), if_commitAt (snd p)) \<in> set (delivered evs)"
    "\<And>r k t. (r, k, t) \<in> set (delivered evs) \<Longrightarrow> r \<le> wm_observedHigh w"
    "\<And>r k t. (r, k, t) \<in> set (delivered evs) \<Longrightarrow> r \<in> fst ` set (wm_pending w) \<or> completed evs r k"
    "wm_observedHigh w = 0 \<and> wm_observedHighAt w = 0 \<or> (\<exists>k. (wm_observedHigh w, k, wm_observedHighAt w) \<in> set (delivered evs))"
    "wm_coveredRev w \<le> indexedLocked w"
    "wm_coveredRev w = 0 \<and> wm_coveredAt w = 0 \<or> (\<exists>k. (wm_coveredRev w, k, wm_coveredAt w) \<in> set (delivered evs))"
  shows "wm_inv evs w"
  using assms unfolding wm_inv_def by blast+

lemma indexed_le:
  assumes "wm_inv evs w"
  shows "r \<le> indexedLocked w \<longleftrightarrow>
    (if wm_pending w = [] then r \<le> wm_observedHigh w else \<forall>p\<in>set (wm_pending w). r < fst p)"
  using indexed_le_iff wm_invD(1)[OF assms] by blast

lemma pending_le_high: "wm_inv evs w \<Longrightarrow> p \<in> set (wm_pending w) \<Longrightarrow> fst p \<le> wm_observedHigh w"
  using wm_invD(2,3) by blast

lemma indexed_le_high: "wm_inv evs w \<Longrightarrow> indexedLocked w \<le> wm_observedHigh w"
proof -
  assume inv: "wm_inv evs w"
  show ?thesis
  proof (cases "wm_pending w = []")
    case False
    then obtain p where "p \<in> set (wm_pending w)" by (cases "wm_pending w") auto
    with indexed_le[OF inv, of "indexedLocked w"] pending_le_high[OF inv] False show ?thesis
      by (meson order.trans order_less_imp_le order_refl)
  qed (simp add: indexedLocked_def)
qed

lemma advanceLoop_frame:
  "wm_pending (advanceLoop l ds w) = wm_pending w"
  "wm_observedHigh (advanceLoop l ds w) = wm_observedHigh w"
  "wm_observedHighAt (advanceLoop l ds w) = wm_observedHighAt w"
  by (induction l ds w rule: advanceLoop.induct) auto

lemma advanceLoop_covered:
  "(wm_coveredRev (advanceLoop l ds w), wm_coveredAt (advanceLoop l ds w)) = (wm_coveredRev w, wm_coveredAt w) \<or>
   (wm_coveredRev (advanceLoop l ds w), wm_coveredAt (advanceLoop l ds w)) \<in> set ds \<and>
   wm_coveredRev (advanceLoop l ds w) \<le> l"
  by (induction l ds w rule: advanceLoop.induct) (auto split: if_splits)

lemma advance_frame:
  "wm_pending (advanceCoveredLocked ds w) = wm_pending w"
  "wm_observedHigh (advanceCoveredLocked ds w) = wm_observedHigh w"
  "wm_observedHighAt (advanceCoveredLocked ds w) = wm_observedHighAt w"
  "indexedLocked (advanceCoveredLocked ds w) = indexedLocked w"
  by (simp_all add: advanceCoveredLocked_def advanceLoop_frame indexedLocked_def)

lemma advance_covered:
  "(wm_coveredRev (advanceCoveredLocked ds w), wm_coveredAt (advanceCoveredLocked ds w)) \<in>
     {(wm_coveredRev w, wm_coveredAt w)} \<union> {(r, t). (r, t) \<in> set ds \<and> r \<le> indexedLocked w} \<union>
     (if wm_pending w = [] then {(wm_observedHigh w, wm_observedHighAt w)} else {})"
  using advanceLoop_covered[of "indexedLocked w" ds w] by (auto simp: advanceCoveredLocked_def)

lemma delivered_rev_unique:
  assumes "ascending evs" "(r, k, t) \<in> set (delivered evs)" "(r, k', t') \<in> set (delivered evs)"
  shows "k = k'" "t = t'"
proof -
  have "distinct (map fst (delivered evs))"
    using assms(1) by (auto simp: ascending_def strict_sorted_iff)
  with assms(2,3) have "(r, k, t) = (r, k', t')" by (metis (no_types, lifting) distinct_map fst_conv inj_onD)
  then show "k = k'" "t = t'" by auto
qed

lemma Observe_inv:
  assumes inv: "wm_inv evs w" and new: "0 < r" "wm_observedHigh w < r"
  shows "wm_inv (evs @ [EObserve r k t]) (Observe r k t w) \<and> indexedLocked w \<le> indexedLocked (Observe r k t w)"
proof -
  let ?w = "Observe r k t w"
  have fresh: "p \<in> set (wm_pending w) \<Longrightarrow> fst p \<noteq> r" for p using pending_le_high[OF inv] new by fastforce
  have w: "wm_pending ?w = (r, \<lparr>if_key = k, if_commitAt = t\<rparr>) # wm_pending w"
    "wm_observedHigh ?w = r" "wm_observedHighAt ?w = t" "wm_coveredRev ?w = wm_coveredRev w" "wm_coveredAt ?w = wm_coveredAt w"
    using new fresh by (auto simp: Observe_def filter_id_conv)
  have pos: "\<forall>p\<in>set (wm_pending ?w). 0 < fst p" using wm_invD(1)[OF inv] new by (auto simp: w)
  have "indexedLocked w < r" using indexed_le_high[OF inv] new by simp
  moreover have "indexedLocked w < fst p" if "p \<in> set (wm_pending w)" for p
    using indexed_le[OF inv, of "indexedLocked w"] that by (auto split: if_splits)
  ultimately have mono: "indexedLocked w \<le> indexedLocked ?w"
    using indexed_le_iff[OF pos] by (auto simp: w)
  have cov: "wm_coveredRev w \<le> indexedLocked ?w" using wm_invD(6)[OF inv] mono by simp
  have "wm_inv (evs @ [EObserve r k t]) ?w"
  proof (rule wm_invI)
    fix p assume "p \<in> set (wm_pending ?w)"
    then show "0 < fst p" using pos by blast
  next
    fix p assume "p \<in> set (wm_pending ?w)"
    then show "(fst p, if_key (snd p), if_commitAt (snd p)) \<in> set (delivered (evs @ [EObserve r k t]))"
      using wm_invD(2)[OF inv] by (auto simp: w)
  next
    fix r' k' t' assume d: "(r', k', t') \<in> set (delivered (evs @ [EObserve r k t]))"
    then show "r' \<le> wm_observedHigh ?w" using wm_invD(3)[OF inv, of r' k' t'] new by (auto simp: w)
    show "r' \<in> fst ` set (wm_pending ?w) \<or> completed (evs @ [EObserve r k t]) r' k'"
      using d wm_invD(4)[OF inv, of r' k' t'] completed_mono[of evs r' k' "[EObserve r k t]"] by (auto simp: w)
  qed (use cov wm_invD(7)[OF inv] in \<open>auto simp: w\<close>)
  with mono show ?thesis by blast
qed

lemma Complete_inv:
  assumes inv: "wm_inv evs w" and asc: "ascending evs"
  shows "wm_inv (evs @ [EComplete k rv]) (Complete k rv w) \<and> indexedLocked w \<le> indexedLocked (Complete k rv w)"
proof (cases "filter (\<lambda>(r, i). if_key i = k \<and> r \<le> rv) (wm_pending w) = []")
  case True
  then have w: "Complete k rv w = w" by (simp add: Complete_def)
  have "wm_inv (evs @ [EComplete k rv]) w"
    using inv completed_mono[of evs _ _ "[EComplete k rv]"] unfolding wm_inv_def
    by (simp del: split_paired_All) blast
  then show ?thesis by (simp add: w)
next
  case False
  define ds where "ds = filter (\<lambda>(r, i). if_key i = k \<and> r \<le> rv) (wm_pending w)"
  define w1 where "w1 = w\<lparr>wm_pending := filter (\<lambda>(r, i). \<not> (if_key i = k \<and> r \<le> rv)) (wm_pending w)\<rparr>"
  let ?ts = "map (\<lambda>(r, i). (r, if_commitAt i)) ds"
  have w: "Complete k rv w = advanceCoveredLocked ?ts w1"
    using False by (simp add: Complete_def ds_def w1_def Let_def)
  have sub: "set (wm_pending w1) \<subseteq> set (wm_pending w)" by (auto simp: w1_def)
  have pos: "\<forall>p\<in>set (wm_pending w1). 0 < fst p" using sub wm_invD(1)[OF inv] by blast
  have oh: "wm_observedHigh w1 = wm_observedHigh w" "wm_observedHighAt w1 = wm_observedHighAt w"
    "wm_coveredRev w1 = wm_coveredRev w" "wm_coveredAt w1 = wm_coveredAt w"
    by (simp_all add: w1_def)
  have below: "indexedLocked w < fst p" if "p \<in> set (wm_pending w)" for p
    using indexed_le[OF inv, of "indexedLocked w"] that by (auto split: if_splits)
  have mono: "indexedLocked w \<le> indexedLocked w1"
    unfolding indexed_le_iff[OF pos] using below sub indexed_le_high[OF inv] by (auto simp: oh)
  let ?w = "advanceCoveredLocked ?ts w1"
  have inv': "wm_inv (evs @ [EComplete k rv]) ?w"
  proof (rule wm_invI)
    fix p assume "p \<in> set (wm_pending ?w)"
    then have "p \<in> set (wm_pending w)" using sub by (auto simp: advance_frame)
    then show "0 < fst p" "(fst p, if_key (snd p), if_commitAt (snd p)) \<in> set (delivered (evs @ [EComplete k rv]))"
      using wm_invD(1,2)[OF inv] by auto
  next
    fix r k' t assume "(r, k', t) \<in> set (delivered (evs @ [EComplete k rv]))"
    then have d: "(r, k', t) \<in> set (delivered evs)" by simp
    then show "r \<le> wm_observedHigh ?w" using wm_invD(3)[OF inv] by (simp add: advance_frame oh)
    consider "completed evs r k'" | i where "(r, i) \<in> set (wm_pending w)"
      using wm_invD(4)[OF inv d] by fastforce
    then show "r \<in> fst ` set (wm_pending ?w) \<or> completed (evs @ [EComplete k rv]) r k'"
    proof cases
      case 2
      then have "k' = if_key i" using delivered_rev_unique(1)[OF asc d] wm_invD(2)[OF inv 2] by simp
      then show ?thesis
        using 2 completed_now[OF d, of rv] by (cases "if_key i = k \<and> r \<le> rv") (auto simp: advance_frame w1_def image_iff)
    qed (simp add: completed_mono)
  next
    show "wm_observedHigh ?w = 0 \<and> wm_observedHighAt ?w = 0 \<or> (\<exists>k'. (wm_observedHigh ?w, k', wm_observedHighAt ?w) \<in> set (delivered (evs @ [EComplete k rv])))"
      using wm_invD(5)[OF inv] by (simp add: advance_frame oh)
  next
    have ts: "\<exists>k'. (r, k', t) \<in> set (delivered evs)" if "(r, t) \<in> set ?ts" for r t
      using that wm_invD(2)[OF inv] by (fastforce simp: ds_def)
    let ?c = "(wm_coveredRev ?w, wm_coveredAt ?w)"
    consider "?c = (wm_coveredRev w, wm_coveredAt w)" | "?c \<in> set ?ts"
      | "?c = (wm_observedHigh w, wm_observedHighAt w)"
      using advance_covered[of ?ts w1] by (auto simp only: oh Un_iff mem_Collect_eq case_prod_conv singleton_iff empty_iff split: if_splits)
    then show "wm_coveredRev ?w = 0 \<and> wm_coveredAt ?w = 0 \<or> (\<exists>k'. (wm_coveredRev ?w, k', wm_coveredAt ?w) \<in> set (delivered (evs @ [EComplete k rv])))"
      using wm_invD(5,7)[OF inv] ts by cases (simp_all del: set_map)
    have hi: "wm_pending w1 = [] \<Longrightarrow> wm_observedHigh w1 = indexedLocked w1" by (simp add: indexedLocked_def)
    show "wm_coveredRev ?w \<le> indexedLocked ?w"
      using advance_covered[of ?ts w1] hi wm_invD(6)[OF inv] mono
      by (auto simp: advance_frame w1_def split: if_splits)
  qed
  then show ?thesis using mono by (simp add: w advance_frame)
qed

subsection \<open>Runs keep the invariant\<close>

lemma wm_inv_New: "wm_inv [] New"
  by (simp add: wm_inv_def New_def indexedLocked_def)

lemma wm_step_inv:
  assumes "wm_inv evs w" "ascending (evs @ [e])"
  shows "wm_inv (evs @ [e]) (wm_step e w) \<and> indexedLocked w \<le> indexedLocked (wm_step e w)"
proof (cases e)
  case (EObserve r k t)
  have "wm_observedHigh w < r"
    using assms(2) wm_invD(5)[OF assms(1)] by (auto simp: EObserve ascending_snoc_Observe)
  then show ?thesis
    using Observe_inv[OF assms(1)] assms(2) by (simp add: EObserve ascending_snoc_Observe)
next
  case (EComplete k r)
  then show ?thesis using Complete_inv[OF assms(1)] assms(2) by (simp add: ascending_snoc_Complete)
qed

lemma ascending_snocD: "ascending (evs @ [e]) \<Longrightarrow> ascending evs"
  by (cases e) (simp_all add: ascending_snoc_Observe ascending_snoc_Complete)

lemma wm_run_inv: "ascending evs \<Longrightarrow> wm_inv evs (wm_run evs)"
proof (induction evs rule: rev_induct)
  case (snoc e evs)
  then show ?case using wm_step_inv[of evs "wm_run evs" e] ascending_snocD by simp
qed (simp add: wm_inv_New)

lemma completed_delivered: "completed evs r k \<Longrightarrow> \<exists>t. (r, k, t) \<in> set (delivered evs)"
  by (auto simp: completed_def)

lemma completed_snoc_Observe: "completed (evs @ [EObserve r k t]) r' k' \<longleftrightarrow> completed evs r' k'"
proof
  assume "completed (evs @ [EObserve r k t]) r' k'"
  then obtain pre t' post rv where e: "evs @ [EObserve r k t] = pre @ EObserve r' k' t' # post"
    "EComplete k' rv \<in> set post" "r' \<le> rv" by (auto simp: completed_def)
  then obtain post' where "post = post' @ [EObserve r k t]" "evs = pre @ EObserve r' k' t' # post'"
    by (cases post rule: rev_cases) auto
  with e show "completed evs r' k'" unfolding completed_def
    by (intro exI[of _ pre] exI[of _ t'] exI[of _ post'] exI[of _ rv]) auto
qed (rule completed_mono)

lemma completed_snoc_Complete:
  "completed (evs @ [EComplete k rv]) r' k' \<Longrightarrow> completed evs r' k' \<or> k' = k \<and> r' \<le> rv"
proof -
  assume "completed (evs @ [EComplete k rv]) r' k'"
  then obtain pre t' post v where e: "evs @ [EComplete k rv] = pre @ EObserve r' k' t' # post"
    "EComplete k' v \<in> set post" "r' \<le> v" by (auto simp: completed_def)
  then obtain post' where p: "post = post' @ [EComplete k rv]" "evs = pre @ EObserve r' k' t' # post'"
    by (cases post rule: rev_cases) auto
  show ?thesis
  proof (cases "EComplete k' v \<in> set post'")
    case True
    with p e(3) have "completed evs r' k'" unfolding completed_def
      by (intro exI[of _ pre] exI[of _ t'] exI[of _ post'] exI[of _ v]) auto
    then show ?thesis ..
  qed (use e p in auto)
qed

lemma pending_not_completed:
  "ascending evs \<Longrightarrow> (r, i) \<in> set (wm_pending (wm_run evs)) \<Longrightarrow> \<not> completed evs r (if_key i)"
proof (induction evs rule: rev_induct)
  case Nil
  then show ?case by (simp add: New_def)
next
  case (snoc e evs)
  note asc = ascending_snocD[OF snoc.prems(1)]
  show ?case
  proof (cases e)
    case (EObserve r' k t)
    have "\<not> completed evs r' k" using completed_delivered[of evs r' k] snoc.prems(1)
      by (fastforce simp: EObserve ascending_snoc_Observe)
    then show ?thesis using snoc.prems(2) snoc.IH[OF asc]
      by (auto simp: EObserve completed_snoc_Observe Observe_def Let_def split: if_splits)
  next
    case (EComplete k rv)
    then have "(r, i) \<in> set (wm_pending (wm_run evs)) \<and> \<not> (if_key i = k \<and> r \<le> rv)"
      using snoc.prems(2) by (auto simp: Complete_def Let_def advance_frame filter_empty_conv split: if_splits)
    then show ?thesis using snoc.IH[OF asc] completed_snoc_Complete[of evs k rv r "if_key i"]
      by (auto simp: EComplete)
  qed
qed

subsection \<open>Properties\<close>

text \<open>C7. Exactness of the watermark.  For every interleaving of deliveries in ascending revision order
  with completions, a revision lies at or below the reported floor exactly when it is not above the
  highest delivered revision and every delivered revision up to it has been completed after its
  delivery: no revision in flight is ever reported as indexed and nothing indexed is held back.\<close>

theorem watermark_floor_exact:
  assumes "ascending evs"
  shows "r \<le> Indexed (wm_run evs) \<longleftrightarrow>
    r \<le> Observed (wm_run evs) \<and> (\<forall>r' k t. (r', k, t) \<in> set (delivered evs) \<and> r' \<le> r \<longrightarrow> completed evs r' k)"
    (is "?l \<longleftrightarrow> ?o \<and> ?all")
proof -
  let ?w = "wm_run evs"
  note inv = wm_run_inv[OF assms]
  show ?thesis
  proof
    assume l: ?l
    have "r' \<notin> fst ` set (wm_pending ?w)" if "r' \<le> r" for r'
      using l that indexed_le[OF inv, of r] by (auto simp: Indexed_def split: if_splits)
    then show "?o \<and> ?all"
      using wm_invD(4)[OF inv] order.trans[OF l[unfolded Indexed_def] indexed_le_high[OF inv]]
      unfolding Observed_def by blast
  next
    assume a: "?o \<and> ?all"
    have "r < fst p" if p: "p \<in> set (wm_pending ?w)" for p
      using a wm_invD(2)[OF inv p] pending_not_completed[OF assms, of "fst p" "snd p"] p by (metis linorder_not_less prod.collapse)
    then show ?l using a indexed_le[OF inv, of r] by (simp add: Indexed_def Observed_def)
  qed
qed

lemma watermark_floor_exact_witness:
  "Indexed (wm_run [EObserve 4 ''a'' 10, EObserve 5 ''b'' 20, EObserve 9 ''a'' 30, EComplete ''b'' 5, EComplete ''a'' 4]) = 8 \<and>
   completed [EObserve 4 ''a'' 10, EObserve 5 ''b'' 20, EObserve 9 ''a'' 30, EComplete ''b'' 5, EComplete ''a'' 4] 5 ''b''"
proof -
  let ?evs = "[EObserve 4 ''a'' 10, EObserve 5 ''b'' 20, EObserve 9 ''a'' 30, EComplete ''b'' 5, EComplete ''a'' 4]"
  have i: "Indexed (wm_run ?evs) = 8"
    by (simp add: wm_run_def New_def Observe_def Complete_def Indexed_def indexedLocked_def advanceCoveredLocked_def Let_def)
  have "ascending ?evs" by (simp add: ascending_def)
  from watermark_floor_exact[OF this, of 8] have "completed ?evs 5 ''b''" using i by simp
  with i show ?thesis by blast
qed

text \<open>C36. Along every run with ascending deliveries the floor never moves back, and the commit time
  reported with it is that of a delivered revision at or below the floor, or zero when there is none
  yet: the reported freshness is never newer than what is indexed.\<close>

theorem watermark_monotone_and_honest:
  assumes "ascending (evs @ es)"
  shows "Indexed (wm_run evs) \<le> Indexed (wm_run (evs @ es)) \<and>
    (case IndexedAt (wm_run (evs @ es)) of (flr, tm) \<Rightarrow>
       tm = 0 \<or> (\<exists>r k. (r, k, tm) \<in> set (delivered (evs @ es)) \<and> r \<le> flr))"
proof (rule conjI)
  show "Indexed (wm_run evs) \<le> Indexed (wm_run (evs @ es))" using assms
  proof (induction es rule: rev_induct)
    case (snoc e es)
    then have asc: "ascending ((evs @ es) @ [e])" by simp
    note wm_step_inv[OF wm_run_inv[OF ascending_snocD[OF asc]] asc, THEN conjunct2]
    with snoc.IH[OF ascending_snocD[OF asc]]
    show ?case unfolding Indexed_def append_assoc[symmetric] wm_run_snoc by (rule order.trans)
  qed simp
  show "case IndexedAt (wm_run (evs @ es)) of (flr, tm) \<Rightarrow>
       tm = 0 \<or> (\<exists>r k. (r, k, tm) \<in> set (delivered (evs @ es)) \<and> r \<le> flr)"
    using wm_invD(6,7)[OF wm_run_inv[OF assms]] by (auto simp: IndexedAt_def)
qed

lemma watermark_monotone_and_honest_witness:
  "Indexed (wm_run [EObserve 4 ''a'' 10]) \<le> Indexed (wm_run ([EObserve 4 ''a'' 10] @ [EObserve 5 ''b'' 20, EComplete ''a'' 4]))"
  by (rule watermark_monotone_and_honest[THEN conjunct1]) (simp add: ascending_def)

end
