(* ===== verification/Go_Time.thy ===== *)
theory Go_Time
  imports Go_Float
begin

text \<open>
  The parts of Go's package \<open>time\<close> the program calls: \<open>Duration\<close> arithmetic (\<open>Time.Sub\<close> saturates)
  and \<open>ParseDuration\<close>, digit by digit with its overflow checks and the binary64 arithmetic of the
  fraction.  Durations are nanoseconds; a parse error is \<open>None\<close>.
\<close>

type_synonym duration = int

definition max_duration :: duration where "max_duration = 2 ^ 63 - 1"
definition min_duration :: duration where "min_duration = - (2 ^ 63)"

definition time_sub :: "time \<Rightarrow> time \<Rightarrow> duration" where
  "time_sub t u = max min_duration (min max_duration (t - u))"

definition is_digit :: "char \<Rightarrow> bool" where
  "is_digit c \<longleftrightarrow> CHR ''0'' \<le> c \<and> c \<le> CHR ''9''"

definition digit_val :: "char \<Rightarrow> int" where
  "digit_val c = of_char c - 48"

fun leadingInt :: "int \<Rightarrow> string \<Rightarrow> (int \<times> string) option" where
  "leadingInt x [] = Some (x, [])"
| "leadingInt x (c # s) =
     (if \<not> is_digit c then Some (x, c # s)
      else if x > 2 ^ 63 div 10 then None
      else let x = x * 10 + digit_val c in if x > 2 ^ 63 then None else leadingInt x s)"

fun leadingFraction :: "int \<Rightarrow> rat \<Rightarrow> bool \<Rightarrow> string \<Rightarrow> int \<times> rat \<times> string" where
  "leadingFraction x scale overflow [] = (x, scale, [])"
| "leadingFraction x scale overflow (c # s) =
     (if \<not> is_digit c then (x, scale, c # s)
      else if overflow \<or> x > (2 ^ 63 - 1) div 10 then leadingFraction x scale True s
      else let y = x * 10 + digit_val c in
        if y > 2 ^ 63 then leadingFraction x scale True s
        else leadingFraction y (f64_val (scale * 10)) False s)"

definition unitMap :: "string \<Rightarrow> int option" where
  "unitMap u =
     map_of [(''ns'', 1), (''us'', 1000), ([CHR 0xC2, CHR 0xB5] @ ''s'', 1000), ([CHR 0xCE, CHR 0xBC] @ ''s'', 1000),
       (''ms'', 10 ^ 6), (''s'', 10 ^ 9), (''m'', 60 * 10 ^ 9), (''h'', 3600 * 10 ^ 9)] u"

definition unit_char :: "char \<Rightarrow> bool" where
  "unit_char c \<longleftrightarrow> \<not> (c = CHR ''.'' \<or> is_digit c)"

text \<open>One iteration of the loop: a number with its unit, in nanoseconds, and the rest.\<close>

definition parse_unit :: "string \<Rightarrow> (int \<times> string) option" where
  "parse_unit s0 =
     (if s0 = [] \<or> unit_char (hd s0) then None
      else case leadingInt 0 s0 of None \<Rightarrow> None
      | Some (v, s1) \<Rightarrow>
        (let pre = length s1 \<noteq> length s0;
             (f, scale, s2) = (case s1 of c # r \<Rightarrow> if c = CHR ''.'' then leadingFraction 0 1 False r else (0, 1, s1) | [] \<Rightarrow> (0, 1, s1));
             post = (s1 \<noteq> [] \<and> hd s1 = CHR ''.'' \<and> length s2 \<noteq> length (tl s1))
         in if \<not> pre \<and> \<not> post then None
            else let u = takeWhile unit_char s2; s3 = dropWhile unit_char s2 in
              if u = [] then None
              else case unitMap u of None \<Rightarrow> None
              | Some un \<Rightarrow>
                  if v > 2 ^ 63 div un then None
                  else let v = v * un;
                           v = (if f > 0 then v + \<lfloor>f64_val (f64_of_int f * f64_val (f64_of_int un / scale))\<rfloor> else v)
                       in if v > 2 ^ 63 then None else Some (v, s3)))"

lemma leadingInt_length: "leadingInt x s = Some (v, r) \<Longrightarrow> length r \<le> length s"
  by (induction x s rule: leadingInt.induct) (auto simp: Let_def split: if_splits)

lemma leadingFraction_length: "leadingFraction x sc ov s = (f, sc', r) \<Longrightarrow> length r \<le> length s"
  by (induction x sc ov s rule: leadingFraction.induct) (auto simp: Let_def split: if_splits)

lemma parse_unit_length: "parse_unit s = Some (v, r) \<Longrightarrow> length r < length s"
proof -
  assume a: "parse_unit s = Some (v, r)"
  then obtain v1 s1 where s1: "leadingInt 0 s = Some (v1, s1)"
    by (auto simp: parse_unit_def split: if_splits option.splits)
  obtain f sc s2 where s2: "(case s1 of c # q \<Rightarrow> if c = CHR ''.'' then leadingFraction 0 1 False q else (0, 1, s1) | [] \<Rightarrow> (0, 1, s1)) = (f, sc, s2)"
    using prod_cases3 by blast
  have "length s2 \<le> length s1"
    using s2 leadingFraction_length by (auto split: list.splits if_splits) fastforce
  moreover have "takeWhile unit_char s2 \<noteq> [] \<and> r = dropWhile unit_char s2"
    using a by (auto simp: parse_unit_def s1 s2 Let_def split: if_splits option.splits)
  moreover have "length (takeWhile unit_char s2) + length (dropWhile unit_char s2) = length s2"
    by (metis length_append takeWhile_dropWhile_id)
  ultimately show ?thesis using leadingInt_length[OF s1] by (cases "takeWhile unit_char s2") auto
qed

function parse_units :: "int \<Rightarrow> string \<Rightarrow> int option" where
  "parse_units d s =
     (if s = [] then Some d
      else case parse_unit s of None \<Rightarrow> None
      | Some (v, r) \<Rightarrow> let d = d + v in if d > 2 ^ 63 then None else parse_units d r)"
  by pat_completeness auto
termination
  by (relation "measure (\<lambda>(d, s). length s)") (auto dest: parse_unit_length)

declare parse_units.simps [simp del]

definition ParseDuration :: "string \<Rightarrow> duration option" where
  "ParseDuration s =
     (let neg = (s \<noteq> [] \<and> hd s = CHR ''-'');
          s = (if s \<noteq> [] \<and> (hd s = CHR ''-'' \<or> hd s = CHR ''+'') then tl s else s)
      in if s = ''0'' then Some 0
         else if s = [] then None
         else case parse_units 0 s of None \<Rightarrow> None
         | Some d \<Rightarrow> if neg then Some (- d) else if d > 2 ^ 63 - 1 then None else Some d)"

lemma parse_duration_samples:
  "ParseDuration ''30s'' = Some 30000000000" "ParseDuration ''1m30s'' = Some 90000000000"
  "ParseDuration ''30'' = None" "ParseDuration ''9223372036854775808ns'' = None"
  "ParseDuration ''-9223372036854775808ns'' = Some (- 9223372036854775808)"
  by code_simp+

end
