(* ===== verification/Model_Registry.thy ===== *)
theory Model_Registry
  imports Go_Time Go_Json
begin

text \<open>
  The model registry (\<open>model/registry.go\<close>): endpoint and capability configuration, its validation
  and the resolution of capabilities to endpoints.  Go maps are association lists in iteration
  order, pointers are options, and a nil dereference is \<open>None\<close> (\<open>NilDereference\<close> in
  \<open>Validate\<close>).  A \<open>RegistryReader\<close> value is the record of its methods; the locale
  \<open>capability_reader\<close> is what the package's helper functions rely on, interpreted for validated
  registries.
\<close>

record EndpointConfig =
  ep_Provider :: string
  ep_URL :: string
  ep_Model :: string
  ep_QueryPrefix :: string
  ep_MaxTokens :: int
  ep_MaxOutputTokens :: int
  ep_SupportsTools :: bool
  ep_ToolFormat :: string
  ep_APIKeyEnv :: string
  ep_Options :: "(string \<times> gval) list"
  ep_Stream :: bool
  ep_ReasoningEffort :: string
  ep_InputPricePer1MTokens :: rat
  ep_OutputPricePer1MTokens :: rat
  ep_RequestsPerMinute :: int
  ep_MaxConcurrent :: int
  ep_RequestTimeout :: string
  ep_IdleConnTimeout :: string
  ep_ResponseHeaderTimeout :: string
  ep_DisableKeepAlives :: bool
  ep_WireBackend :: string

record CapabilityConfig =
  cc_Description :: string
  cc_Preferred :: "string list"
  cc_Fallback :: "string list"
  cc_RequiresTools :: bool
  cc_Timeout :: string

record DefaultsConfig =
  df_Model :: string
  df_Capability :: string

record Registry =
  rg_Capabilities :: "(string \<times> CapabilityConfig option) list"
  rg_Endpoints :: "(string \<times> EndpointConfig option) list"
  rg_Defaults :: DefaultsConfig

datatype registry_error =
    NoEndpoints | EndpointNameEmpty | EndpointNameInvalid string | EndpointNil string
  | ModelRequired string | MaxTokensNegative string | MaxOutputTokensNegative string
  | UnknownProvider string string | BadToolFormat string | BadReasoningEffort string
  | InputPriceNegative string | OutputPriceNegative string | BadDuration string string string
  | BadWireBackend string | CapabilityNil string | NoPreferred string
  | PreferredMissing string string | FallbackMissing string string | NoToolCapable string
  | DefaultModelMissing string | DefaultCapabilityMissing string | NilDereference

definition CapabilitySummarization :: string where
  "CapabilitySummarization = ''summarization''"

subsection \<open>Validation\<close>

text \<open>The loop over runes rejects every byte that is not one of the allowed ASCII characters.\<close>

definition endpoint_name_char :: "char \<Rightarrow> bool" where
  "endpoint_name_char c \<longleftrightarrow>
     CHR ''a'' \<le> c \<and> c \<le> CHR ''z'' \<or> CHR ''A'' \<le> c \<and> c \<le> CHR ''Z'' \<or>
     CHR ''0'' \<le> c \<and> c \<le> CHR ''9'' \<or> c = CHR ''-'' \<or> c = CHR ''_''"

definition validateEndpointName :: "string \<Rightarrow> registry_error option" where
  "validateEndpointName name =
     (if name = [] then Some EndpointNameEmpty
      else if list_all endpoint_name_char name then None else Some (EndpointNameInvalid name))"

definition validateDurationField :: "string \<Rightarrow> string \<Rightarrow> string \<Rightarrow> registry_error option" where
  "validateDurationField endpointName field val =
     (if val = [] then None
      else case ParseDuration val of None \<Rightarrow> Some (BadDuration endpointName field val) | Some _ \<Rightarrow> None)"

definition validateEndpoint :: "string \<Rightarrow> EndpointConfig option \<Rightarrow> registry_error option" where
  "validateEndpoint name epp =
     (case validateEndpointName name of Some e \<Rightarrow> Some e | None \<Rightarrow>
      case epp of None \<Rightarrow> Some (EndpointNil name) | Some ep \<Rightarrow>
      if ep_Model ep = [] then Some (ModelRequired name)
      else if ep_MaxTokens ep < 0 then Some (MaxTokensNegative name)
      else if ep_MaxOutputTokens ep < 0 then Some (MaxOutputTokensNegative name)
      else if ep_Provider ep \<noteq> [] \<and>
        \<not> List.member [''anthropic'', ''ollama'', ''openai'', ''openrouter'', ''gemini''] (ep_Provider ep)
      then Some (UnknownProvider name (ep_Provider ep))
      else if ep_ToolFormat ep \<noteq> [] \<and> ep_ToolFormat ep \<noteq> ''anthropic'' \<and> ep_ToolFormat ep \<noteq> ''openai''
      then Some (BadToolFormat name)
      else if ep_ReasoningEffort ep \<noteq> [] \<and>
        \<not> List.member [''none'', ''low'', ''medium'', ''high''] (ep_ReasoningEffort ep)
      then Some (BadReasoningEffort name)
      else if ep_InputPricePer1MTokens ep < 0 then Some (InputPriceNegative name)
      else if ep_OutputPricePer1MTokens ep < 0 then Some (OutputPriceNegative name)
      else case validateDurationField name ''idle_conn_timeout'' (ep_IdleConnTimeout ep) of Some e \<Rightarrow> Some e | None \<Rightarrow>
      case validateDurationField name ''response_header_timeout'' (ep_ResponseHeaderTimeout ep) of Some e \<Rightarrow> Some e | None \<Rightarrow>
      case validateDurationField name ''request_timeout'' (ep_RequestTimeout ep) of Some e \<Rightarrow> Some e | None \<Rightarrow>
      if ep_WireBackend ep \<noteq> [] \<and> ep_WireBackend ep \<noteq> ''sdk'' \<and> ep_WireBackend ep \<noteq> ''wire'' \<and>
         ep_WireBackend ep \<noteq> ''responses''
      then Some (BadWireBackend name) else None)"

text \<open>\<open>ep, ok := r.Endpoints[name]; ok && ep.SupportsTools\<close>.\<close>

definition tool_capable :: "Registry \<Rightarrow> string \<Rightarrow> bool option" where
  "tool_capable r name =
     (case map_of (rg_Endpoints r) name of
        None \<Rightarrow> Some False | Some None \<Rightarrow> None | Some (Some ep) \<Rightarrow> Some (ep_SupportsTools ep))"

fun any_tool_capable :: "Registry \<Rightarrow> string list \<Rightarrow> bool option" where
  "any_tool_capable r [] = Some False"
| "any_tool_capable r (n # ns) =
     (case tool_capable r n of None \<Rightarrow> None | Some True \<Rightarrow> Some True | Some False \<Rightarrow> any_tool_capable r ns)"

definition has_endpoint :: "Registry \<Rightarrow> string \<Rightarrow> bool" where
  "has_endpoint r n = (map_of (rg_Endpoints r) n \<noteq> None)"

definition validateCapability :: "Registry \<Rightarrow> string \<Rightarrow> CapabilityConfig option \<Rightarrow> registry_error option" where
  "validateCapability r name ccp =
     (case ccp of None \<Rightarrow> Some (CapabilityNil name) | Some cc \<Rightarrow>
      if cc_Preferred cc = [] then Some (NoPreferred name)
      else case filter (\<lambda>n. \<not> has_endpoint r n) (cc_Preferred cc) of n # _ \<Rightarrow> Some (PreferredMissing name n) | [] \<Rightarrow>
      case filter (\<lambda>n. \<not> has_endpoint r n) (cc_Fallback cc) of n # _ \<Rightarrow> Some (FallbackMissing name n) | [] \<Rightarrow>
      if cc_RequiresTools cc then
        (case any_tool_capable r (cc_Preferred cc @ cc_Fallback cc) of
           None \<Rightarrow> Some NilDereference | Some True \<Rightarrow> None | Some False \<Rightarrow> Some (NoToolCapable name))
      else None)"

text \<open>\<open>for k, v := range m { if err := f(k, v); err != nil { return err } }\<close>.\<close>

fun first_error :: "('k \<Rightarrow> 'v \<Rightarrow> 'e option) \<Rightarrow> ('k \<times> 'v) list \<Rightarrow> 'e option" where
  "first_error f [] = None"
| "first_error f ((k, v) # m) = (case f k v of Some e \<Rightarrow> Some e | None \<Rightarrow> first_error f m)"

definition Validate :: "Registry \<Rightarrow> registry_error option" where
  "Validate r =
     (if rg_Endpoints r = [] then Some NoEndpoints
      else case first_error validateEndpoint (rg_Endpoints r) of Some e \<Rightarrow> Some e | None \<Rightarrow>
      case first_error (validateCapability r) (rg_Capabilities r) of Some e \<Rightarrow> Some e | None \<Rightarrow>
      if df_Model (rg_Defaults r) \<noteq> [] \<and> \<not> has_endpoint r (df_Model (rg_Defaults r))
      then Some (DefaultModelMissing (df_Model (rg_Defaults r)))
      else if df_Capability (rg_Defaults r) \<noteq> [] \<and> map_of (rg_Capabilities r) (df_Capability (rg_Defaults r)) = None
      then Some (DefaultCapabilityMissing (df_Capability (rg_Defaults r)))
      else None)"

subsection \<open>Resolution\<close>

fun filter_tools :: "Registry \<Rightarrow> string list \<Rightarrow> string list option" where
  "filter_tools r [] = Some []"
| "filter_tools r (n # ns) =
     (case tool_capable r n of None \<Rightarrow> None
      | Some b \<Rightarrow> map_option (\<lambda>ms. if b then n # ms else ms) (filter_tools r ns))"

definition buildChain :: "Registry \<Rightarrow> CapabilityConfig option \<Rightarrow> string list option" where
  "buildChain r ccp =
     (case ccp of None \<Rightarrow> None | Some cc \<Rightarrow>
      let al = cc_Preferred cc @ cc_Fallback cc in
      if \<not> cc_RequiresTools cc then Some al else filter_tools r al)"

definition Resolve :: "Registry \<Rightarrow> string \<Rightarrow> string option" where
  "Resolve r capability =
     (case map_of (rg_Capabilities r) capability of
        None \<Rightarrow> Some (df_Model (rg_Defaults r))
      | Some ccp \<Rightarrow> map_option (\<lambda>ch. if ch = [] then df_Model (rg_Defaults r) else hd ch) (buildChain r ccp))"

definition GetFallbackChain :: "Registry \<Rightarrow> string \<Rightarrow> string list option" where
  "GetFallbackChain r capability =
     (case map_of (rg_Capabilities r) capability of None \<Rightarrow> Some [] | Some ccp \<Rightarrow> buildChain r ccp)"

definition GetEndpoint :: "Registry \<Rightarrow> string \<Rightarrow> EndpointConfig option" where
  "GetEndpoint r name = (case map_of (rg_Endpoints r) name of None \<Rightarrow> None | Some ep \<Rightarrow> ep)"

definition GetCapability :: "Registry \<Rightarrow> string \<Rightarrow> CapabilityConfig option" where
  "GetCapability r name = (case map_of (rg_Capabilities r) name of None \<Rightarrow> None | Some cc \<Rightarrow> cc)"

definition GetDefault :: "Registry \<Rightarrow> string" where
  "GetDefault r = df_Model (rg_Defaults r)"

definition ListCapabilities :: "Registry \<Rightarrow> string list" where
  "ListCapabilities r = sort (map fst (rg_Capabilities r))"

definition ListEndpoints :: "Registry \<Rightarrow> string list" where
  "ListEndpoints r = sort (map fst (rg_Endpoints r))"

text \<open>The loop of \<open>ResolveSummarization\<close> over the sorted endpoint names.\<close>

fun best_endpoint :: "Registry \<Rightarrow> string \<Rightarrow> int \<Rightarrow> string list \<Rightarrow> string option" where
  "best_endpoint r bestName bestTokens [] = Some bestName"
| "best_endpoint r bestName bestTokens (n # ns) =
     (case GetEndpoint r n of None \<Rightarrow> None
      | Some ep \<Rightarrow>
          if ep_MaxTokens ep > bestTokens then best_endpoint r n (ep_MaxTokens ep) ns
          else best_endpoint r bestName bestTokens ns)"

definition ResolveSummarization :: "Registry \<Rightarrow> string option" where
  "ResolveSummarization r =
     (let largest = map_option (\<lambda>b. if b \<noteq> [] then b else df_Model (rg_Defaults r))
            (best_endpoint r [] 0 (ListEndpoints r))
      in if map_of (rg_Capabilities r) CapabilitySummarization \<noteq> None then
           (case Resolve r CapabilitySummarization of
              None \<Rightarrow> None | Some n \<Rightarrow> if n \<noteq> [] then Some n else largest)
         else largest)"

subsection \<open>The functions over a reader\<close>

text \<open>The methods of the interface that the functions below call.\<close>

record RegistryReader =
  rr_Resolve :: "string \<Rightarrow> string option"
  rr_GetEndpoint :: "string \<Rightarrow> EndpointConfig option"
  rr_GetCapability :: "string \<Rightarrow> CapabilityConfig option"

definition registry_reader :: "Registry \<Rightarrow> RegistryReader" where
  "registry_reader r = \<lparr>rr_Resolve = Resolve r, rr_GetEndpoint = GetEndpoint r, rr_GetCapability = GetCapability r\<rparr>"

record ResolvedEndpoint =
  re_URL :: string
  re_Model :: string
  re_APIKey :: string

datatype resolve_error = RegistryRequired string | NoEndpointFor string

text \<open>Results are \<open>None\<close> on a nil dereference; \<open>getenv\<close> stands for the process environment.\<close>

definition ResolveEndpoint ::
    "(string \<Rightarrow> string) \<Rightarrow> RegistryReader option \<Rightarrow> string \<Rightarrow> (resolve_error + ResolvedEndpoint) option" where
  "ResolveEndpoint getenv regp capability =
     (case regp of None \<Rightarrow> Some (Inl (RegistryRequired capability)) | Some reg \<Rightarrow>
      map_option (\<lambda>name.
        case rr_GetEndpoint reg name of None \<Rightarrow> Inl (NoEndpointFor capability)
        | Some ep \<Rightarrow> Inr \<lparr>re_URL = ep_URL ep, re_Model = ep_Model ep,
            re_APIKey = (if ep_APIKeyEnv ep \<noteq> [] then getenv (ep_APIKeyEnv ep) else [])\<rparr>)
        (rr_Resolve reg capability))"

definition ResolveEndpointWithConfig ::
    "(string \<Rightarrow> string) \<Rightarrow> RegistryReader option \<Rightarrow> string \<Rightarrow>
     (resolve_error + ResolvedEndpoint \<times> EndpointConfig option) option" where
  "ResolveEndpointWithConfig getenv regp capability =
     (case ResolveEndpoint getenv regp capability of
        None \<Rightarrow> None
      | Some (Inl e) \<Rightarrow> Some (Inl e)
      | Some (Inr resolved) \<Rightarrow>
          (case regp of None \<Rightarrow> None
           | Some reg \<Rightarrow> map_option (\<lambda>name. Inr (resolved, rr_GetEndpoint reg name)) (rr_Resolve reg capability)))"

definition tryParse :: "string \<Rightarrow> duration option" where
  "tryParse val = (if val = [] then None else ParseDuration val)"

definition ResolveCapabilityTimeout :: "RegistryReader option \<Rightarrow> string \<Rightarrow> duration \<Rightarrow> duration option" where
  "ResolveCapabilityTimeout regp capability defaultTimeout =
     (case regp of None \<Rightarrow> Some defaultTimeout | Some reg \<Rightarrow>
      map_option (\<lambda>name.
        let fromEndpoint = (if name \<noteq> [] then
                              (case rr_GetEndpoint reg name of None \<Rightarrow> None | Some ep \<Rightarrow> tryParse (ep_RequestTimeout ep))
                            else None);
            fromCapability = (case rr_GetCapability reg capability of None \<Rightarrow> None | Some cc \<Rightarrow> tryParse (cc_Timeout cc))
        in case fromEndpoint of Some d \<Rightarrow> d | None \<Rightarrow>
           (case fromCapability of Some d \<Rightarrow> d | None \<Rightarrow> defaultTimeout))
        (rr_Resolve reg capability))"

definition ResolveEndpointName :: "RegistryReader option \<Rightarrow> string \<Rightarrow> string option" where
  "ResolveEndpointName regp name =
     (case regp of None \<Rightarrow> Some name | Some reg \<Rightarrow>
      if name = [] then Some name
      else if rr_GetEndpoint reg name \<noteq> None then Some name
      else if rr_GetCapability reg name \<noteq> None then rr_Resolve reg name
      else Some name)"

definition GetMaxTokens :: "Registry \<Rightarrow> string \<Rightarrow> int option" where
  "GetMaxTokens r name =
     (case ResolveEndpointName (Some (registry_reader r)) name of None \<Rightarrow> None
      | Some n \<Rightarrow> (case map_of (rg_Endpoints r) n of None \<Rightarrow> Some 0 | Some None \<Rightarrow> None | Some (Some ep) \<Rightarrow> Some (ep_MaxTokens ep)))"

subsection \<open>What validation establishes\<close>

lemma first_error_None: "first_error f m = None \<longleftrightarrow> (\<forall>(k, v)\<in>set m. f k v = None)"
  by (induction f m rule: first_error.induct) (auto split: option.splits)

definition registry_valid :: "Registry \<Rightarrow> bool" where
  "registry_valid r \<longleftrightarrow> Validate r = None"

lemma valid_endpoint:
  assumes "registry_valid r" "map_of (rg_Endpoints r) n = Some epp"
  obtains ep where "epp = Some ep" "validateEndpoint n (Some ep) = None"
proof -
  have "first_error validateEndpoint (rg_Endpoints r) = None"
    using assms(1) by (auto simp: registry_valid_def Validate_def split: if_splits option.splits)
  then have "validateEndpoint n epp = None" using map_of_SomeD[OF assms(2)] by (auto simp: first_error_None)
  then show thesis using that by (cases epp) (auto simp: validateEndpoint_def split: option.splits)
qed

lemma valid_GetEndpoint: "registry_valid r \<Longrightarrow> has_endpoint r n \<longleftrightarrow> (\<exists>ep. GetEndpoint r n = Some ep)"
  by (auto simp: has_endpoint_def GetEndpoint_def split: option.splits elim: valid_endpoint)

lemma valid_tool_capable:
  "registry_valid r \<Longrightarrow> tool_capable r n = Some (\<exists>ep. GetEndpoint r n = Some ep \<and> ep_SupportsTools ep)"
  by (auto simp: tool_capable_def GetEndpoint_def split: option.splits elim: valid_endpoint)

lemma valid_filter_tools:
  "registry_valid r \<Longrightarrow> filter_tools r ns = Some (filter (\<lambda>n. \<exists>ep. GetEndpoint r n = Some ep \<and> ep_SupportsTools ep) ns)"
  by (induction ns) (auto simp: valid_tool_capable)

lemma valid_any_tool_capable:
  "registry_valid r \<Longrightarrow> any_tool_capable r ns = Some (\<exists>n\<in>set ns. \<exists>ep. GetEndpoint r n = Some ep \<and> ep_SupportsTools ep)"
  by (induction ns) (auto simp: valid_tool_capable split: bool.splits)

text \<open>The chain of a capability as its documentation describes it.\<close>

definition chain_spec :: "Registry \<Rightarrow> CapabilityConfig \<Rightarrow> string list" where
  "chain_spec r cc =
     filter (\<lambda>n. cc_RequiresTools cc \<longrightarrow> (\<exists>ep. GetEndpoint r n = Some ep \<and> ep_SupportsTools ep))
       (cc_Preferred cc @ cc_Fallback cc)"

lemma valid_buildChain: "registry_valid r \<Longrightarrow> buildChain r (Some cc) = Some (chain_spec r cc)"
  by (simp add: buildChain_def chain_spec_def Let_def valid_filter_tools)

lemma filter_Nil_case: "(case filter P xs of n # _ \<Rightarrow> Some (f n) | [] \<Rightarrow> a) = None \<longleftrightarrow> a = None \<and> (\<forall>x\<in>set xs. \<not> P x)"
proof (cases "filter P xs")
  case (Cons n ns)
  then have "n \<in> set xs \<and> P n" by (metis (no_types, lifting) filter_eq_ConsD in_set_conv_decomp)
  with Cons show ?thesis by auto
qed (auto simp: filter_empty_conv)

lemma valid_capability:
  assumes r: "registry_valid r" and c: "map_of (rg_Capabilities r) c = Some ccp"
  obtains cc where "ccp = Some cc" "chain_spec r cc \<noteq> []" "\<forall>n\<in>set (chain_spec r cc). has_endpoint r n"
proof -
  have "first_error (validateCapability r) (rg_Capabilities r) = None"
    using r by (auto simp: registry_valid_def Validate_def split: if_splits option.splits)
  then have v: "validateCapability r c ccp = None" using map_of_SomeD[OF c] by (auto simp: first_error_None)
  then obtain cc where cc: "ccp = Some cc" by (cases ccp) (auto simp: validateCapability_def)
  have p: "cc_Preferred cc \<noteq> []" "\<forall>n\<in>set (cc_Preferred cc @ cc_Fallback cc). has_endpoint r n"
    "cc_RequiresTools cc \<Longrightarrow> \<exists>n\<in>set (cc_Preferred cc @ cc_Fallback cc). \<exists>ep. GetEndpoint r n = Some ep \<and> ep_SupportsTools ep"
    using v by (auto simp: cc validateCapability_def filter_Nil_case valid_any_tool_capable[OF r] split: if_splits bool.splits)
  show thesis
  proof
    show "chain_spec r cc \<noteq> []"
      using p(1,3) by (cases "cc_RequiresTools cc") (auto simp: chain_spec_def filter_empty_conv)
    show "\<forall>n\<in>set (chain_spec r cc). has_endpoint r n" using p(2) by (auto simp: chain_spec_def)
  qed (rule cc)
qed

lemma valid_Resolve:
  assumes "registry_valid r" "GetCapability r c = Some cc"
  shows "Resolve r c = Some (hd (chain_spec r cc)) \<and> GetFallbackChain r c = Some (chain_spec r cc) \<and>
    chain_spec r cc \<noteq> [] \<and> (\<forall>n\<in>set (chain_spec r cc). \<exists>ep. GetEndpoint r n = Some ep)"
proof -
  have m: "map_of (rg_Capabilities r) c = Some (Some cc)"
    using assms(2) by (simp add: GetCapability_def split: option.splits)
  obtain cc' where c: "Some cc = Some cc'" "chain_spec r cc' \<noteq> []" "\<forall>n\<in>set (chain_spec r cc'). has_endpoint r n"
    by (rule valid_capability[OF assms(1) m])
  then show ?thesis
    by (simp add: Resolve_def GetFallbackChain_def m valid_buildChain[OF assms(1)] valid_GetEndpoint[OF assms(1)])
qed

subsection \<open>The reader contract\<close>

text \<open>What a caller of a \<open>RegistryReader\<close> relies on: a configured capability resolves to a
  configured endpoint.\<close>

locale capability_reader =
  fixes good :: "'r \<Rightarrow> bool" and reader :: "'r \<Rightarrow> RegistryReader"
  assumes capability_resolves:
    "good r \<Longrightarrow> rr_GetCapability (reader r) c \<noteq> None \<Longrightarrow>
     \<exists>n ep. rr_Resolve (reader r) c = Some n \<and> rr_GetEndpoint (reader r) n = Some ep"
begin

lemma endpoint_name_resolves:
  assumes "good r" "name \<noteq> []" "rr_GetEndpoint (reader r) name \<noteq> None \<or> rr_GetCapability (reader r) name \<noteq> None"
  shows "\<exists>n ep. ResolveEndpointName (Some (reader r)) name = Some n \<and> rr_GetEndpoint (reader r) n = Some ep \<and>
    (rr_GetEndpoint (reader r) name \<noteq> None \<longrightarrow> n = name)"
  using assms capability_resolves[OF assms(1), of name]
  by (cases "rr_GetEndpoint (reader r) name") (auto simp: ResolveEndpointName_def)

lemma endpoint_with_config:
  assumes "good r" "rr_GetCapability (reader r) c \<noteq> None"
  shows "\<exists>re ep. ResolveEndpointWithConfig env (Some (reader r)) c = Some (Inr (re, Some ep)) \<and>
    re_URL re = ep_URL ep \<and> re_Model re = ep_Model ep"
  using capability_resolves[OF assms] by (auto simp: ResolveEndpointWithConfig_def ResolveEndpoint_def)

lemma timeout_from_endpoint:
  assumes "good r" "rr_Resolve (reader r) c = Some n" "n \<noteq> []" "rr_GetEndpoint (reader r) n = Some ep"
    "tryParse (ep_RequestTimeout ep) = Some d"
  shows "ResolveCapabilityTimeout (Some (reader r)) c dflt = Some d"
  using assms by (simp add: ResolveCapabilityTimeout_def)

end

interpretation reg: capability_reader registry_valid registry_reader
proof
  fix r c assume "registry_valid r" "rr_GetCapability (registry_reader r) c \<noteq> None"
  then obtain cc where "GetCapability r c = Some cc" by (auto simp: registry_reader_def)
  from valid_Resolve[OF \<open>registry_valid r\<close> this]
  show "\<exists>n ep. rr_Resolve (registry_reader r) c = Some n \<and> rr_GetEndpoint (registry_reader r) n = Some ep"
    by (auto simp: registry_reader_def)
qed

subsection \<open>The largest context window\<close>

text \<open>The first element with the largest score.\<close>

fun argmax_first :: "('a \<Rightarrow> int) \<Rightarrow> 'a \<Rightarrow> 'a list \<Rightarrow> 'a" where
  "argmax_first f x [] = x"
| "argmax_first f x (y # ys) = argmax_first f (if f x < f y then y else x) ys"

lemma argmax_first_split:
  "\<exists>pre post. x # xs = pre @ argmax_first f x xs # post \<and>
     (\<forall>y\<in>set pre. f y < f (argmax_first f x xs)) \<and> (\<forall>y\<in>set post. f y \<le> f (argmax_first f x xs))"
proof (induction f x xs rule: argmax_first.induct)
  case (2 f x y ys)
  let ?z = "if f x < f y then y else x"
  define w where "w = argmax_first f ?z ys"
  obtain pre post where s: "?z # ys = pre @ w # post" "\<forall>u\<in>set pre. f u < f w" "\<forall>u\<in>set post. f u \<le> f w"
    using 2 unfolding w_def by blast
  have "\<exists>pre post. x # y # ys = pre @ w # post \<and> (\<forall>u\<in>set pre. f u < f w) \<and> (\<forall>u\<in>set post. f u \<le> f w)"
  proof (cases "f x < f y")
    case True
    then have "f x < f w" using s by (cases pre) auto
    with True s show ?thesis by (intro exI[of _ "x # pre"] exI[of _ post]) auto
  next
    case False
    show ?thesis
    proof (cases pre)
      case Nil
      with False s show ?thesis by (intro exI[of _ "[]"] exI[of _ "y # post"]) auto
    next
      case (Cons p ps)
      then have "f y < f w" using False s by auto
      with False s Cons show ?thesis by (intro exI[of _ "x # y # ps"] exI[of _ post]) auto
    qed
  qed
  then show ?case by (simp add: w_def)
qed (auto intro: exI[of _ "[]"])

definition tokens :: "Registry \<Rightarrow> string \<Rightarrow> int" where
  "tokens r n = (case GetEndpoint r n of None \<Rightarrow> 0 | Some ep \<Rightarrow> ep_MaxTokens ep)"

lemma best_endpoint_argmax:
  "\<forall>n\<in>set ns. \<exists>ep. GetEndpoint r n = Some ep \<Longrightarrow> t = tokens r b \<Longrightarrow>
   best_endpoint r b t ns = Some (argmax_first (tokens r) b ns)"
proof (induction r b t ns rule: best_endpoint.induct)
  case (2 r b t n ns)
  then obtain ep where ep: "GetEndpoint r n = Some ep" by auto
  have "ep_MaxTokens ep = tokens r n" by (simp add: tokens_def ep)
  then show ?case using 2 ep by (cases "t < ep_MaxTokens ep") simp_all
qed simp

lemma valid_names: "registry_valid r \<Longrightarrow> n \<in> set (ListEndpoints r) \<Longrightarrow> n \<noteq> [] \<and> (\<exists>ep. GetEndpoint r n = Some ep)"
proof -
  assume r: "registry_valid r" and n: "n \<in> set (ListEndpoints r)"
  then obtain epp where m: "map_of (rg_Endpoints r) n = Some epp" by (auto simp: ListEndpoints_def dest: weak_map_of_SomeI)
  obtain ep where "epp = Some ep" "validateEndpoint n (Some ep) = None" by (rule valid_endpoint[OF r m])
  then show ?thesis
    using m by (auto simp: GetEndpoint_def validateEndpoint_def validateEndpointName_def split: if_splits)
qed

lemma tokens_Nil: "registry_valid r \<Longrightarrow> tokens r [] = 0"
proof -
  assume r: "registry_valid r"
  have "GetEndpoint r [] = None"
  proof (rule ccontr)
    assume "GetEndpoint r [] \<noteq> None"
    then have "map_of (rg_Endpoints r) [] \<noteq> None" by (auto simp: GetEndpoint_def split: option.splits)
    then have "[] \<in> set (ListEndpoints r)" by (simp add: ListEndpoints_def map_of_eq_None_iff)
    then show False using valid_names[OF r] by blast
  qed
  then show ?thesis by (simp add: tokens_def)
qed

lemma largest_window:
  assumes r: "registry_valid r"
  shows "\<exists>w. best_endpoint r [] 0 (ListEndpoints r) = Some w \<and>
    (if w = [] then \<forall>n\<in>set (ListEndpoints r). tokens r n \<le> 0
     else 0 < tokens r w \<and> (\<exists>pre post. ListEndpoints r = pre @ w # post \<and>
       (\<forall>n\<in>set pre. tokens r n < tokens r w) \<and> (\<forall>n\<in>set post. tokens r n \<le> tokens r w)))"
proof -
  let ?ns = "ListEndpoints r" and ?w = "argmax_first (tokens r) [] (ListEndpoints r)"
  have b: "best_endpoint r [] 0 ?ns = Some ?w"
    by (rule best_endpoint_argmax) (use valid_names[OF r] tokens_Nil[OF r] in auto)
  obtain pre post where s: "[] # ?ns = pre @ ?w # post" "\<forall>n\<in>set pre. tokens r n < tokens r ?w"
    "\<forall>n\<in>set post. tokens r n \<le> tokens r ?w" using argmax_first_split[of "[]" ?ns "tokens r"] by blast
  show ?thesis
  proof (cases pre)
    case Nil
    then show ?thesis using s b tokens_Nil[OF r] by auto
  next
    case (Cons p ps)
    then have "?ns = ps @ ?w # post" "p = []" using s(1) by auto
    then have "?w \<noteq> []" using valid_names[OF r, of ?w] by (metis in_set_conv_decomp)
    moreover have "0 < tokens r ?w" using s(2) Cons \<open>p = []\<close> tokens_Nil[OF r] by auto
    ultimately show ?thesis using b s Cons \<open>?ns = ps @ ?w # post\<close>
      by (intro exI[of _ ?w]) (simp, intro exI[of _ ps] exI[of _ post], simp)
  qed
qed

subsection \<open>Properties\<close>

definition sample_endpoint :: EndpointConfig where
  "sample_endpoint = \<lparr>ep_Provider = ''openai'', ep_URL = ''http://m'', ep_Model = ''qwen'', ep_QueryPrefix = [],
     ep_MaxTokens = 32768, ep_MaxOutputTokens = 0, ep_SupportsTools = True, ep_ToolFormat = ''openai'',
     ep_APIKeyEnv = ''KEY'', ep_Options = [], ep_Stream = False, ep_ReasoningEffort = ''low'',
     ep_InputPricePer1MTokens = 0, ep_OutputPricePer1MTokens = 1 / 2, ep_RequestsPerMinute = 0, ep_MaxConcurrent = 0,
     ep_RequestTimeout = ''1m30s'', ep_IdleConnTimeout = [], ep_ResponseHeaderTimeout = [],
     ep_DisableKeepAlives = False, ep_WireBackend = ''wire''\<rparr>"

definition sample_registry :: Registry where
  "sample_registry = \<lparr>
     rg_Capabilities = [(''coding'', Some \<lparr>cc_Description = [], cc_Preferred = [''small''], cc_Fallback = [''big'', ''mid''],
        cc_RequiresTools = True, cc_Timeout = []\<rparr>)],
     rg_Endpoints = [(''small'', Some (sample_endpoint\<lparr>ep_SupportsTools := False, ep_MaxTokens := 4096\<rparr>)),
        (''big'', Some sample_endpoint), (''mid'', Some sample_endpoint)],
     rg_Defaults = \<lparr>df_Model = ''small'', df_Capability = []\<rparr>\<rparr>"

lemma sample_registry_valid: "Validate sample_registry = None"
  by code_simp

text \<open>C14. A registry that passes validation resolves every capability.  For a configured capability the
  fallback chain is its preferred endpoints followed by its fallbacks, restricted to tool-capable
  endpoints when the capability requires tools; the chain is not empty, every name on it is a
  configured endpoint, \<open>Resolve\<close> returns its head, and no operation dereferences nil.  Any other name
  resolves to the default model, which is empty or a configured endpoint.\<close>

theorem registry_validated_resolves:
  assumes "Validate r = None"
  shows "case GetCapability r c of
     Some cc \<Rightarrow> (\<exists>ch. GetFallbackChain r c = Some ch \<and> Resolve r c = Some (hd ch) \<and> ch \<noteq> [] \<and>
       ch = filter (\<lambda>n. cc_RequiresTools cc \<longrightarrow> (\<exists>ep. GetEndpoint r n = Some ep \<and> ep_SupportsTools ep))
              (cc_Preferred cc @ cc_Fallback cc) \<and>
       (\<forall>n\<in>set ch. \<exists>ep. GetEndpoint r n = Some ep))
   | None \<Rightarrow> GetFallbackChain r c = Some [] \<and> Resolve r c = Some (GetDefault r) \<and>
       (GetDefault r = [] \<or> (\<exists>ep. GetEndpoint r (GetDefault r) = Some ep))"
proof (cases "GetCapability r c")
  case None
  have v: "registry_valid r" using assms by (simp add: registry_valid_def)
  have m: "map_of (rg_Capabilities r) c = None"
  proof (cases "map_of (rg_Capabilities r) c")
    case (Some ccp)
    from valid_capability[OF v this] None Some show ?thesis by (auto simp: GetCapability_def)
  qed
  have "GetDefault r = [] \<or> has_endpoint r (GetDefault r)"
    using assms by (auto simp: Validate_def GetDefault_def split: if_splits option.splits)
  then show ?thesis using None m valid_GetEndpoint[OF v]
    by (auto simp: GetFallbackChain_def Resolve_def GetDefault_def)
next
  case (Some cc)
  from valid_Resolve[OF _ this] assms show ?thesis using Some
    by (auto simp: registry_valid_def chain_spec_def)
qed

theorem registry_validated_resolves_witness:
  "Resolve sample_registry ''coding'' = Some ''big'' \<and>
   GetFallbackChain sample_registry ''coding'' \<noteq> Some []"
proof -
  have "Resolve sample_registry ''coding'' = Some ''big''" by code_simp
  moreover have "\<exists>cc. GetCapability sample_registry ''coding'' = Some cc"
    by (simp add: GetCapability_def sample_registry_def)
  ultimately show ?thesis
    using registry_validated_resolves[OF sample_registry_valid, of "''coding''"] by (auto split: option.splits)
qed

text \<open>Accounting lookups see the endpoint the call path uses.  In a validated registry
  \<open>ResolveEndpointName\<close> maps an endpoint name to itself and a capability name to the endpoint that
  \<open>Resolve\<close> gives, so \<open>GetMaxTokens\<close> returns that endpoint's window and never a spurious zero;
  any other name is returned unchanged and has window 0.\<close>

theorem registry_accounting_name:
  assumes "Validate r = None" "name \<noteq> []"
  shows "\<exists>n. ResolveEndpointName (Some (registry_reader r)) name = Some n \<and>
    (case GetEndpoint r name of
       Some ep \<Rightarrow> n = name \<and> GetMaxTokens r name = Some (ep_MaxTokens ep)
     | None \<Rightarrow> (case GetCapability r name of
         Some cc \<Rightarrow> Resolve r name = Some n \<and> (\<exists>ep. GetEndpoint r n = Some ep \<and> GetMaxTokens r name = Some (ep_MaxTokens ep))
       | None \<Rightarrow> n = name \<and> GetMaxTokens r name = Some 0))"
proof -
  have v: "registry_valid r" using assms(1) by (simp add: registry_valid_def)
  have mt: "map_of (rg_Endpoints r) n = Some (Some ep)" if "GetEndpoint r n = Some ep" for n ep
    using that by (auto simp: GetEndpoint_def split: option.splits)
  have no: "map_of (rg_Endpoints r) n = None" if "GetEndpoint r n = None" for n
    using valid_GetEndpoint[OF v, of n] that by (auto simp: has_endpoint_def)
  show ?thesis
  proof (cases "GetEndpoint r name = None \<and> GetCapability r name = None")
    case True
    then show ?thesis using assms(2) no by (simp add: ResolveEndpointName_def registry_reader_def GetMaxTokens_def)
  next
    case False
    then obtain n ep where n: "ResolveEndpointName (Some (registry_reader r)) name = Some n" "GetEndpoint r n = Some ep"
      "GetEndpoint r name \<noteq> None \<Longrightarrow> n = name"
      using reg.endpoint_name_resolves[OF v assms(2)] by (auto simp: registry_reader_def)
    moreover have "GetEndpoint r name = None \<Longrightarrow> Resolve r name = Some n"
      using False n(1) assms(2) by (simp add: ResolveEndpointName_def registry_reader_def split: if_splits)
    ultimately show ?thesis using False mt by (auto simp: GetMaxTokens_def split: option.splits)
  qed
qed

theorem registry_accounting_name_witness: "GetMaxTokens sample_registry ''coding'' = Some 32768"
proof -
  have "GetEndpoint sample_registry ''coding'' = None \<and> Resolve sample_registry ''coding'' = Some ''big'' \<and>
    GetEndpoint sample_registry ''big'' = Some sample_endpoint \<and> ep_MaxTokens sample_endpoint = 32768" by code_simp
  moreover have "\<exists>cc. GetCapability sample_registry ''coding'' = Some cc"
    by (simp add: GetCapability_def sample_registry_def)
  ultimately show ?thesis
    using registry_accounting_name[OF sample_registry_valid, of "''coding''"] by auto
qed

text \<open>Without a summarization capability a validated registry summarizes with the endpoint of the
  largest context window, ties going to the alphabetically first name, and with the default model
  when no endpoint declares a window.\<close>

theorem registry_summarization_largest:
  assumes "Validate r = None" "GetCapability r CapabilitySummarization = None"
  shows "\<exists>w. ResolveSummarization r = Some w \<and>
    ((\<exists>pre post. ListEndpoints r = pre @ w # post \<and> 0 < tokens r w \<and>
        (\<forall>n\<in>set pre. tokens r n < tokens r w) \<and> (\<forall>n\<in>set post. tokens r n \<le> tokens r w)) \<or>
     w = GetDefault r \<and> (\<forall>n\<in>set (ListEndpoints r). tokens r n \<le> 0))"
proof -
  have v: "registry_valid r" using assms(1) by (simp add: registry_valid_def)
  have "map_of (rg_Capabilities r) CapabilitySummarization = None"
  proof (cases "map_of (rg_Capabilities r) CapabilitySummarization")
    case (Some ccp)
    from valid_capability[OF v this] assms(2) Some show ?thesis by (auto simp: GetCapability_def)
  qed
  then show ?thesis using largest_window[OF v]
    by (auto simp: ResolveSummarization_def Let_def GetDefault_def split: if_splits)
qed

theorem registry_summarization_largest_witness: "ResolveSummarization sample_registry = Some ''big''"
proof -
  have n: "GetCapability sample_registry CapabilitySummarization = None" "ListEndpoints sample_registry = [''big'', ''mid'', ''small'']"
    "tokens sample_registry ''big'' = 32768" "tokens sample_registry ''mid'' = 32768" "tokens sample_registry ''small'' = 4096"
    by code_simp+
  from registry_summarization_largest[OF sample_registry_valid n(1)] show ?thesis
    by (auto simp: n Cons_eq_append_conv)
qed

end
