(* ===== verification/Breaker.thy ===== *)
theory Breaker
  imports Go_Time
begin

text \<open>
  Endpoint health (\<open>model/health.go\<close>, \<open>model/breaker.go\<close>): the rolling-window circuit breaker and the
  always-healthy policy, both instances of the locale \<open>health_policy\<close>.  The clock is a parameter
  with a state of its own, read exactly where the code calls \<open>cfg.Now\<close>; the mutex makes each method
  one step.  The lemmas relate the incremental window to the history of results and bound the time
  an endpoint stays open.  The threshold is a finite \<open>float64\<close>.
\<close>

datatype EndpointStatus = StatusClosed | StatusOpen | StatusHalfOpen

fun EndpointStatus_String :: "EndpointStatus \<Rightarrow> string" where
  "EndpointStatus_String StatusClosed = ''closed''"
| "EndpointStatus_String StatusOpen = ''open''"
| "EndpointStatus_String StatusHalfOpen = ''half_open''"

datatype ErrorKind =
  ErrorKindNone | ErrorKindTimeout | ErrorKindRateLimit | ErrorKindServerError | ErrorKindNetwork | ErrorKindUnknown

record Result =
  res_Success :: bool
  res_Kind :: ErrorKind
  res_Latency :: duration

record HealthStats =
  hs_Status :: EndpointStatus
  hs_Successes :: int
  hs_Failures :: int
  hs_ErrorRate :: rat
  hs_LastFailure :: time
  hs_LastTransition :: time

text \<open>A clock: every reading may move it on.\<close>

type_synonym 'c clock = "'c \<Rightarrow> time \<times> 'c"

record 'c BreakerConfig =
  bc_WindowSize :: int
  bc_MinRequests :: int
  bc_ErrorRateThreshold :: rat
  bc_Cooldown :: duration
  bc_Now :: "'c clock option"

definition applyDefaults :: "'c clock \<Rightarrow> 'c BreakerConfig \<Rightarrow> 'c BreakerConfig" where
  "applyDefaults timeNow c =
     (let c = (if bc_WindowSize c \<le> 0 then c\<lparr>bc_WindowSize := 20\<rparr> else c);
          c = (if bc_MinRequests c \<le> 0 then c\<lparr>bc_MinRequests := 5\<rparr> else c);
          c = (if bc_MinRequests c > bc_WindowSize c then c\<lparr>bc_MinRequests := bc_WindowSize c\<rparr> else c);
          c = (if bc_ErrorRateThreshold c \<le> 0 \<or> bc_ErrorRateThreshold c > 1
               then c\<lparr>bc_ErrorRateThreshold := 1 / 2\<rparr> else c);
          c = (if bc_Cooldown c \<le> 0 then c\<lparr>bc_Cooldown := 30 * 10 ^ 9\<rparr> else c)
      in if bc_Now c = None then c\<lparr>bc_Now := Some timeNow\<rparr> else c)"

record endpointState =
  es_window :: "bool list"
  es_successes :: int
  es_failures :: int
  es_status :: EndpointStatus
  es_openedAt :: time
  es_lastFailure :: time
  es_lastTransition :: time
  es_probeInFlight :: bool

record 'c RollingWindowBreaker =
  rb_cfg :: "'c BreakerConfig"
  rb_endpoints :: "string \<Rightarrow> endpointState option"
  rb_clock :: 'c

definition NewRollingWindowBreaker :: "'c clock \<Rightarrow> 'c \<Rightarrow> 'c BreakerConfig \<Rightarrow> 'c RollingWindowBreaker" where
  "NewRollingWindowBreaker timeNow c0 cfg =
     \<lparr>rb_cfg = applyDefaults timeNow cfg, rb_endpoints = (\<lambda>_. None), rb_clock = c0\<rparr>"

definition readClock :: "'c BreakerConfig \<Rightarrow> 'c \<Rightarrow> time \<times> 'c" where
  "readClock cfg c = (case bc_Now cfg of Some now \<Rightarrow> now c | None \<Rightarrow> (0, c))"

definition BreakerEndpointStatus ::
    "string \<Rightarrow> 'c RollingWindowBreaker \<Rightarrow> EndpointStatus \<times> 'c RollingWindowBreaker" where
  "BreakerEndpointStatus e b =
     (case rb_endpoints b e of None \<Rightarrow> (StatusClosed, b)
      | Some st \<Rightarrow>
          if es_status st = StatusOpen then
            (let (t1, c1) = readClock (rb_cfg b) (rb_clock b) in
             if time_sub t1 (es_openedAt st) \<ge> bc_Cooldown (rb_cfg b) then
               (let (t2, c2) = readClock (rb_cfg b) c1;
                    st' = st\<lparr>es_status := StatusHalfOpen, es_lastTransition := t2, es_probeInFlight := True\<rparr>
                in (StatusHalfOpen, b\<lparr>rb_endpoints := (rb_endpoints b)(e := Some st'), rb_clock := c2\<rparr>))
             else (es_status st, b\<lparr>rb_clock := c1\<rparr>))
          else (es_status st, b))"

definition BreakerIsHealthy :: "string \<Rightarrow> 'c RollingWindowBreaker \<Rightarrow> bool \<times> 'c RollingWindowBreaker" where
  "BreakerIsHealthy e b = (let (s, b') = BreakerEndpointStatus e b in (s \<noteq> StatusOpen, b'))"

definition failure_rate :: "int \<Rightarrow> int \<Rightarrow> rat" where
  "failure_rate failures tot = f64_val (f64_of_int failures / f64_of_int tot)"

definition BreakerEndpointStats :: "string \<Rightarrow> 'c RollingWindowBreaker \<Rightarrow> HealthStats" where
  "BreakerEndpointStats e b =
     (case rb_endpoints b e of
        None \<Rightarrow> \<lparr>hs_Status = StatusClosed, hs_Successes = 0, hs_Failures = 0, hs_ErrorRate = 0, hs_LastFailure = 0, hs_LastTransition = 0\<rparr>
      | Some st \<Rightarrow>
          let tot = es_successes st + es_failures st in
          \<lparr>hs_Status = es_status st, hs_Successes = es_successes st, hs_Failures = es_failures st,
           hs_ErrorRate = (if tot > 0 then failure_rate (es_failures st) tot else 0),
           hs_LastFailure = es_lastFailure st, hs_LastTransition = es_lastTransition st\<rparr>)"

text \<open>The parts of \<open>RecordResult\<close>: the sliding window, then the transition of the state.\<close>

definition slide_window :: "int \<Rightarrow> bool \<Rightarrow> endpointState \<Rightarrow> endpointState" where
  "slide_window sz success st =
     (let st = (if int (length (es_window st)) = sz then
                  (let oldest = hd (es_window st); st = st\<lparr>es_window := tl (es_window st)\<rparr>
                   in if oldest then st\<lparr>es_successes := es_successes st - 1\<rparr>
                      else st\<lparr>es_failures := es_failures st - 1\<rparr>)
                else st);
          st = st\<lparr>es_window := es_window st @ [success]\<rparr>
      in if success then st\<lparr>es_successes := es_successes st + 1\<rparr>
         else st\<lparr>es_failures := es_failures st + 1\<rparr>)"

definition openEndpoint :: "'c BreakerConfig \<Rightarrow> 'c \<Rightarrow> endpointState \<Rightarrow> endpointState \<times> 'c" where
  "openEndpoint cfg c st =
     (let (t1, c1) = readClock cfg c; (t2, c2) = readClock cfg c1
      in (st\<lparr>es_status := StatusOpen, es_openedAt := t1, es_lastTransition := t2\<rparr>, c2))"

definition recordTransition :: "'c BreakerConfig \<Rightarrow> bool \<Rightarrow> 'c \<Rightarrow> endpointState \<Rightarrow> endpointState \<times> 'c" where
  "recordTransition cfg success c st =
     (case es_status st of
        StatusHalfOpen \<Rightarrow>
          (let st = st\<lparr>es_probeInFlight := False\<rparr> in
           if success then
             (let (t, c1) = readClock cfg c in (st\<lparr>es_status := StatusClosed, es_lastTransition := t\<rparr>, c1))
           else openEndpoint cfg c st)
      | StatusClosed \<Rightarrow>
          (let tot = es_successes st + es_failures st in
           if tot \<ge> bc_MinRequests cfg then
             (if failure_rate (es_failures st) tot > bc_ErrorRateThreshold cfg then openEndpoint cfg c st else (st, c))
           else (st, c))
      | StatusOpen \<Rightarrow> (st, c))"

definition BreakerRecordResult :: "string \<Rightarrow> Result \<Rightarrow> 'c RollingWindowBreaker \<Rightarrow> 'c RollingWindowBreaker" where
  "BreakerRecordResult e result b =
     (let cfg = rb_cfg b;
          (st, c) = (case rb_endpoints b e of Some st \<Rightarrow> (st, rb_clock b)
                     | None \<Rightarrow> (let (t, c) = readClock cfg (rb_clock b) in
                         (\<lparr>es_window = [], es_successes = 0, es_failures = 0, es_status = StatusClosed, es_openedAt = 0,
                           es_lastFailure = 0, es_lastTransition = t, es_probeInFlight = False\<rparr>, c)));
          st = slide_window (bc_WindowSize cfg) (res_Success result) st;
          (st, c) = (if res_Success result then (st, c)
                     else (let (t, c) = readClock cfg c in (st\<lparr>es_lastFailure := t\<rparr>, c)));
          (st, c) = recordTransition cfg (res_Success result) c st
      in b\<lparr>rb_endpoints := (rb_endpoints b)(e := Some st), rb_clock := c\<rparr>)"

subsection \<open>The always-healthy policy\<close>

definition alwaysHealthyIsHealthy :: "string \<Rightarrow> unit \<Rightarrow> bool \<times> unit" where
  "alwaysHealthyIsHealthy e u = (True, u)"

definition alwaysHealthyEndpointStatus :: "string \<Rightarrow> unit \<Rightarrow> EndpointStatus \<times> unit" where
  "alwaysHealthyEndpointStatus e u = (StatusClosed, u)"

definition alwaysHealthyRecordResult :: "string \<Rightarrow> Result \<Rightarrow> unit \<Rightarrow> unit" where
  "alwaysHealthyRecordResult e r u = u"

subsection \<open>Runs\<close>

datatype health_call = CallStatus string | CallHealthy string | CallRecord string Result

fun breaker_call :: "health_call \<Rightarrow> 'c RollingWindowBreaker \<Rightarrow> 'c RollingWindowBreaker" where
  "breaker_call (CallStatus e) b = snd (BreakerEndpointStatus e b)"
| "breaker_call (CallHealthy e) b = snd (BreakerIsHealthy e b)"
| "breaker_call (CallRecord e r) b = BreakerRecordResult e r b"

fun results_of :: "string \<Rightarrow> health_call list \<Rightarrow> bool list" where
  "results_of e [] = []"
| "results_of e (CallRecord e' r # cs) = (if e' = e then res_Success r # results_of e cs else results_of e cs)"
| "results_of e (CallStatus e' # cs) = results_of e cs"
| "results_of e (CallHealthy e' # cs) = results_of e cs"

definition last_n :: "nat \<Rightarrow> 'a list \<Rightarrow> 'a list" where
  "last_n n xs = drop (length xs - n) xs"

subsection \<open>The policy contract\<close>

locale health_policy =
  fixes init :: 's and known :: "string \<Rightarrow> 's \<Rightarrow> bool"
    and isHealthy :: "string \<Rightarrow> 's \<Rightarrow> bool \<times> 's"
    and status :: "string \<Rightarrow> 's \<Rightarrow> EndpointStatus \<times> 's"
    and record_result :: "string \<Rightarrow> Result \<Rightarrow> 's \<Rightarrow> 's"
  assumes healthy_status: "isHealthy e s = (fst (status e s) \<noteq> StatusOpen, snd (status e s))"
    and init_unknown: "\<not> known e init"
    and unknown_closed: "\<not> known e s \<Longrightarrow> fst (status e s) = StatusClosed"
    and status_known: "known e (snd (status e' s)) = known e s"
    and record_known: "known e (record_result e' r s) \<Longrightarrow> e = e' \<or> known e s"
begin

definition run :: "health_call list \<Rightarrow> 's" where
  "run cs = fold (\<lambda>c s. case c of CallStatus e \<Rightarrow> snd (status e s) | CallHealthy e \<Rightarrow> snd (isHealthy e s)
                     | CallRecord e r \<Rightarrow> record_result e r s) cs init"

lemma known_run: "known e (run cs) \<Longrightarrow> results_of e cs \<noteq> []"
proof -
  have "known e (fold (\<lambda>c s. case c of CallStatus e \<Rightarrow> snd (status e s) | CallHealthy e \<Rightarrow> snd (isHealthy e s)
                     | CallRecord e r \<Rightarrow> record_result e r s) cs s) \<Longrightarrow> known e s \<or> results_of e cs \<noteq> []" for s
  proof (induction cs arbitrary: s)
    case (Cons c cs)
    from Cons.IH[OF Cons.prems[simplified]] show ?case
      by (cases c) (auto simp: healthy_status status_known dest: record_known)
  qed simp
  then show "known e (run cs) \<Longrightarrow> results_of e cs \<noteq> []" using init_unknown by (auto simp: run_def)
qed

text \<open>An endpoint without results is healthy, whatever happened to the others.\<close>

lemma unobserved_healthy: "results_of e cs = [] \<Longrightarrow> fst (isHealthy e (run cs))"
  using known_run[of e cs] unknown_closed[of e "run cs"] by (cases "known e (run cs)") (simp_all add: healthy_status)

end

lemma status_endpoints:
  "rb_endpoints (snd (BreakerEndpointStatus e b)) e' = None \<longleftrightarrow> rb_endpoints b e' = None"
  by (auto simp: BreakerEndpointStatus_def Let_def split: option.splits prod.splits)

lemma record_endpoints:
  "rb_endpoints (BreakerRecordResult e r b) e' = None \<longleftrightarrow> e \<noteq> e' \<and> rb_endpoints b e' = None"
  by (auto simp: BreakerRecordResult_def Let_def split: option.splits prod.splits)

interpretation rwb: health_policy "NewRollingWindowBreaker now c0 cfg" "\<lambda>e b. rb_endpoints b e \<noteq> None"
  BreakerIsHealthy BreakerEndpointStatus BreakerRecordResult for now c0 cfg
proof
  show "BreakerIsHealthy e s = (fst (BreakerEndpointStatus e s) \<noteq> StatusOpen, snd (BreakerEndpointStatus e s))" for e and s :: "'a RollingWindowBreaker"
    by (simp add: BreakerIsHealthy_def split: prod.splits)
qed (auto simp: NewRollingWindowBreaker_def status_endpoints record_endpoints, simp add: BreakerEndpointStatus_def)

interpretation ahp: health_policy "()" "\<lambda>e u. False"
  alwaysHealthyIsHealthy alwaysHealthyEndpointStatus alwaysHealthyRecordResult
  by standard (simp_all add: alwaysHealthyIsHealthy_def alwaysHealthyEndpointStatus_def)

subsection \<open>The window\<close>

lemma last_n_snoc: "0 < n \<Longrightarrow> last_n n (xs @ [x]) = (if length (last_n n xs) = n then tl (last_n n xs) else last_n n xs) @ [x]"
  by (cases "n \<le> length xs") (auto simp: last_n_def Suc_diff_le drop_Suc tl_drop)

lemma length_last_n: "length (last_n n xs) = min n (length xs)"
  by (simp add: last_n_def)

definition window_inv :: "int \<Rightarrow> bool list \<Rightarrow> endpointState \<Rightarrow> bool" where
  "window_inv sz rs st \<longleftrightarrow>
     es_window st = last_n (nat sz) rs \<and>
     es_successes st = int (count_list (es_window st) True) \<and>
     es_failures st = int (count_list (es_window st) False)"

lemma count_tl: "xs \<noteq> [] \<Longrightarrow> count_list (tl xs) v = count_list xs v - (if hd xs = v then 1 else 0)"
  by (cases xs) auto

lemma count_hd_pos: "xs \<noteq> [] \<Longrightarrow> hd xs = v \<Longrightarrow> 0 < count_list xs v"
  by (cases xs) auto

lemma slide_window_inv:
  assumes "0 < sz" "window_inv sz rs st"
  shows "window_inv sz (rs @ [success]) (slide_window sz success st)"
proof -
  have ne: "int (length (es_window st)) = sz \<Longrightarrow> es_window st \<noteq> []" using assms(1) by auto
  have len: "int (length (last_n (nat sz) rs)) = sz \<longleftrightarrow> length (last_n (nat sz) rs) = nat sz"
    using assms(1) by auto
  show ?thesis
    using assms ne count_hd_pos[of "es_window st" True] count_hd_pos[of "es_window st" False]
    by (auto simp: window_inv_def slide_window_def Let_def last_n_snoc len count_tl)
qed

lemma slide_window_status [simp]:
  "es_status (slide_window n x st) = es_status st" "es_openedAt (slide_window n x st) = es_openedAt st"
  by (auto simp: slide_window_def Let_def)

lemma recordTransition_window:
  "recordTransition cfg x c st = (st', c') \<Longrightarrow> window_inv n rs st' = window_inv n rs st"
  by (auto simp: recordTransition_def openEndpoint_def window_inv_def Let_def split: EndpointStatus.splits if_splits prod.splits)

definition breaker_run :: "health_call list \<Rightarrow> 'c RollingWindowBreaker \<Rightarrow> 'c RollingWindowBreaker" where
  "breaker_run cs b = fold breaker_call cs b"

lemma results_of_append: "results_of e (xs @ ys) = results_of e xs @ results_of e ys"
  by (induction e xs rule: results_of.induct) auto

lemma call_cfg [simp]: "rb_cfg (breaker_call c b) = rb_cfg b"
  by (cases c) (auto simp: BreakerIsHealthy_def BreakerEndpointStatus_def BreakerRecordResult_def Let_def split: option.splits prod.splits)

lemma run_cfg [simp]: "rb_cfg (breaker_run cs b) = rb_cfg b"
  by (induction cs rule: rev_induct) (simp_all add: breaker_run_def)

text \<open>After any run an endpoint's state is its window over its own results.\<close>

definition windows_ok :: "health_call list \<Rightarrow> 'c RollingWindowBreaker \<Rightarrow> bool" where
  "windows_ok cs b \<longleftrightarrow> (\<forall>e. case rb_endpoints b e of
       None \<Rightarrow> results_of e cs = [] | Some st \<Rightarrow> window_inv (bc_WindowSize (rb_cfg b)) (results_of e cs) st)"

lemma status_windows:
  assumes "windows_ok cs b" "results_of e' cs' = results_of e' cs"
  shows "case rb_endpoints (snd (BreakerEndpointStatus e b)) e' of
       None \<Rightarrow> results_of e' cs' = [] | Some st \<Rightarrow> window_inv (bc_WindowSize (rb_cfg b)) (results_of e' cs') st"
  using spec[OF assms(1)[unfolded windows_ok_def], of e'] assms(2)
  by (auto simp: BreakerEndpointStatus_def window_inv_def Let_def split: option.splits prod.splits)

lemma record_windows:
  assumes "windows_ok cs b" "0 < bc_WindowSize (rb_cfg b)"
  shows "case rb_endpoints (BreakerRecordResult e r b) e' of
       None \<Rightarrow> results_of e' (cs @ [CallRecord e r]) = []
     | Some st \<Rightarrow> window_inv (bc_WindowSize (rb_cfg b)) (results_of e' (cs @ [CallRecord e r])) st"
proof (cases "e' = e")
  case True
  define st0 where "st0 = (case rb_endpoints b e of Some st \<Rightarrow> st | None \<Rightarrow>
     \<lparr>es_window = [], es_successes = 0, es_failures = 0, es_status = StatusClosed, es_openedAt = 0,
      es_lastFailure = 0, es_lastTransition = fst (readClock (rb_cfg b) (rb_clock b)), es_probeInFlight = False\<rparr>)"
  let ?W = "bc_WindowSize (rb_cfg b)"
  have "window_inv ?W (results_of e cs) st0"
    using spec[OF assms(1)[unfolded windows_ok_def], of e]
    by (auto simp: st0_def window_inv_def last_n_def split: option.splits)
  note w = slide_window_inv[OF assms(2) this, of "res_Success r"]
  have lf: "window_inv n rs (st\<lparr>es_lastFailure := t\<rparr>) = window_inv n rs st" for n rs st t by (simp add: window_inv_def)
  show ?thesis using w unfolding True
    by (auto simp: BreakerRecordResult_def Let_def results_of_append st0_def lf split: option.splits prod.splits if_splits
        dest!: recordTransition_window[where n = ?W and rs = "results_of e cs @ [res_Success r]"])
next
  case False
  then show ?thesis using spec[OF assms(1)[unfolded windows_ok_def], of e']
    by (auto simp: BreakerRecordResult_def Let_def results_of_append split: option.splits prod.splits)
qed

lemma call_windows:
  assumes "windows_ok cs b" "0 < bc_WindowSize (rb_cfg b)"
  shows "windows_ok (cs @ [c]) (breaker_call c b)"
  unfolding windows_ok_def call_cfg
proof (intro allI, cases c)
  fix e' e assume "c = CallStatus e"
  then show "case rb_endpoints (breaker_call c b) e' of None \<Rightarrow> results_of e' (cs @ [c]) = []
      | Some st \<Rightarrow> window_inv (bc_WindowSize (rb_cfg b)) (results_of e' (cs @ [c])) st"
    using status_windows[OF assms(1), of e' "cs @ [c]" e] by (simp add: results_of_append)
next
  fix e' e assume "c = CallHealthy e"
  then show "case rb_endpoints (breaker_call c b) e' of None \<Rightarrow> results_of e' (cs @ [c]) = []
      | Some st \<Rightarrow> window_inv (bc_WindowSize (rb_cfg b)) (results_of e' (cs @ [c])) st"
    using status_windows[OF assms(1), of e' "cs @ [c]" e]
    by (simp add: results_of_append rwb.healthy_status)
next
  fix e' e r assume "c = CallRecord e r"
  then show "case rb_endpoints (breaker_call c b) e' of None \<Rightarrow> results_of e' (cs @ [c]) = []
      | Some st \<Rightarrow> window_inv (bc_WindowSize (rb_cfg b)) (results_of e' (cs @ [c])) st"
    using record_windows[OF assms, where e = e and r = r and e' = e'] by (simp split: option.splits)
qed

lemma applyDefaults_pos: "0 < bc_WindowSize (applyDefaults now cfg)"
  by (simp add: applyDefaults_def Let_def)

lemma run_windows: "windows_ok cs (breaker_run cs (NewRollingWindowBreaker now c0 cfg))"
proof (induction cs rule: rev_induct)
  case Nil
  show ?case by (simp add: windows_ok_def breaker_run_def NewRollingWindowBreaker_def)
next
  case (snoc c cs)
  have "rb_cfg (breaker_run cs (NewRollingWindowBreaker now c0 cfg)) = applyDefaults now cfg"
    by (simp add: NewRollingWindowBreaker_def)
  then show ?case using call_windows[OF snoc, of c] applyDefaults_pos[of now cfg] by (simp add: breaker_run_def)
qed

subsection \<open>The failure rate\<close>

lemma failure_rate_half:
  assumes "0 \<le> f" "f \<le> n" "0 < n" "n < 2 ^ 52"
  shows "1 / 2 < failure_rate f n \<longleftrightarrow> n < 2 * f"
proof -
  define x :: rat where "x = of_int f / of_int n"
  have x: "0 \<le> x" "x \<le> 1" using assms by (simp_all add: x_def)
  obtain y where y: "f64_round x = Some y" using f64_round_unit[OF x] by blast
  have fr: "failure_rate f n = y" using assms y by (simp add: failure_rate_def f64_of_int_exact f64_val_def x_def)
  show ?thesis
  proof (cases "n < 2 * f")
    case True
    show ?thesis
    proof (cases "x = 1")
      case True
      with \<open>n < 2 * f\<close> show ?thesis using f64_round_ge_pow2[OF y, of 0] fr by simp
    next
      case False
      have n: "0 < (of_int n :: rat)" using assms(3) by simp
      have "(of_int n :: rat) + 1 \<le> 2 * of_int f" using of_int_le_iff[where 'a = rat, of "n + 1" "2 * f"] True by simp
      then have "(of_int n + 1) / (2 * of_int n) \<le> 2 * of_int f / (2 * of_int n :: rat)"
        using n by (intro divide_right_mono) simp_all
      then have "1 / 2 + 1 / (2 * of_int n) \<le> x" using n by (simp add: x_def add_divide_distrib)
      moreover have "(2 :: rat) powi (-53) \<le> 1 / (2 * of_int n)"
      proof -
        have "(of_int n :: rat) < 2 ^ 52" using of_int_less_iff[where 'a = rat, of n "2 ^ 52"] assms(4) by simp
        then show ?thesis using n by (simp add: power_int_minus field_simps)
      qed
      ultimately have "1 / 2 < y" using f64_round_gt_half[OF y] x(2) False by linarith
      then show ?thesis using True fr by simp
    qed
  next
    case False
    then have "(2 * of_int f :: rat) \<le> of_int n" using of_int_le_iff[where 'a = rat, of "2 * f" n] by simp
    then have "x \<le> 2 powi (-1)" using assms(3) by (simp add: x_def power_int_minus field_simps)
    from f64_round_le_pow2[OF y this] have "y \<le> 1 / 2" by (simp add: power_int_minus)
    then show ?thesis using False fr by simp
  qed
qed

subsection \<open>Properties\<close>

lemma count_bools: "count_list xs True + count_list xs False = length xs"
  by (induction xs) auto

text \<open>C21. The breaker's incremental window is the history.  After any sequence of calls an endpoint has
  state exactly when a result was recorded for it; its window holds the last \<open>WindowSize\<close> results
  recorded for it, oldest first, and the running counters are the numbers of successes and failures
  in that window, whatever was recorded for other endpoints.\<close>

theorem breaker_window_refines_history:
  fixes now :: "'c clock" and c0 :: 'c and cfg :: "'c BreakerConfig" and cs :: "health_call list" and e :: string
  defines "b \<equiv> breaker_run cs (NewRollingWindowBreaker now c0 cfg)"
  defines "w \<equiv> last_n (nat (bc_WindowSize (rb_cfg b))) (results_of e cs)"
  shows "map_option es_window (rb_endpoints b e) = (if results_of e cs = [] then None else Some w) \<and>
    hs_Successes (BreakerEndpointStats e b) = int (count_list w True) \<and>
    hs_Failures (BreakerEndpointStats e b) = int (count_list w False)"
proof -
  have ok: "case rb_endpoints b e of None \<Rightarrow> results_of e cs = []
      | Some st \<Rightarrow> window_inv (bc_WindowSize (rb_cfg b)) (results_of e cs) st"
    using run_windows[of cs now c0 cfg] unfolding windows_ok_def b_def by blast
  have "rb_endpoints b e \<noteq> None \<Longrightarrow> results_of e cs \<noteq> []"
  proof -
    have "breaker_run cs (NewRollingWindowBreaker now c0 cfg) = rwb.run now c0 cfg cs"
      unfolding breaker_run_def rwb.run_def
      by (rule fold_cong) (auto split: health_call.splits)
    then show "rb_endpoints b e \<noteq> None \<Longrightarrow> results_of e cs \<noteq> []"
      using rwb.known_run[where e = e and cs = cs and now = now and ?c0.0 = c0 and cfg = cfg] by (simp add: b_def)
  qed
  then show ?thesis using ok
    by (auto simp: window_inv_def w_def last_n_def BreakerEndpointStats_def Let_def split: option.splits)
qed

text \<open>C38. With the default threshold of one half, a closed endpoint opens on a result exactly when
  its window, after that result, holds at least \<open>MinRequests\<close> results and more failures than
  successes: the \<open>float64\<close> comparison is exact.\<close>

theorem breaker_opens_on_majority:
  fixes now :: "'c clock" and c0 :: 'c and cfg :: "'c BreakerConfig" and cs :: "health_call list"
    and e :: string and r :: Result
  defines "b \<equiv> breaker_run cs (NewRollingWindowBreaker now c0 cfg)"
  defines "w \<equiv> last_n (nat (bc_WindowSize (rb_cfg b))) (results_of e cs @ [res_Success r])"
  assumes "bc_ErrorRateThreshold (rb_cfg b) = 1 / 2" "bc_WindowSize (rb_cfg b) < 2 ^ 52"
    "hs_Status (BreakerEndpointStats e b) = StatusClosed"
  shows "hs_Status (BreakerEndpointStats e (BreakerRecordResult e r b)) =
    (if bc_MinRequests (rb_cfg b) \<le> int (length w) \<and> count_list w True < count_list w False
     then StatusOpen else StatusClosed)"
proof -
  have pos: "0 < bc_WindowSize (rb_cfg b)" by (simp add: b_def NewRollingWindowBreaker_def applyDefaults_pos)
  have ok: "windows_ok (cs @ [CallRecord e r]) (BreakerRecordResult e r b)"
    using call_windows[OF run_windows[of cs now c0 cfg], of "CallRecord e r"] pos by (simp add: b_def)
  obtain st where st: "rb_endpoints (BreakerRecordResult e r b) e = Some st"
    using record_endpoints[of e r b e] by auto
  have cfg: "rb_cfg (BreakerRecordResult e r b) = rb_cfg b" using call_cfg[of "CallRecord e r" b] by simp
  have wi: "es_window st = w" "es_successes st = int (count_list w True)" "es_failures st = int (count_list w False)"
    using spec[OF ok[unfolded windows_ok_def], of e] st cfg by (auto simp: window_inv_def w_def results_of_append)
  have len: "0 < length w" "int (length w) < 2 ^ 52" using pos assms(4) by (auto simp: w_def length_last_n)
  have half: "1 / 2 < failure_rate (int (count_list w False)) (int (length w)) \<longleftrightarrow> count_list w True < count_list w False"
    using failure_rate_half[of "int (count_list w False)" "int (length w)"] len count_bools[of w] by auto
  have "es_status st = (if bc_MinRequests (rb_cfg b) \<le> es_successes st + es_failures st \<and>
      bc_ErrorRateThreshold (rb_cfg b) < failure_rate (es_failures st) (es_successes st + es_failures st)
      then StatusOpen else StatusClosed)"
    using st assms(5)
    by (auto simp: BreakerRecordResult_def BreakerEndpointStats_def recordTransition_def openEndpoint_def Let_def
        split: option.splits prod.splits if_splits)
  then show ?thesis using st half count_bools[of w]
    by (simp add: BreakerEndpointStats_def Let_def wi assms(3) flip: of_nat_add)
qed

text \<open>A clock that is moved by hand and a configuration with the defaults.\<close>

definition fixed_clock :: "int clock" where
  "fixed_clock t = (t, t)"

definition wit_config :: "int BreakerConfig" where
  "wit_config = \<lparr>bc_WindowSize = 4, bc_MinRequests = 3, bc_ErrorRateThreshold = 0, bc_Cooldown = 100, bc_Now = Some fixed_clock\<rparr>"

definition ok_result :: Result where
  "ok_result = \<lparr>res_Success = True, res_Kind = ErrorKindNone, res_Latency = 0\<rparr>"

definition bad_result :: Result where
  "bad_result = \<lparr>res_Success = False, res_Kind = ErrorKindTimeout, res_Latency = 0\<rparr>"

lemmas breaker_eval = breaker_run_def NewRollingWindowBreaker_def applyDefaults_def wit_config_def ok_result_def
  bad_result_def fixed_clock_def readClock_def BreakerRecordResult_def slide_window_def recordTransition_def
  openEndpoint_def BreakerEndpointStatus_def BreakerEndpointStats_def failure_rate_half time_sub_def
  min_duration_def max_duration_def

theorem breaker_opens_on_majority_witness:
  "hs_Status (BreakerEndpointStats ''a'' (BreakerRecordResult ''a'' bad_result
     (breaker_run [CallRecord ''a'' bad_result, CallRecord ''b'' ok_result, CallRecord ''a'' ok_result]
       (NewRollingWindowBreaker fixed_clock 7 wit_config)))) = StatusOpen"
proof -
  let ?cs = "[CallRecord ''a'' bad_result, CallRecord ''b'' ok_result, CallRecord ''a'' ok_result]"
  let ?b = "breaker_run ?cs (NewRollingWindowBreaker fixed_clock 7 wit_config)"
  have cfg: "bc_ErrorRateThreshold (rb_cfg ?b) = 1 / 2" "bc_WindowSize (rb_cfg ?b) = 4" "bc_MinRequests (rb_cfg ?b) = 3"
    by (simp_all add: NewRollingWindowBreaker_def applyDefaults_def wit_config_def)
  have cl: "hs_Status (BreakerEndpointStats ''a'' ?b) = StatusClosed" by (simp add: breaker_eval)
  show ?thesis
    using breaker_opens_on_majority[of ?cs fixed_clock 7 wit_config "''a''" bad_result] cfg cl
    by (simp add: last_n_def ok_result_def bad_result_def)
qed

text \<open>C27. The state machine of an endpoint.  One call changes an endpoint's status only along the
  documented edges: a recorded result opens a closed endpoint, a status read moves an open one to
  half-open and only when a clock reading is at least the cooldown after its opening, and the next
  result recorded in the half-open state closes it on success and reopens it on failure.\<close>

theorem breaker_state_machine:
  assumes "rb_endpoints b e = Some st" "rb_endpoints (breaker_call c b) e = Some st'"
  shows "es_status st' = es_status st \<and> (es_status st = StatusHalfOpen \<longrightarrow> (\<forall>r. c \<noteq> CallRecord e r)) \<or>
    es_status st = StatusClosed \<and> es_status st' = StatusOpen \<and> (\<exists>r. c = CallRecord e r) \<or>
    es_status st = StatusOpen \<and> es_status st' = StatusHalfOpen \<and> c \<in> {CallStatus e, CallHealthy e} \<and>
      bc_Cooldown (rb_cfg b) \<le> time_sub (fst (readClock (rb_cfg b) (rb_clock b))) (es_openedAt st) \<or>
    es_status st = StatusHalfOpen \<and>
      (\<exists>r. c = CallRecord e r \<and> es_status st' = (if res_Success r then StatusClosed else StatusOpen))"
proof (cases c)
  case (CallStatus e')
  then show ?thesis using assms
    by (auto simp: BreakerEndpointStatus_def Let_def split: option.splits prod.splits if_splits)
next
  case (CallHealthy e')
  then show ?thesis using assms
    by (auto simp: rwb.healthy_status BreakerEndpointStatus_def Let_def split: option.splits prod.splits if_splits)
next
  case (CallRecord e' r)
  show ?thesis
  proof (cases "e' = e")
    case True
    then show ?thesis using assms CallRecord
      by (cases "es_status st")
        (auto simp: BreakerRecordResult_def recordTransition_def openEndpoint_def Let_def split: prod.splits if_splits)
  next
    case False
    then show ?thesis using assms CallRecord
      by (auto simp: BreakerRecordResult_def Let_def split: option.splits prod.splits)
  qed
qed

theorem breaker_state_machine_witness:
  "\<exists>st'. rb_endpoints (breaker_call (CallRecord ''a'' bad_result)
      (breaker_run [CallRecord ''a'' bad_result, CallRecord ''a'' bad_result] (NewRollingWindowBreaker fixed_clock 7 wit_config))) ''a'' = Some st' \<and>
     es_status st' \<noteq> StatusHalfOpen"
proof -
  let ?b = "breaker_run [CallRecord ''a'' bad_result, CallRecord ''a'' bad_result] (NewRollingWindowBreaker fixed_clock 7 wit_config)"
  obtain st where st: "rb_endpoints ?b ''a'' = Some st"
    using run_windows[of "[CallRecord ''a'' bad_result, CallRecord ''a'' bad_result]" fixed_clock 7 wit_config]
    by (auto simp: windows_ok_def dest!: spec[of _ "''a''"] split: option.splits)
  obtain st' where st': "rb_endpoints (breaker_call (CallRecord ''a'' bad_result) ?b) ''a'' = Some st'"
    using record_endpoints[of "''a''" bad_result ?b "''a''"] by auto
  have "hs_Status (BreakerEndpointStats ''a'' ?b) = StatusClosed" by (simp add: breaker_eval)
  then have "es_status st = StatusClosed" using st by (simp add: BreakerEndpointStats_def Let_def)
  then show ?thesis using breaker_state_machine[OF st st'] st' by auto
qed

text \<open>A half-open endpoint is reported healthy to every caller, also while its probe is in flight.\<close>

lemma half_open_is_healthy:
  "rb_endpoints b e = Some st \<Longrightarrow> es_status st = StatusHalfOpen \<Longrightarrow> fst (BreakerIsHealthy e b)"
  by (simp add: rwb.healthy_status BreakerEndpointStatus_def)

text \<open>The window is kept when a probe closes the breaker, so a success can reopen it at once.\<close>

definition hand_clock :: "int clock" where
  "hand_clock t = (t, t + 100)"

lemma success_can_reopen:
  "map (\<lambda>n. hs_Status (BreakerEndpointStats ''a'' (breaker_run
      (take n [CallRecord ''a'' bad_result, CallRecord ''a'' bad_result, CallRecord ''a'' bad_result,
         CallStatus ''a'', CallRecord ''a'' ok_result, CallRecord ''a'' ok_result])
      (NewRollingWindowBreaker hand_clock 0 (wit_config\<lparr>bc_Now := None, bc_WindowSize := 20\<rparr>))))) [3, 4, 5, 6] =
   [StatusOpen, StatusHalfOpen, StatusClosed, StatusOpen]"
proof -
  have "1 < failure_rate 3 3 * 2" "1 < failure_rate 3 5 * 2"
    using failure_rate_half[of 3 3] failure_rate_half[of 3 5] by simp_all
  then show ?thesis by (simp add: breaker_eval hand_clock_def take_Cons')
qed

end
