(* ===== verification/Loop_Entity.thy ===== *)
theory Loop_Entity
  imports Go_Time Go_Json
begin

text \<open>
  The agentic loop entity (\<open>agentic/state.go\<close>): its state vocabulary, transitions, approval gate and
  iteration budget.  \<open>LoopState\<close> is a string type, so a record may hold any string; the methods
  return an error and leave the entity alone, or return the updated entity.  The tool results of a
  loop are values of a type parameter, since no method reads them.
\<close>

type_synonym LoopState = string

abbreviation LoopStateExploring :: LoopState where "LoopStateExploring \<equiv> ''exploring''"
abbreviation LoopStatePlanning :: LoopState where "LoopStatePlanning \<equiv> ''planning''"
abbreviation LoopStateArchitecting :: LoopState where "LoopStateArchitecting \<equiv> ''architecting''"
abbreviation LoopStateExecuting :: LoopState where "LoopStateExecuting \<equiv> ''executing''"
abbreviation LoopStateReviewing :: LoopState where "LoopStateReviewing \<equiv> ''reviewing''"
abbreviation LoopStateComplete :: LoopState where "LoopStateComplete \<equiv> ''complete''"
abbreviation LoopStateFailed :: LoopState where "LoopStateFailed \<equiv> ''failed''"
abbreviation LoopStateCancelled :: LoopState where "LoopStateCancelled \<equiv> ''cancelled''"
abbreviation LoopStateAwaitingApproval :: LoopState where "LoopStateAwaitingApproval \<equiv> ''awaiting_approval''"

definition IsTerminal :: "LoopState \<Rightarrow> bool" where
  "IsTerminal s \<longleftrightarrow> s = LoopStateComplete \<or> s = LoopStateFailed \<or> s = LoopStateCancelled"

definition isValidLoopState :: "LoopState \<Rightarrow> bool" where
  "isValidLoopState s \<longleftrightarrow>
     List.member [LoopStateExploring, LoopStatePlanning, LoopStateArchitecting, LoopStateExecuting, LoopStateReviewing,
       LoopStateComplete, LoopStateFailed, LoopStateCancelled, LoopStateAwaitingApproval] s"

record PendingApprovalState =
  pa_RequestID :: string
  pa_ExecutionID :: string
  pa_CallID :: string
  pa_CallOrdinal :: nat
  pa_ToolName :: string
  pa_Arguments :: "(string \<times> gval) list"
  pa_Reason :: string
  pa_RequestedAt :: time
  pa_Timeout :: duration
  pa_TraceID :: string

record 'tr LoopEntity =
  le_ID :: string
  le_TaskID :: string
  le_State :: LoopState
  le_TaskPrompt :: string
  le_Role :: string
  le_Model :: string
  le_Iterations :: int
  le_MaxIterations :: int
  le_PendingToolResults :: "(string \<times> 'tr) list"
  le_PublishedRequestID :: string
  le_StartedAt :: time
  le_TimeoutAt :: time
  le_ParentLoopID :: string
  le_RunID :: string
  le_Depth :: int
  le_MaxDepth :: int
  le_CancelledBy :: string
  le_CancelledAt :: time
  le_PendingApproval :: "PendingApprovalState option"
  le_StateBeforeApproval :: LoopState
  le_PendingContinuation :: bool
  le_PendingContinuationRequestID :: string
  le_PendingContinuationPrompt :: string
  le_UserID :: string
  le_ChannelType :: string
  le_ChannelID :: string
  le_WorkflowSlug :: string
  le_WorkflowStep :: string
  le_Outcome :: string
  le_Result :: string
  le_Error :: string
  le_CompletedAt :: time
  le_Metadata :: "(string \<times> gval) list"

datatype loop_error =
    IdRequired | InvalidState LoopState | MaxIterationsNotPositive | TransitionFromTerminal LoopState
  | ApprovalFromTerminal LoopState | AlreadyAwaiting string | CallIDRequired | ToolNameRequired
  | NotAwaiting LoopState | PendingApprovalNil | ErrMaxIterationsReached

definition LoopEntity_Validate :: "'tr LoopEntity \<Rightarrow> loop_error option" where
  "LoopEntity_Validate e =
     (if le_ID e = [] then Some IdRequired
      else if \<not> isValidLoopState (le_State e) then Some (InvalidState (le_State e))
      else if le_MaxIterations e \<le> 0 then Some MaxIterationsNotPositive
      else None)"

definition TransitionTo :: "LoopState \<Rightarrow> 'tr LoopEntity \<Rightarrow> loop_error + 'tr LoopEntity" where
  "TransitionTo newState e =
     (if \<not> isValidLoopState newState then Inl (InvalidState newState)
      else if le_State e = newState then Inr e
      else if IsTerminal (le_State e) then Inl (TransitionFromTerminal (le_State e))
      else Inr (e\<lparr>le_State := newState\<rparr>))"

definition BeginAwaitingApproval ::
    "string \<Rightarrow> string \<Rightarrow> (string \<times> gval) list \<Rightarrow> string \<Rightarrow> duration \<Rightarrow> string \<Rightarrow> time \<Rightarrow>
     'tr LoopEntity \<Rightarrow> loop_error + 'tr LoopEntity" where
  "BeginAwaitingApproval callID toolName arguments reason timeout traceID now e =
     (if IsTerminal (le_State e) then Inl (ApprovalFromTerminal (le_State e))
      else case (case le_PendingApproval e of Some p \<Rightarrow> if pa_CallID p \<noteq> callID then Some (pa_CallID p) else None | None \<Rightarrow> None) of
        Some c \<Rightarrow> Inl (AlreadyAwaiting c)
      | None \<Rightarrow>
          if callID = [] then Inl CallIDRequired
          else if toolName = [] then Inl ToolNameRequired
          else Inr (e\<lparr>le_StateBeforeApproval := le_State e, le_State := LoopStateAwaitingApproval,
                     le_PendingApproval := Some \<lparr>pa_RequestID = [], pa_ExecutionID = [], pa_CallID = callID, pa_CallOrdinal = 0,
                       pa_ToolName = toolName, pa_Arguments = arguments, pa_Reason = reason,
                       pa_RequestedAt = now, pa_Timeout = timeout, pa_TraceID = traceID\<rparr>\<rparr>))"

definition ResolveApproval :: "'tr LoopEntity \<Rightarrow> loop_error + 'tr LoopEntity" where
  "ResolveApproval e =
     (if le_State e \<noteq> LoopStateAwaitingApproval then Inl (NotAwaiting (le_State e))
      else if le_PendingApproval e = None then Inl PendingApprovalNil
      else let restore = le_StateBeforeApproval e;
               restore = (if restore = [] \<or> restore = LoopStateAwaitingApproval then LoopStateExecuting else restore)
           in Inr (e\<lparr>le_State := restore, le_StateBeforeApproval := [], le_PendingApproval := None\<rparr>))"

definition IncrementIteration :: "'tr LoopEntity \<Rightarrow> loop_error + 'tr LoopEntity" where
  "IncrementIteration e =
     (if le_Iterations e \<ge> le_MaxIterations e then Inl ErrMaxIterationsReached
      else Inr (e\<lparr>le_Iterations := le_Iterations e + 1\<rparr>))"

definition NewLoopEntity :: "string \<Rightarrow> string \<Rightarrow> string \<Rightarrow> string \<Rightarrow> int list \<Rightarrow> 'tr LoopEntity" where
  "NewLoopEntity lid taskID role model maxIterations =
     \<lparr>le_ID = lid, le_TaskID = taskID, le_State = LoopStateExploring, le_TaskPrompt = [], le_Role = role, le_Model = model,
      le_Iterations = 0,
      le_MaxIterations = (if maxIterations \<noteq> [] \<and> hd maxIterations > 0 then hd maxIterations else 20),
      le_PendingToolResults = [], le_PublishedRequestID = [], le_StartedAt = 0, le_TimeoutAt = 0, le_ParentLoopID = [],
      le_RunID = [], le_Depth = 0, le_MaxDepth = 0, le_CancelledBy = [], le_CancelledAt = 0, le_PendingApproval = None,
      le_StateBeforeApproval = [], le_PendingContinuation = False, le_PendingContinuationRequestID = [],
      le_PendingContinuationPrompt = [], le_UserID = [], le_ChannelType = [], le_ChannelID = [], le_WorkflowSlug = [],
      le_WorkflowStep = [], le_Outcome = [], le_Result = [], le_Error = [], le_CompletedAt = 0, le_Metadata = []\<rparr>"

subsection \<open>Runs of method calls\<close>

datatype loop_call =
    CTransition LoopState
  | CBegin string string "(string \<times> gval) list" string duration string time
  | CResolve
  | CIncrement

fun call_loop :: "loop_call \<Rightarrow> 'tr LoopEntity \<Rightarrow> loop_error + 'tr LoopEntity" where
  "call_loop (CTransition s) e = TransitionTo s e"
| "call_loop (CBegin c tn args reason tmo tr now) e = BeginAwaitingApproval c tn args reason tmo tr now e"
| "call_loop CResolve e = ResolveApproval e"
| "call_loop CIncrement e = IncrementIteration e"

definition loop_step :: "loop_call \<Rightarrow> 'tr LoopEntity \<Rightarrow> 'tr LoopEntity" where
  "loop_step c e = (case call_loop c e of Inl _ \<Rightarrow> e | Inr e' \<Rightarrow> e')"

definition loop_run :: "loop_call list \<Rightarrow> 'tr LoopEntity \<Rightarrow> 'tr LoopEntity" where
  "loop_run cs e = fold loop_step cs e"

lemmas loop_defs = TransitionTo_def BeginAwaitingApproval_def ResolveApproval_def IncrementIteration_def Let_def

text \<open>What every method keeps.\<close>

definition loop_inv :: "'tr LoopEntity \<Rightarrow> bool" where
  "loop_inv e \<longleftrightarrow>
     isValidLoopState (le_State e) \<and> 0 < le_MaxIterations e \<and>
     0 \<le> le_Iterations e \<and> le_Iterations e \<le> le_MaxIterations e \<and>
     (le_StateBeforeApproval e = [] \<or> isValidLoopState (le_StateBeforeApproval e) \<and> \<not> IsTerminal (le_StateBeforeApproval e)) \<and>
     (case le_PendingApproval e of None \<Rightarrow> True | Some p \<Rightarrow> pa_CallID p \<noteq> [] \<and> pa_ToolName p \<noteq> [])"

lemma state_facts:
  "isValidLoopState LoopStateAwaitingApproval" "isValidLoopState LoopStateExecuting" "isValidLoopState LoopStateExploring"
  "\<not> IsTerminal LoopStateAwaitingApproval" "\<not> IsTerminal LoopStateExecuting"
  by (simp_all add: isValidLoopState_def IsTerminal_def)

lemma TransitionTo_inv: "loop_inv e \<Longrightarrow> TransitionTo s e = Inr e' \<Longrightarrow> loop_inv e' \<and> le_ID e' = le_ID e \<and> le_MaxIterations e' = le_MaxIterations e"
  by (auto simp: TransitionTo_def loop_inv_def split: if_splits)

lemma BeginAwaitingApproval_inv:
  assumes "loop_inv e" "BeginAwaitingApproval c tn args reason tmo tr now e = Inr e'"
  shows "loop_inv e' \<and> le_ID e' = le_ID e \<and> le_MaxIterations e' = le_MaxIterations e"
proof -
  have "\<not> IsTerminal (le_State e) \<and> c \<noteq> [] \<and> tn \<noteq> [] \<and>
    e' = e\<lparr>le_StateBeforeApproval := le_State e, le_State := LoopStateAwaitingApproval,
           le_PendingApproval := Some \<lparr>pa_RequestID = [], pa_ExecutionID = [], pa_CallID = c, pa_CallOrdinal = 0,
             pa_ToolName = tn, pa_Arguments = args, pa_Reason = reason,
             pa_RequestedAt = now, pa_Timeout = tmo, pa_TraceID = tr\<rparr>\<rparr>"
    using assms(2) unfolding BeginAwaitingApproval_def by (auto simp only: split: if_splits option.splits)
  then show ?thesis using assms(1) by (simp add: loop_inv_def state_facts)
qed

lemma ResolveApproval_inv:
  assumes "loop_inv e" "ResolveApproval e = Inr e'"
  shows "loop_inv e' \<and> le_ID e' = le_ID e \<and> le_MaxIterations e' = le_MaxIterations e"
proof -
  have "\<exists>r. (r = LoopStateExecuting \<or> r = le_StateBeforeApproval e \<and> r \<noteq> []) \<and>
    e' = e\<lparr>le_State := r, le_StateBeforeApproval := [], le_PendingApproval := None\<rparr>"
    using assms(2) unfolding ResolveApproval_def Let_def by (auto simp only: split: if_splits)
  then show ?thesis using assms(1) by (auto simp: loop_inv_def state_facts)
qed

lemma IncrementIteration_inv: "loop_inv e \<Longrightarrow> IncrementIteration e = Inr e' \<Longrightarrow> loop_inv e' \<and> le_ID e' = le_ID e \<and> le_MaxIterations e' = le_MaxIterations e"
  by (auto simp: IncrementIteration_def loop_inv_def split: if_splits)

lemma loop_call_inv: "loop_inv e \<Longrightarrow> call_loop c e = Inr e' \<Longrightarrow> loop_inv e' \<and> le_ID e' = le_ID e \<and> le_MaxIterations e' = le_MaxIterations e"
  by (cases c) (simp_all add: TransitionTo_inv[of e _ e'] BeginAwaitingApproval_inv[of e _ _ _ _ _ _ _ e']
      ResolveApproval_inv[of e e'] IncrementIteration_inv[of e e'])

lemma loop_step_inv: "loop_inv e \<Longrightarrow> loop_inv (loop_step c e) \<and> le_ID (loop_step c e) = le_ID e \<and> le_MaxIterations (loop_step c e) = le_MaxIterations e"
  by (cases "call_loop c e") (simp_all add: loop_step_def loop_call_inv)

lemma loop_run_inv: "loop_inv e \<Longrightarrow> loop_inv (loop_run cs e) \<and> le_ID (loop_run cs e) = le_ID e \<and> le_MaxIterations (loop_run cs e) = le_MaxIterations e"
proof (induction cs arbitrary: e)
  case (Cons c cs)
  then show ?case using loop_step_inv[of e c] Cons.IH[of "loop_step c e"] by (simp add: loop_run_def)
qed (simp add: loop_run_def)

lemma NewLoopEntity_inv: "loop_inv (NewLoopEntity lid task role model mi)"
  by (simp add: loop_inv_def NewLoopEntity_def state_facts)

text \<open>The increments of a run that were granted.\<close>

fun granted :: "loop_call list \<Rightarrow> 'tr LoopEntity \<Rightarrow> nat" where
  "granted [] e = 0"
| "granted (c # cs) e =
     (if c = CIncrement \<and> (case call_loop c e of Inr _ \<Rightarrow> True | Inl _ \<Rightarrow> False) then 1 else 0) + granted cs (loop_step c e)"

lemma granted_iterations: "le_Iterations (loop_run cs e) = le_Iterations e + int (granted cs e)"
proof (induction cs arbitrary: e)
  case (Cons c cs)
  have "le_Iterations (loop_step c e) =
      le_Iterations e + (if c = CIncrement \<and> (case call_loop c e of Inr _ \<Rightarrow> True | Inl _ \<Rightarrow> False) then 1 else 0)"
    by (cases c) (auto simp: loop_step_def loop_defs split: if_splits option.splits sum.splits)
  then show ?case using Cons[of "loop_step c e"] by (cases "c = CIncrement") (simp_all add: loop_run_def)
qed (simp add: loop_run_def)

subsection \<open>Properties\<close>

text \<open>C31. Every record that the methods produce is valid.  From a new loop with an identifier, after any
  sequence of method calls, \<open>Validate\<close> succeeds, the approval that is stored names a call and a tool,
  and the iterations granted so far are exactly the counter and never exceed the budget.\<close>

theorem loop_record_invariant:
  assumes "e = NewLoopEntity lid task role model mi" "lid \<noteq> []"
  shows "LoopEntity_Validate (loop_run cs e) = None \<and>
    le_Iterations (loop_run cs e) = int (granted cs e) \<and> int (granted cs e) \<le> le_MaxIterations e \<and>
    (case le_PendingApproval (loop_run cs e) of None \<Rightarrow> True | Some p \<Rightarrow> pa_CallID p \<noteq> [] \<and> pa_ToolName p \<noteq> [])"
proof -
  have "loop_inv e" "le_ID e = lid" "le_Iterations e = 0"
    using NewLoopEntity_inv[of lid task role model mi] by (simp_all add: assms(1) NewLoopEntity_def loop_inv_def isValidLoopState_def)
  then show ?thesis using loop_run_inv[of e cs] granted_iterations[of cs e] assms(2)
    by (auto simp: loop_inv_def LoopEntity_Validate_def)
qed

theorem loop_record_invariant_witness:
  "LoopEntity_Validate (loop_run [CIncrement, CBegin ''c1'' ''bash'' [] [] 0 [] 5, CIncrement, CTransition ''complete'']
     (NewLoopEntity ''l1'' ''t1'' ''dev'' ''m'' [1] :: unit LoopEntity)) = None"
proof -
  have "(NewLoopEntity ''l1'' ''t1'' ''dev'' ''m'' [1] :: unit LoopEntity) = NewLoopEntity ''l1'' ''t1'' ''dev'' ''m'' [1]" ..
  moreover have "''l1'' \<noteq> []" by simp
  ultimately show ?thesis by (rule loop_record_invariant[THEN conjunct1])
qed

text \<open>C32. Terminal states absorb: once a loop is complete, failed or cancelled, no sequence of method
  calls changes its state or starts an approval.\<close>

theorem loop_terminal_absorbing:
  assumes "IsTerminal (le_State e)"
  shows "le_State (loop_run cs e) = le_State e \<and> le_PendingApproval (loop_run cs e) = le_PendingApproval e"
  using assms
proof (induction cs arbitrary: e)
  case (Cons c cs)
  have "le_State (loop_step c e) = le_State e \<and> le_PendingApproval (loop_step c e) = le_PendingApproval e"
    using Cons.prems by (cases c) (auto simp: loop_step_def loop_defs IsTerminal_def split: if_splits option.splits)
  then show ?case using Cons.IH[of "loop_step c e"] Cons.prems by (simp add: loop_run_def)
qed (simp add: loop_run_def)

theorem loop_terminal_absorbing_witness:
  "le_State (loop_run [CTransition ''executing'', CIncrement, CBegin ''c'' ''t'' [] [] 0 [] 1, CResolve]
     (loop_run [CTransition ''failed''] (NewLoopEntity ''l'' ''t'' ''r'' ''m'' [] :: unit LoopEntity))) = ''failed''"
proof -
  let ?e = "loop_run [CTransition ''failed''] (NewLoopEntity ''l'' ''t'' ''r'' ''m'' [] :: unit LoopEntity)"
  have s: "le_State ?e = ''failed''"
    by (simp add: loop_run_def loop_step_def loop_defs NewLoopEntity_def isValidLoopState_def IsTerminal_def)
  then have "IsTerminal (le_State ?e)" by (simp add: IsTerminal_def)
  from loop_terminal_absorbing[OF this, of "[CTransition ''executing'', CIncrement, CBegin ''c'' ''t'' [] [] 0 [] 1, CResolve]"] s
  show ?thesis by simp
qed



text \<open>A second rejection of the same call overwrites the saved state, and resolving falls back to
  executing.\<close>

lemma repeated_approval_loses_state:
  assumes "\<not> IsTerminal (le_State e)" "le_PendingApproval e = None" "c \<noteq> []" "tn \<noteq> []"
  shows "\<exists>e1 e2 e3. BeginAwaitingApproval c tn args reason tmo tr now e = Inr e1 \<and>
    BeginAwaitingApproval c tn args reason tmo tr now e1 = Inr e2 \<and> ResolveApproval e2 = Inr e3 \<and>
    le_State e3 = LoopStateExecuting"
  using assms by (simp add: BeginAwaitingApproval_def ResolveApproval_def IsTerminal_def)

end
