(* ===== verification/Circular_Buffer.thy ===== *)
theory Circular_Buffer
  imports Prelude
begin

text \<open>
  The circular buffer (\<open>pkg/buffer/circular.go\<close>): a ring of items with three overflow policies, its
  statistics, and blocked writers.  Each critical section under the mutex is one function; a writer
  that would block returns \<open>Waiting\<close> and continues later with \<open>Write_resume\<close>.  The locale
  \<open>conserving_queue\<close> carries the first-in-first-out argument and is interpreted for the ring.  The
  last part composes writers, readers and the condition variable into a step relation.  Prometheus
  metrics are left out; counters are unbounded; \<open>z\<close> is the zero value of the item type.
\<close>

datatype OverflowPolicy = DropOldest | DropNewest | Block

record Statistics =
  st_writes :: int
  st_reads :: int
  st_peeks :: int
  st_overflows :: int
  st_drops :: int
  st_currentSize :: int
  st_maxSize :: int

definition NewStatistics :: Statistics where
  "NewStatistics = \<lparr>st_writes = 0, st_reads = 0, st_peeks = 0, st_overflows = 0, st_drops = 0, st_currentSize = 0, st_maxSize = 0\<rparr>"

definition stat_Write :: "Statistics \<Rightarrow> Statistics" where "stat_Write s = s\<lparr>st_writes := st_writes s + 1\<rparr>"
definition stat_Read :: "Statistics \<Rightarrow> Statistics" where "stat_Read s = s\<lparr>st_reads := st_reads s + 1\<rparr>"
definition stat_Peek :: "Statistics \<Rightarrow> Statistics" where "stat_Peek s = s\<lparr>st_peeks := st_peeks s + 1\<rparr>"
definition stat_Overflow :: "Statistics \<Rightarrow> Statistics" where "stat_Overflow s = s\<lparr>st_overflows := st_overflows s + 1\<rparr>"
definition stat_Drop :: "Statistics \<Rightarrow> Statistics" where "stat_Drop s = s\<lparr>st_drops := st_drops s + 1\<rparr>"

definition stat_UpdateSize :: "int \<Rightarrow> Statistics \<Rightarrow> Statistics" where
  "stat_UpdateSize n s = (let s = s\<lparr>st_currentSize := n\<rparr> in if n > st_maxSize s then s\<lparr>st_maxSize := n\<rparr> else s)"

record 'a circularBuffer =
  cb_items :: "'a list"
  cb_capacity :: nat
  cb_size :: nat
  cb_head :: nat
  cb_tail :: nat
  cb_stats :: Statistics
  cb_policy :: OverflowPolicy
  cb_hasCallback :: bool
  cb_closed :: bool

definition newCircularBuffer :: "'a \<Rightarrow> int \<Rightarrow> OverflowPolicy \<Rightarrow> bool \<Rightarrow> 'a circularBuffer" where
  "newCircularBuffer z capacity policy hasCallback =
     (let c = (if capacity \<le> 0 then 1 else nat capacity) in
      \<lparr>cb_items = replicate c z, cb_capacity = c, cb_size = 0, cb_head = 0, cb_tail = 0, cb_stats = NewStatistics,
       cb_policy = policy, cb_hasCallback = hasCallback, cb_closed = False\<rparr>)"

datatype write_outcome = Written | Refused \<comment> \<open>the new item was dropped\<close> | ClosedError | ContextError | Waiting

text \<open>The tail of \<open>Write\<close> and \<open>WriteWithContext\<close>.\<close>

definition addItem :: "'a \<Rightarrow> 'a circularBuffer \<Rightarrow> 'a circularBuffer" where
  "addItem item cb =
     (let cb = cb\<lparr>cb_items := (cb_items cb)[cb_head cb := item], cb_head := (cb_head cb + 1) mod cb_capacity cb,
                 cb_size := cb_size cb + 1\<rparr>
      in cb\<lparr>cb_stats := stat_UpdateSize (int (cb_size cb)) (stat_Write (cb_stats cb))\<rparr>)"

definition dropTail :: "'a circularBuffer \<Rightarrow> 'a circularBuffer" where
  "dropTail cb = cb\<lparr>cb_tail := (cb_tail cb + 1) mod cb_capacity cb, cb_size := cb_size cb - 1,
     cb_stats := stat_Drop (stat_Overflow (cb_stats cb))\<rparr>"

text \<open>\<open>Write\<close> up to a wait, with the items handed to the drop callback.\<close>

definition Write :: "'a \<Rightarrow> 'a circularBuffer \<Rightarrow> write_outcome \<times> 'a list \<times> 'a circularBuffer" where
  "Write item cb =
     (if cb_closed cb then (ClosedError, [], cb)
      else if cb_size cb = cb_capacity cb then
        (case cb_policy cb of
           DropOldest \<Rightarrow> (Written, if cb_hasCallback cb then [cb_items cb ! cb_tail cb] else [], addItem item (dropTail cb))
         | DropNewest \<Rightarrow> (Refused, if cb_hasCallback cb then [item] else [],
                         cb\<lparr>cb_stats := stat_Drop (stat_Overflow (cb_stats cb))\<rparr>)
         | Block \<Rightarrow> (Waiting, [], cb))
      else (Written, [], addItem item cb))"

text \<open>A blocked \<open>Write\<close> after its wait returned: the loop condition again, then the rest.\<close>

definition Write_resume :: "'a \<Rightarrow> 'a circularBuffer \<Rightarrow> write_outcome \<times> 'a circularBuffer" where
  "Write_resume item cb =
     (if cb_size cb = cb_capacity cb \<and> \<not> cb_closed cb then (Waiting, cb)
      else if cb_closed cb then (ClosedError, cb)
      else (Written, addItem item cb))"

definition WriteWithContext :: "bool \<Rightarrow> 'a \<Rightarrow> 'a circularBuffer \<Rightarrow> write_outcome \<times> 'a list \<times> 'a circularBuffer" where
  "WriteWithContext cancelled item cb =
     (if cb_policy cb \<noteq> Block then Write item cb
      else if cb_closed cb then (ClosedError, [], cb)
      else if cancelled then (ContextError, [], cb)
      else if cb_size cb = cb_capacity cb then (Waiting, [], cb)
      else (Written, [], addItem item cb))"

definition WriteWithContext_resume :: "bool \<Rightarrow> 'a \<Rightarrow> 'a circularBuffer \<Rightarrow> write_outcome \<times> 'a circularBuffer" where
  "WriteWithContext_resume cancelled item cb =
     (if cancelled then (ContextError, cb) else Write_resume item cb)"

definition takeItem :: "'a \<Rightarrow> 'a circularBuffer \<Rightarrow> 'a \<times> 'a circularBuffer" where
  "takeItem z cb =
     (cb_items cb ! cb_tail cb,
      cb\<lparr>cb_items := (cb_items cb)[cb_tail cb := z], cb_tail := (cb_tail cb + 1) mod cb_capacity cb,
        cb_size := cb_size cb - 1, cb_stats := stat_Read (cb_stats cb)\<rparr>)"

definition sizeStat :: "'a circularBuffer \<Rightarrow> 'a circularBuffer" where
  "sizeStat cb = cb\<lparr>cb_stats := stat_UpdateSize (int (cb_size cb)) (cb_stats cb)\<rparr>"

definition Read :: "'a \<Rightarrow> 'a circularBuffer \<Rightarrow> 'a option \<times> 'a circularBuffer" where
  "Read z cb = (if cb_size cb = 0 then (None, cb) else (let (x, cb) = takeItem z cb in (Some x, sizeStat cb)))"

fun readLoop :: "'a \<Rightarrow> nat \<Rightarrow> 'a circularBuffer \<Rightarrow> 'a list \<times> 'a circularBuffer" where
  "readLoop z 0 cb = ([], cb)"
| "readLoop z (Suc n) cb = (let (x, cb) = takeItem z cb; (xs, cb) = readLoop z n cb in (x # xs, cb))"

definition ReadBatch :: "'a \<Rightarrow> int \<Rightarrow> 'a circularBuffer \<Rightarrow> 'a list \<times> 'a circularBuffer" where
  "ReadBatch z maxN cb =
     (if maxN \<le> 0 then ([], cb)
      else if cb_size cb = 0 then ([], cb)
      else let readCount = (if maxN > int (cb_size cb) then cb_size cb else nat maxN);
               (xs, cb) = readLoop z readCount cb
           in (xs, sizeStat cb))"

definition Peek :: "'a circularBuffer \<Rightarrow> 'a option \<times> 'a circularBuffer" where
  "Peek cb = (if cb_size cb = 0 then (None, cb)
              else (Some (cb_items cb ! cb_tail cb), cb\<lparr>cb_stats := stat_Peek (cb_stats cb)\<rparr>))"

definition Size :: "'a circularBuffer \<Rightarrow> nat" where "Size cb = cb_size cb"
definition Capacity :: "'a circularBuffer \<Rightarrow> nat" where "Capacity cb = cb_capacity cb"
definition IsFull :: "'a circularBuffer \<Rightarrow> bool" where "IsFull cb \<longleftrightarrow> cb_size cb = cb_capacity cb"
definition IsEmpty :: "'a circularBuffer \<Rightarrow> bool" where "IsEmpty cb \<longleftrightarrow> cb_size cb = 0"

definition ring_items :: "'a circularBuffer \<Rightarrow> 'a list" where
  "ring_items cb = map (\<lambda>i. cb_items cb ! ((cb_tail cb + i) mod cb_capacity cb)) [0..<cb_size cb]"

definition Clear :: "'a \<Rightarrow> 'a circularBuffer \<Rightarrow> 'a list \<times> 'a circularBuffer" where
  "Clear z cb =
     (if cb_hasCallback cb then ring_items cb else [],
      cb\<lparr>cb_items := replicate (cb_capacity cb) z, cb_head := 0, cb_tail := 0, cb_size := 0,
        cb_stats := stat_UpdateSize 0 (cb_stats cb)\<rparr>)"

definition Close :: "'a circularBuffer \<Rightarrow> 'a circularBuffer" where
  "Close cb = (if cb_closed cb then cb else cb\<lparr>cb_closed := True\<rparr>)"

subsection \<open>Sequences of calls\<close>

datatype 'a buf_call = BWrite 'a | BRead | BReadBatch int | BPeek | BClear | BClose

fun call_buf :: "'a \<Rightarrow> 'a buf_call \<Rightarrow> 'a circularBuffer \<Rightarrow> 'a circularBuffer" where
  "call_buf z (BWrite x) cb = snd (snd (Write x cb))"
| "call_buf z BRead cb = snd (Read z cb)"
| "call_buf z (BReadBatch n) cb = snd (ReadBatch z n cb)"
| "call_buf z BPeek cb = snd (Peek cb)"
| "call_buf z BClear cb = snd (Clear z cb)"
| "call_buf z BClose cb = Close cb"

text \<open>The items a call takes into the buffer, and those that leave it, oldest first.\<close>

fun accepted :: "'a buf_call \<Rightarrow> 'a circularBuffer \<Rightarrow> 'a list" where
  "accepted (BWrite x) cb = (if fst (Write x cb) = Written then [x] else [])"
| "accepted _ cb = []"

fun departed :: "'a \<Rightarrow> 'a buf_call \<Rightarrow> 'a circularBuffer \<Rightarrow> 'a list" where
  "departed z (BWrite x) cb =
     (if fst (Write x cb) = Written \<and> IsFull cb then (case fst (Peek cb) of Some y \<Rightarrow> [y] | None \<Rightarrow> []) else [])"
| "departed z BRead cb = (case fst (Read z cb) of Some y \<Rightarrow> [y] | None \<Rightarrow> [])"
| "departed z (BReadBatch n) cb = fst (ReadBatch z n cb)"
| "departed z BClear cb = ring_items cb"
| "departed z _ cb = []"

subsection \<open>The ring as a queue\<close>

definition ring_ok :: "'a circularBuffer \<Rightarrow> bool" where
  "ring_ok cb \<longleftrightarrow> length (cb_items cb) = cb_capacity cb \<and> 0 < cb_capacity cb \<and> cb_size cb \<le> cb_capacity cb \<and>
     cb_tail cb < cb_capacity cb \<and> cb_head cb = (cb_tail cb + cb_size cb) mod cb_capacity cb"

lemma ring_index_neq: "i < j \<Longrightarrow> j < c \<Longrightarrow> (t + i) mod c \<noteq> (t + j) mod (c :: nat)"
proof
  assume a: "i < j" "j < c" "(t + i) mod c = (t + j) mod c"
  then have "c dvd (t + j) - (t + i)" by (subst mod_eq_dvd_iff_nat[symmetric]) auto
  then have "c dvd j - i" by simp
  then show False using a by (auto dest: dvd_imp_le)
qed

lemma ring_items_length [simp]: "length (ring_items cb) = cb_size cb"
  by (simp add: ring_items_def)

lemma ring_items_Nil: "ring_items cb = [] \<longleftrightarrow> cb_size cb = 0"
  by (simp add: ring_items_def)

lemma ring_items_hd: "0 < cb_size cb \<Longrightarrow> cb_tail cb < cb_capacity cb \<Longrightarrow> cb_items cb ! cb_tail cb = hd (ring_items cb)"
  by (simp add: ring_items_def hd_map upt_rec)

lemma addItem_ring:
  assumes "ring_ok cb" "cb_size cb < cb_capacity cb"
  shows "ring_ok (addItem x cb)" "ring_items (addItem x cb) = ring_items cb @ [x]"
    "cb_capacity (addItem x cb) = cb_capacity cb" "cb_size (addItem x cb) = cb_size cb + 1"
    "cb_closed (addItem x cb) = cb_closed cb" "cb_policy (addItem x cb) = cb_policy cb"
proof -
  have h: "cb_head cb < cb_capacity cb" using assms by (simp add: ring_ok_def)
  have "(cb_items cb)[cb_head cb := x] ! ((cb_tail cb + i) mod cb_capacity cb) = cb_items cb ! ((cb_tail cb + i) mod cb_capacity cb)"
    if "i < cb_size cb" for i
    using ring_index_neq[of i "cb_size cb" "cb_capacity cb" "cb_tail cb"] that assms
    by (intro nth_list_update_neq) (auto simp: ring_ok_def)
  then show "ring_items (addItem x cb) = ring_items cb @ [x]"
    using assms h by (auto simp: ring_items_def addItem_def Let_def ring_ok_def)
  show "ring_ok (addItem x cb)"
    using assms by (auto simp: ring_ok_def addItem_def Let_def mod_Suc_eq)
qed (simp_all add: addItem_def Let_def)

lemma ring_shift: "cb_size cb \<noteq> 0 \<Longrightarrow> tl (ring_items cb) = map (\<lambda>i. cb_items cb ! ((cb_tail cb + Suc i) mod cb_capacity cb)) [0..<cb_size cb - 1]"
  by (cases "cb_size cb") (simp_all add: ring_items_def upt_conv_Cons map_Suc_upt[symmetric] comp_def del: upt_Suc map_Suc_upt)

lemma ring_next: "((t + 1) mod c + i) mod c = (t + Suc i) mod (c :: nat)"
  by (simp add: mod_add_left_eq)

lemma dropTail_ring:
  assumes "ring_ok cb" "0 < cb_size cb"
  shows "ring_ok (dropTail cb)" "ring_items (dropTail cb) = tl (ring_items cb)"
    "cb_capacity (dropTail cb) = cb_capacity cb" "cb_size (dropTail cb) = cb_size cb - 1"
    "cb_closed (dropTail cb) = cb_closed cb" "cb_policy (dropTail cb) = cb_policy cb"
proof -
  show "ring_items (dropTail cb) = tl (ring_items cb)"
    using assms(2) unfolding ring_shift[OF assms(2)[THEN gr_implies_not0]]
    by (simp add: dropTail_def ring_items_def ring_next[unfolded One_nat_def] del: add_Suc_right)
  show "ring_ok (dropTail cb)"
    using assms ring_next[of "cb_tail cb" "cb_capacity cb" "cb_size cb - 1"] by (auto simp: ring_ok_def dropTail_def)
qed (simp_all add: dropTail_def)

lemma takeItem_ring:
  assumes "ring_ok cb" "0 < cb_size cb"
  shows "fst (takeItem z cb) = hd (ring_items cb)" "ring_ok (snd (takeItem z cb))"
    "ring_items (snd (takeItem z cb)) = tl (ring_items cb)" "cb_size (snd (takeItem z cb)) = cb_size cb - 1"
    "cb_capacity (snd (takeItem z cb)) = cb_capacity cb"
    "cb_closed (snd (takeItem z cb)) = cb_closed cb" "cb_policy (snd (takeItem z cb)) = cb_policy cb"
proof -
  show "fst (takeItem z cb) = hd (ring_items cb)"
    using assms ring_items_hd[of cb] by (simp add: takeItem_def ring_ok_def)
  have "(cb_items cb)[cb_tail cb := z] ! ((cb_tail cb + Suc i) mod cb_capacity cb) = cb_items cb ! ((cb_tail cb + Suc i) mod cb_capacity cb)"
    if "i < cb_size cb - 1" for i
  proof -
    have "Suc i < cb_capacity cb" using that assms unfolding ring_ok_def by linarith
    then show ?thesis using ring_index_neq[of 0 "Suc i" "cb_capacity cb" "cb_tail cb"] assms
      by (intro nth_list_update_neq) (auto simp: ring_ok_def)
  qed
  then show "ring_items (snd (takeItem z cb)) = tl (ring_items cb)"
    using assms(2) unfolding ring_shift[OF assms(2)[THEN gr_implies_not0]]
    by (simp add: takeItem_def ring_items_def ring_next[unfolded One_nat_def] del: add_Suc_right)
  show "ring_ok (snd (takeItem z cb))"
    using assms ring_next[of "cb_tail cb" "cb_capacity cb" "cb_size cb - 1"] by (auto simp: ring_ok_def takeItem_def)
qed (simp_all add: takeItem_def)

lemma sizeStat_ring [simp]:
  "ring_ok (sizeStat cb) = ring_ok cb" "ring_items (sizeStat cb) = ring_items cb" "cb_size (sizeStat cb) = cb_size cb"
  "cb_capacity (sizeStat cb) = cb_capacity cb" "cb_closed (sizeStat cb) = cb_closed cb" "cb_policy (sizeStat cb) = cb_policy cb"
  by (simp_all add: sizeStat_def ring_ok_def ring_items_def)

lemma readLoop_ring:
  assumes "ring_ok cb" "n \<le> cb_size cb"
  shows "ring_ok (snd (readLoop z n cb)) \<and> fst (readLoop z n cb) @ ring_items (snd (readLoop z n cb)) = ring_items cb \<and>
    cb_size (snd (readLoop z n cb)) = cb_size cb - n \<and> length (fst (readLoop z n cb)) = n \<and>
    cb_capacity (snd (readLoop z n cb)) = cb_capacity cb \<and> cb_closed (snd (readLoop z n cb)) = cb_closed cb \<and>
    cb_policy (snd (readLoop z n cb)) = cb_policy cb"
  using assms
proof (induction n arbitrary: cb)
  case (Suc n)
  then have pos: "0 < cb_size cb" by simp
  note t = takeItem_ring[OF Suc.prems(1) pos, of z]
  have "n \<le> cb_size (snd (takeItem z cb))" using Suc.prems t(4) by simp
  note ih = Suc.IH[OF t(2) this]
  have "ring_items cb = hd (ring_items cb) # tl (ring_items cb)" using pos by (metis ring_items_Nil hd_Cons_tl less_numeral_extra(3))
  then show ?case using ih t by (auto simp: split_beta Let_def)
qed simp

subsection \<open>Conservation\<close>

text \<open>A queue whose every operation moves a prefix out of it and appends to it what it accepts.\<close>

locale conserving_queue =
  fixes good :: "'b \<Rightarrow> bool" and contents :: "'b \<Rightarrow> 'a list" and step :: "'c \<Rightarrow> 'b \<Rightarrow> 'b"
    and enters :: "'c \<Rightarrow> 'b \<Rightarrow> 'a list" and leaves :: "'c \<Rightarrow> 'b \<Rightarrow> 'a list"
  assumes step_good: "good b \<Longrightarrow> good (step c b)"
    and step_conserves: "good b \<Longrightarrow> leaves c b @ contents (step c b) = contents b @ enters c b"
begin

fun all_of :: "('c \<Rightarrow> 'b \<Rightarrow> 'a list) \<Rightarrow> 'c list \<Rightarrow> 'b \<Rightarrow> 'a list" where
  "all_of f [] b = []"
| "all_of f (c # cs) b = f c b @ all_of f cs (step c b)"

lemma run_conserves:
  "good b \<Longrightarrow> good (fold step cs b) \<and> all_of leaves cs b @ contents (fold step cs b) = contents b @ all_of enters cs b"
proof (induction cs arbitrary: b)
  case (Cons c cs)
  have ih: "good (fold step cs (step c b))"
    "all_of leaves cs (step c b) @ contents (fold step cs (step c b)) = contents (step c b) @ all_of enters cs (step c b)"
    using Cons.IH[OF step_good[OF Cons.prems]] by auto
  show ?case using ih arg_cong[OF step_conserves[OF Cons.prems, of c], of "\<lambda>l. l @ all_of enters cs (step c b)"] by simp
qed simp

end

lemma Write_ring:
  assumes "ring_ok cb"
  shows "ring_ok (snd (snd (Write x cb))) \<and>
    departed z (BWrite x) cb @ ring_items (snd (snd (Write x cb))) = ring_items cb @ accepted (BWrite x) cb"
proof (cases "cb_size cb = cb_capacity cb")
  case True
  then have pos: "0 < cb_size cb" using assms by (simp add: ring_ok_def)
  note d = dropTail_ring[OF assms pos]
  have lt: "cb_size (dropTail cb) < cb_capacity (dropTail cb)" using d(3,4) True pos by simp
  note a = addItem_ring[OF d(1) lt, of x]
  have h: "cb_items cb ! cb_tail cb = hd (ring_items cb)" using ring_items_hd[OF pos] assms by (simp add: ring_ok_def)
  have ne: "ring_items cb = hd (ring_items cb) # tl (ring_items cb)" using pos by (metis ring_items_Nil hd_Cons_tl less_numeral_extra(3))
  have st: "ring_ok (cb\<lparr>cb_stats := s\<rparr>) \<longleftrightarrow> ring_ok cb" "ring_items (cb\<lparr>cb_stats := s\<rparr>) = ring_items cb" for s
    by (simp_all add: ring_ok_def ring_items_def)
  show ?thesis
  proof (cases "cb_closed cb")
    case False
    show ?thesis
    proof (cases "cb_policy cb")
      case DropOldest
      then have w: "Write x cb = (Written, if cb_hasCallback cb then [cb_items cb ! cb_tail cb] else [], addItem x (dropTail cb))"
        using True False by (simp add: Write_def)
      show ?thesis using a d(2) h ne pos True by (simp add: w Peek_def IsFull_def)
    qed (use True False assms st in \<open>simp_all add: Write_def\<close>)
  qed (simp add: Write_def assms)
next
  case False
  then have lt: "cb_size cb < cb_capacity cb" using assms by (simp add: ring_ok_def)
  show ?thesis using False addItem_ring[OF assms lt, of x] assms by (simp add: Write_def IsFull_def)
qed

lemma Read_ring:
  assumes "ring_ok cb"
  shows "ring_ok (snd (Read z cb)) \<and> departed z BRead cb @ ring_items (snd (Read z cb)) = ring_items cb"
proof (cases "cb_size cb = 0")
  case False
  then have pos: "0 < cb_size cb" by simp
  have ne: "ring_items cb = hd (ring_items cb) # tl (ring_items cb)" using pos by (metis ring_items_Nil hd_Cons_tl less_numeral_extra(3))
  show ?thesis using takeItem_ring[OF assms pos, of z] ne False by (simp add: Read_def split_beta)
qed (simp add: Read_def assms)

lemma ReadBatch_ring:
  assumes "ring_ok cb"
  shows "ring_ok (snd (ReadBatch z n cb)) \<and> fst (ReadBatch z n cb) @ ring_items (snd (ReadBatch z n cb)) = ring_items cb"
proof -
  let ?k = "if n > int (cb_size cb) then cb_size cb else nat n"
  have "?k \<le> cb_size cb" by auto
  from readLoop_ring[OF assms this, of z] show ?thesis using assms by (auto simp: ReadBatch_def Let_def split_beta)
qed

lemma Clear_ring: "ring_ok cb \<Longrightarrow> ring_ok (snd (Clear z cb)) \<and> ring_items (snd (Clear z cb)) = []"
  by (simp add: Clear_def ring_ok_def ring_items_def)

lemma frame_ring:
  "ring_ok (snd (Peek cb)) = ring_ok cb" "ring_items (snd (Peek cb)) = ring_items cb"
  "ring_ok (Close cb) = ring_ok cb" "ring_items (Close cb) = ring_items cb"
  by (simp_all add: Peek_def Close_def ring_ok_def ring_items_def)

interpretation ring: conserving_queue ring_ok ring_items "call_buf z" accepted "departed z" for z :: 'a
proof
  fix b :: "'a circularBuffer" and c assume b: "ring_ok b"
  show "ring_ok (call_buf z c b)"
    using b Write_ring[OF b] Read_ring[OF b, of z] ReadBatch_ring[OF b, of z] Clear_ring[OF b, of z] by (cases c) (simp_all add: frame_ring)
  show "departed z c b @ ring_items (call_buf z c b) = ring_items b @ accepted c b"
    using b Write_ring[OF b] Read_ring[OF b, of z] ReadBatch_ring[OF b, of z] Clear_ring[OF b, of z]
    by (cases c) (simp_all add: frame_ring del: departed.simps(1,2) accepted.simps(1))
qed

lemma newCircularBuffer_ring: "ring_ok (newCircularBuffer z n p cbk)" "ring_items (newCircularBuffer z n p cbk) = []"
  by (simp_all add: newCircularBuffer_def ring_ok_def ring_items_def Let_def)

text \<open>What entered and what left over a sequence of calls, in order.\<close>

definition all_accepted :: "'a \<Rightarrow> 'a buf_call list \<Rightarrow> 'a circularBuffer \<Rightarrow> 'a list" where
  "all_accepted z cs cb = ring.all_of z accepted cs cb"

definition all_departed :: "'a \<Rightarrow> 'a buf_call list \<Rightarrow> 'a circularBuffer \<Rightarrow> 'a list" where
  "all_departed z cs cb = ring.all_of z (departed z) cs cb"

text \<open>C5. The ring is a first-in-first-out queue under every overflow policy.  For any sequence of
  calls on a new buffer, the items that left it (read, evicted as the oldest, or cleared) followed by
  the items it still holds are exactly the accepted items in order of acceptance: nothing is lost,
  duplicated or reordered.  The buffer never holds more than its capacity and \<open>Size\<close> counts its
  items.\<close>

theorem circular_buffer_fifo:
  fixes z :: 'a and cs :: "'a buf_call list" and n :: int and p :: OverflowPolicy and hascb :: bool
  defines "cb \<equiv> fold (call_buf z) cs (newCircularBuffer z n p hascb)"
  shows "all_departed z cs (newCircularBuffer z n p hascb) @ ring_items cb = all_accepted z cs (newCircularBuffer z n p hascb) \<and>
    Size cb = length (ring_items cb) \<and> Size cb \<le> Capacity cb"
  using ring.run_conserves[OF newCircularBuffer_ring(1), of z cs z n p hascb]
  by (simp add: cb_def all_departed_def all_accepted_def newCircularBuffer_ring(2) Size_def Capacity_def ring_ok_def)

subsection \<open>Blocked writers\<close>

text \<open>
  The buffer with the goroutines blocked in \<open>notFull.Wait\<close>, in the order in which a signal wakes
  them, and the woken ones that have not run yet.  A waiter is its item with the context of a
  \<open>WriteWithContext\<close>; \<open>watchers\<close> are the contexts whose helper goroutine still runs.
\<close>

record 'a buf_sys =
  bs_buf :: "'a circularBuffer"
  bs_asleep :: "('a \<times> nat option) list"
  bs_awake :: "('a \<times> nat option) list"
  bs_cancelled :: "nat list"
  bs_watchers :: "nat list"

definition signal :: "'a buf_sys \<Rightarrow> 'a buf_sys" where
  "signal s = (case bs_asleep s of [] \<Rightarrow> s | w # ws \<Rightarrow> s\<lparr>bs_asleep := ws, bs_awake := bs_awake s @ [w]\<rparr>)"

fun signals :: "nat \<Rightarrow> 'a buf_sys \<Rightarrow> 'a buf_sys" where
  "signals 0 s = s"
| "signals (Suc n) s = signals n (signal s)"

definition broadcast :: "'a buf_sys \<Rightarrow> 'a buf_sys" where
  "broadcast s = s\<lparr>bs_asleep := [], bs_awake := bs_awake s @ bs_asleep s\<rparr>"

text \<open>A writer whose critical section ended with an outcome.\<close>

definition settle :: "('a \<times> nat option) \<Rightarrow> write_outcome \<Rightarrow> 'a circularBuffer \<Rightarrow> 'a buf_sys \<Rightarrow> 'a buf_sys" where
  "settle w res cb s =
     (let s = s\<lparr>bs_buf := cb\<rparr> in if res = Waiting then s\<lparr>bs_asleep := bs_asleep s @ [w]\<rparr> else s)"

definition resume :: "'a buf_sys \<Rightarrow> ('a \<times> nat option) \<Rightarrow> write_outcome \<times> 'a circularBuffer" where
  "resume s w = (case snd w of None \<Rightarrow> Write_resume (fst w) (bs_buf s)
                 | Some c \<Rightarrow> WriteWithContext_resume (List.member (bs_cancelled s) c) (fst w) (bs_buf s))"

inductive buf_step :: "'a \<Rightarrow> 'a buf_sys \<Rightarrow> 'a buf_sys \<Rightarrow> bool" for z where
  st_write: "Write x (bs_buf s) = (res, dropped, cb) \<Longrightarrow> buf_step z s (settle (x, None) res cb s)"
| st_write_context: "WriteWithContext (List.member (bs_cancelled s) c) x (bs_buf s) = (res, dropped, cb) \<Longrightarrow>
    buf_step z s (settle (x, Some c) res cb
      (if cb_policy (bs_buf s) = Block \<and> res \<in> {Written, Waiting} then s\<lparr>bs_watchers := c # bs_watchers s\<rparr> else s))"
| st_read: "Read z (bs_buf s) = (Some y, cb) \<Longrightarrow> buf_step z s (signal (s\<lparr>bs_buf := cb\<rparr>))"
| st_read_batch: "ReadBatch z n (bs_buf s) = (ys, cb) \<Longrightarrow> buf_step z s (signals (length ys) (s\<lparr>bs_buf := cb\<rparr>))"
| st_clear: "Clear z (bs_buf s) = (dropped, cb) \<Longrightarrow> buf_step z s (broadcast (s\<lparr>bs_buf := cb\<rparr>))"
| st_close: "\<not> cb_closed (bs_buf s) \<Longrightarrow> buf_step z s (broadcast (s\<lparr>bs_buf := Close (bs_buf s)\<rparr>))"
| st_run_woken: "bs_awake s = pre @ w # post \<Longrightarrow> resume s w = (res, cb) \<Longrightarrow>
    buf_step z s (settle w res cb (s\<lparr>bs_awake := pre @ post\<rparr>))"
| st_cancel: "buf_step z s (s\<lparr>bs_cancelled := c # bs_cancelled s\<rparr>)"
| st_watcher_fires: "c \<in> set (bs_watchers s) \<Longrightarrow> c \<in> set (bs_cancelled s) \<Longrightarrow>
    buf_step z s (broadcast (s\<lparr>bs_watchers := remove1 c (bs_watchers s)\<rparr>))"
| st_watcher_exits: "c \<in> set (bs_watchers s) \<Longrightarrow> c \<notin> Option.these (snd ` set (bs_asleep s @ bs_awake s)) \<Longrightarrow>
    buf_step z s (s\<lparr>bs_watchers := remove1 c (bs_watchers s)\<rparr>)"

text \<open>The wake-up debt: as long as a writer sleeps, every free slot has a woken writer on its way.\<close>

definition no_lost_wakeup :: "'a buf_sys \<Rightarrow> bool" where
  "no_lost_wakeup s \<longleftrightarrow>
     bs_asleep s = [] \<or> \<not> cb_closed (bs_buf s) \<and> cb_capacity (bs_buf s) - cb_size (bs_buf s) \<le> length (bs_awake s)"

text \<open>No blocked writer has a cancelled context.\<close>

definition uncancelled_writers :: "'a buf_sys \<Rightarrow> bool" where
  "uncancelled_writers s \<longleftrightarrow>
     (\<forall>(x, ctx)\<in>set (bs_asleep s @ bs_awake s). case ctx of None \<Rightarrow> True | Some c \<Rightarrow> \<not> List.member (bs_cancelled s) c)"

lemma signals_lists:
  "bs_asleep (signals n s) = drop n (bs_asleep s)" "bs_awake (signals n s) = bs_awake s @ take n (bs_asleep s)"
  "bs_buf (signals n s) = bs_buf s"
  by (induction n arbitrary: s) (auto simp: signal_def split: list.splits)

lemma signal_lists:
  "bs_asleep (signal s) = tl (bs_asleep s)" "bs_awake (signal s) = bs_awake s @ take 1 (bs_asleep s)" "bs_buf (signal s) = bs_buf s"
  by (auto simp: signal_def split: list.splits)

lemma broadcast_lists: "bs_asleep (broadcast s) = []" "bs_buf (broadcast s) = bs_buf s"
  by (simp_all add: broadcast_def)

lemma settle_lists:
  "bs_buf (settle w res cb s) = cb" "bs_awake (settle w res cb s) = bs_awake s"
  "bs_asleep (settle w res cb s) = (if res = Waiting then bs_asleep s @ [w] else bs_asleep s)"
  by (simp_all add: settle_def Let_def)

lemmas sys_lists = signals_lists signal_lists broadcast_lists settle_lists

lemma Write_sizes:
  assumes "ring_ok cb" "Write x cb = (res, dr, cb')"
  shows "ring_ok cb' \<and> cb_capacity cb' = cb_capacity cb \<and> cb_closed cb' = cb_closed cb \<and> cb_size cb \<le> cb_size cb' \<and>
    (res = Waiting \<longrightarrow> cb_size cb' = cb_capacity cb' \<and> \<not> cb_closed cb')"
proof -
  have ok: "ring_ok cb'" using Write_ring[OF assms(1), of x] assms(2) by simp
  show ?thesis
  proof (cases "cb_size cb = cb_capacity cb")
    case True
    then have pos: "0 < cb_size cb" using assms(1) by (simp add: ring_ok_def)
    have "cb_size (dropTail cb) < cb_capacity (dropTail cb)" using dropTail_ring[OF assms(1) pos] True pos by simp
    from addItem_ring[OF dropTail_ring(1)[OF assms(1) pos] this, of x] dropTail_ring[OF assms(1) pos]
    show ?thesis using assms(2) ok True pos by (auto simp: Write_def split: if_splits OverflowPolicy.splits)
  next
    case False
    then have "cb_size cb < cb_capacity cb" using assms(1) by (simp add: ring_ok_def)
    from addItem_ring[OF assms(1) this, of x] show ?thesis using assms(2) ok False by (auto simp: Write_def split: if_splits)
  qed
qed

lemma WriteWithContext_sizes:
  assumes "ring_ok cb" "WriteWithContext can x cb = (res, dr, cb')"
  shows "ring_ok cb' \<and> cb_capacity cb' = cb_capacity cb \<and> cb_closed cb' = cb_closed cb \<and> cb_size cb \<le> cb_size cb' \<and>
    (res = Waiting \<longrightarrow> cb_size cb' = cb_capacity cb' \<and> \<not> cb_closed cb')"
proof (cases "cb_policy cb = Block")
  case True
  show ?thesis
  proof (cases "cb_size cb = cb_capacity cb")
    case False
    then have "cb_size cb < cb_capacity cb" using assms(1) by (simp add: ring_ok_def)
    from addItem_ring[OF assms(1) this, of x] show ?thesis using assms True False
      by (auto simp: WriteWithContext_def split: if_splits)
  qed (use assms True in \<open>auto simp: WriteWithContext_def split: if_splits\<close>)
qed (use Write_sizes[OF assms(1), of x res dr cb'] assms(2) in \<open>auto simp: WriteWithContext_def\<close>)

lemma Write_resume_sizes:
  assumes "ring_ok cb" "Write_resume x cb = (res, cb')"
  shows "ring_ok cb' \<and> cb_capacity cb' = cb_capacity cb \<and> cb_closed cb' = cb_closed cb \<and>
    (res = Waiting \<and> cb_size cb' = cb_capacity cb' \<and> \<not> cb_closed cb' \<or>
     res \<noteq> Waiting \<and> cb_closed cb' \<or> res \<noteq> Waiting \<and> cb_size cb' = cb_size cb + 1)"
proof (cases "cb_size cb < cb_capacity cb")
  case True
  from addItem_ring[OF assms(1) this, of x] show ?thesis using assms True by (auto simp: Write_resume_def split: if_splits)
next
  case False
  then have "cb_size cb = cb_capacity cb" using assms(1) by (simp add: ring_ok_def)
  then show ?thesis using assms by (auto simp: Write_resume_def split: if_splits)
qed

lemma Read_sizes: "ring_ok cb \<Longrightarrow> Read z cb = (Some y, cb') \<Longrightarrow>
    ring_ok cb' \<and> cb_capacity cb' = cb_capacity cb \<and> cb_closed cb' = cb_closed cb \<and> cb_size cb = cb_size cb' + 1"
  using takeItem_ring[of cb z] by (auto simp: Read_def split_beta split: if_splits)

lemma ReadBatch_sizes:
  assumes "ring_ok cb" "ReadBatch z n cb = (ys, cb')"
  shows "ring_ok cb' \<and> cb_capacity cb' = cb_capacity cb \<and> cb_closed cb' = cb_closed cb \<and> cb_size cb = cb_size cb' + length ys"
proof -
  let ?k = "if n > int (cb_size cb) then cb_size cb else nat n"
  have k: "?k \<le> cb_size cb" by auto
  from readLoop_ring[OF assms(1) this, of z] show ?thesis using assms k by (auto simp: ReadBatch_def Let_def split_beta split: if_splits)
qed

lemma uncancelled_step_inv:
  assumes "buf_step z s s'" "ring_ok (bs_buf s)" "no_lost_wakeup s" "uncancelled_writers s"
  shows "ring_ok (bs_buf s') \<and> no_lost_wakeup s'"
  using assms
proof (induction rule: buf_step.induct)
  case (st_write x s res dropped cb)
  then show ?case using Write_sizes[OF st_write.prems(1) st_write.hyps] by (auto simp: no_lost_wakeup_def sys_lists)
next
  case (st_write_context s c x res dropped cb)
  then show ?case using WriteWithContext_sizes[OF st_write_context.prems(1) st_write_context.hyps]
    by (auto simp: no_lost_wakeup_def sys_lists)
next
  case (st_read s y cb)
  then show ?case using Read_sizes[OF st_read.prems(1) st_read.hyps]
    by (cases "bs_asleep s") (auto simp: no_lost_wakeup_def sys_lists)
next
  case (st_read_batch n s ys cb)
  then show ?case using ReadBatch_sizes[OF st_read_batch.prems(1) st_read_batch.hyps]
    by (auto simp: no_lost_wakeup_def sys_lists)
next
  case (st_clear s dropped cb)
  then show ?case using Clear_ring[OF st_clear.prems(1), of z] by (simp add: no_lost_wakeup_def sys_lists)
next
  case (st_close s)
  then show ?case by (simp add: no_lost_wakeup_def sys_lists frame_ring)
next
  case (st_run_woken s pre w post res cb)
  then have "Write_resume (fst w) (bs_buf s) = (res, cb)"
    by (auto simp: resume_def uncancelled_writers_def WriteWithContext_resume_def split: option.splits prod.splits)
  from Write_resume_sizes[OF st_run_woken.prems(1) this] st_run_woken show ?case
    by (auto simp: no_lost_wakeup_def sys_lists)
qed (auto simp: no_lost_wakeup_def sys_lists)

definition new_sys :: "'a \<Rightarrow> int \<Rightarrow> OverflowPolicy \<Rightarrow> bool \<Rightarrow> 'a buf_sys" where
  "new_sys z n p hascb = \<lparr>bs_buf = newCircularBuffer z n p hascb, bs_asleep = [], bs_awake = [], bs_cancelled = [], bs_watchers = []\<rparr>"

text \<open>Runs in which no context is cancelled while a \<open>WriteWithContext\<close> is blocked under it.\<close>

inductive uncancelled_reach :: "'a \<Rightarrow> 'a buf_sys \<Rightarrow> 'a buf_sys \<Rightarrow> bool" for z s where
  start: "uncancelled_reach z s s"
| step: "uncancelled_reach z s t \<Longrightarrow> buf_step z t u \<Longrightarrow> uncancelled_writers u \<Longrightarrow> uncancelled_reach z s u"

text \<open>C12. No blocked writer is stranded as long as no blocked \<open>WriteWithContext\<close> is cancelled.  In every
  state reached from a new buffer by any interleaving of writes, reads, batch reads, clears, closes,
  wake-ups and cancellations in which no context is cancelled while a \<open>WriteWithContext\<close> is blocked
  under it, a writer that sleeps while no woken writer is pending faces a full, open buffer: free
  space and closing always wake the writers that can use them.  The restriction is needed, as
  \<open>cancelled_context_strands_writer\<close> below shows.\<close>

theorem blocked_writers_not_stranded:
  assumes "uncancelled_reach z (new_sys z n p hascb) s" "bs_asleep s \<noteq> []" "bs_awake s = []"
  shows "IsFull (bs_buf s) \<and> \<not> cb_closed (bs_buf s)"
proof -
  have "ring_ok (bs_buf s) \<and> no_lost_wakeup s \<and> uncancelled_writers s" using assms(1)
  proof (induction rule: uncancelled_reach.induct)
    case start
    show ?case by (simp add: new_sys_def newCircularBuffer_ring no_lost_wakeup_def uncancelled_writers_def)
  next
    case (step t u)
    then show ?case using uncancelled_step_inv[OF step.hyps(2)] by simp
  qed
  then show ?thesis using assms(2,3) by (auto simp: no_lost_wakeup_def ring_ok_def IsFull_def)
qed

definition do_write :: "'a \<Rightarrow> 'a buf_sys \<Rightarrow> 'a buf_sys" where
  "do_write x s = (case Write x (bs_buf s) of (res, dropped, cb) \<Rightarrow> settle (x, None) res cb s)"

definition do_write_context :: "nat \<Rightarrow> 'a \<Rightarrow> 'a buf_sys \<Rightarrow> 'a buf_sys" where
  "do_write_context c x s =
     (case WriteWithContext (List.member (bs_cancelled s) c) x (bs_buf s) of (res, dropped, cb) \<Rightarrow>
        settle (x, Some c) res cb
          (if cb_policy (bs_buf s) = Block \<and> List.member [Written, Waiting] res then s\<lparr>bs_watchers := c # bs_watchers s\<rparr> else s))"

definition do_read :: "'a \<Rightarrow> 'a buf_sys \<Rightarrow> 'a buf_sys" where
  "do_read z s = signal (s\<lparr>bs_buf := snd (Read z (bs_buf s))\<rparr>)"

definition do_run_woken :: "'a buf_sys \<Rightarrow> 'a buf_sys" where
  "do_run_woken s =
     (case bs_awake s of [] \<Rightarrow> s | w # ws \<Rightarrow>
        (case resume s w of (res, cb) \<Rightarrow> settle w res cb (s\<lparr>bs_awake := ws\<rparr>)))"

lemma do_steps:
  "buf_step z s (do_write x s)" "buf_step z s (do_write_context c x s)"
  "fst (Read z (bs_buf s)) \<noteq> None \<Longrightarrow> buf_step z s (do_read z s)"
  "bs_awake s \<noteq> [] \<Longrightarrow> buf_step z s (do_run_woken s)"
proof -
  show "buf_step z s (do_write x s)"
    by (cases "Write x (bs_buf s)") (simp add: do_write_def st_write)
  show "buf_step z s (do_write_context c x s)"
    by (cases "WriteWithContext (List.member (bs_cancelled s) c) x (bs_buf s)")
      (use st_write_context[of s c x _ _ _ z] in \<open>simp add: do_write_context_def\<close>)
  show "buf_step z s (do_read z s)" if "fst (Read z (bs_buf s)) \<noteq> None"
    using that by (cases "Read z (bs_buf s)") (auto simp: do_read_def intro: st_read)
  show "buf_step z s (do_run_woken s)" if "bs_awake s \<noteq> []"
  proof (cases "bs_awake s")
    case (Cons w ws)
    then show ?thesis using st_run_woken[of s "[]" w ws _ _ z]
      by (cases "resume s w") (simp add: do_run_woken_def)
  qed (use that in simp)
qed

theorem blocked_writers_not_stranded_witness:
  "bs_asleep (do_write 7 (do_write_context 0 6 (do_write 5 (new_sys 0 1 Block False)))) = [(6 :: int, Some 0), (7, None)] \<and>
   IsFull (bs_buf (do_write 7 (do_write_context 0 6 (do_write 5 (new_sys (0 :: int) 1 Block False))))) \<and>
   \<not> cb_closed (bs_buf (do_write 7 (do_write_context 0 6 (do_write 5 (new_sys (0 :: int) 1 Block False)))))"
proof -
  let ?s0 = "new_sys 0 1 Block False :: int buf_sys"
  let ?s2 = "do_write_context 0 6 (do_write 5 ?s0)"
  have e: "bs_asleep (do_write 7 ?s2) = [(6, Some 0), (7, None)]" "bs_awake (do_write 7 ?s2) = []"
    "bs_cancelled (do_write 7 ?s2) = []" "bs_asleep ?s2 = [(6, Some 0)]" "bs_awake ?s2 = []" "bs_cancelled ?s2 = []"
    "bs_asleep (do_write 5 ?s0) = []" "bs_awake (do_write 5 ?s0) = []" by code_simp+
  have "uncancelled_reach 0 ?s0 (do_write 7 ?s2)"
    by (intro uncancelled_reach.step[OF uncancelled_reach.step[OF uncancelled_reach.step[OF uncancelled_reach.start do_steps(1)] do_steps(2)] do_steps(1)])
      (simp_all add: uncancelled_writers_def e)
  from blocked_writers_not_stranded[OF this] e show ?thesis by simp
qed

text \<open>A \<open>WriteWithContext\<close> that is woken by a read and then finds its context cancelled returns without
  passing the wake-up on; when its helper goroutine takes the other branch of its select, a plain
  writer sleeps beside an empty buffer.\<close>

lemma cancelled_context_strands_writer:
  "\<exists>s. (buf_step 0)\<^sup>*\<^sup>* (new_sys (0 :: int) 1 Block False) s \<and>
     bs_asleep s = [(3, None)] \<and> bs_awake s = [] \<and> bs_watchers s = [] \<and> IsEmpty (bs_buf s)"
proof -
  let ?s3 = "do_write 3 (do_write_context 0 2 (do_write 1 (new_sys 0 1 Block False))) :: int buf_sys"
  let ?s4 = "?s3\<lparr>bs_cancelled := 0 # bs_cancelled ?s3\<rparr>"
  let ?s6 = "do_run_woken (do_read 0 ?s4)"
  let ?s7 = "?s6\<lparr>bs_watchers := remove1 0 (bs_watchers ?s6)\<rparr>"
  have e: "fst (Read 0 (bs_buf ?s4)) = Some 1" "bs_awake (do_read 0 ?s4) = [(2, Some 0)]"
    "bs_watchers ?s6 = [0]" "bs_asleep ?s6 = [(3, None)]" "bs_awake ?s6 = []" "IsEmpty (bs_buf ?s6)" by code_simp+
  have "(buf_step 0)\<^sup>*\<^sup>* (new_sys (0 :: int) 1 Block False) ?s3"
    using do_steps(1)[of 0 "new_sys (0 :: int) 1 Block False" 1] do_steps(2)[of 0 "do_write (1 :: int) (new_sys 0 1 Block False)" 0 2]
      do_steps(1)[of 0 "do_write_context 0 (2 :: int) (do_write 1 (new_sys 0 1 Block False))" 3]
    by (meson rtranclp.rtrancl_into_rtrancl rtranclp.rtrancl_refl)
  moreover have "buf_step 0 ?s3 ?s4" by (rule st_cancel)
  moreover have "buf_step 0 ?s4 (do_read 0 ?s4)" by (rule do_steps(3)) (simp only: e, simp)
  moreover have "buf_step 0 (do_read 0 ?s4) ?s6" by (rule do_steps(4)) (simp only: e, simp)
  moreover have "buf_step 0 ?s6 ?s7" by (rule st_watcher_exits) (simp_all only: e, auto simp: Option.these_def)
  ultimately have "(buf_step 0)\<^sup>*\<^sup>* (new_sys (0 :: int) 1 Block False) ?s7" by (meson rtranclp.rtrancl_into_rtrancl)
  moreover have "bs_asleep ?s7 = [(3, None)] \<and> bs_awake ?s7 = [] \<and> bs_watchers ?s7 = [] \<and> IsEmpty (bs_buf ?s7)"
    using e by simp
  ultimately show ?thesis by blast
qed

end
