(* ===== verification/Cache_Core.thy ===== *)
theory Cache_Core
  imports Prelude "HOL-Library.AList"
begin

text \<open>
  What the caches of \<open>pkg/cache\<close> share: key validation, statistics counters, the linked map (a Go map
  from keys to elements of a \<open>container/list\<close>, here with explicit element addresses), and the
  contract of the interface \<open>Cache\<close> as the locale \<open>cache_contract\<close>.  A Go map is an association
  list with distinct keys; its order is the iteration order.
\<close>

datatype cache_error = EmptyKey

definition validateKey :: "string \<Rightarrow> cache_error option" where
  "validateKey key = (if key = [] then Some EmptyKey else None)"

record cache_stats =
  cs_hits :: int
  cs_misses :: int
  cs_sets :: int
  cs_deletes :: int
  cs_evictions :: int
  cs_currentSize :: int
  cs_maxSize :: int

definition cs_New :: cache_stats where
  "cs_New = \<lparr>cs_hits = 0, cs_misses = 0, cs_sets = 0, cs_deletes = 0, cs_evictions = 0, cs_currentSize = 0, cs_maxSize = 0\<rparr>"

definition cs_Hit :: "cache_stats \<Rightarrow> cache_stats" where "cs_Hit s = s\<lparr>cs_hits := cs_hits s + 1\<rparr>"
definition cs_Miss :: "cache_stats \<Rightarrow> cache_stats" where "cs_Miss s = s\<lparr>cs_misses := cs_misses s + 1\<rparr>"
definition cs_Set :: "cache_stats \<Rightarrow> cache_stats" where "cs_Set s = s\<lparr>cs_sets := cs_sets s + 1\<rparr>"
definition cs_Delete :: "cache_stats \<Rightarrow> cache_stats" where "cs_Delete s = s\<lparr>cs_deletes := cs_deletes s + 1\<rparr>"
definition cs_Eviction :: "cache_stats \<Rightarrow> cache_stats" where "cs_Eviction s = s\<lparr>cs_evictions := cs_evictions s + 1\<rparr>"

definition cs_UpdateSize :: "nat \<Rightarrow> cache_stats \<Rightarrow> cache_stats" where
  "cs_UpdateSize n s =
     (let s = s\<lparr>cs_currentSize := int n\<rparr> in if int n > cs_maxSize s then s\<lparr>cs_maxSize := int n\<rparr> else s)"

subsection \<open>The linked map\<close>

record 'e lmap =
  lm_items :: "(string \<times> nat) list"
  lm_order :: "nat list"
  lm_cells :: "nat \<Rightarrow> (string \<times> 'e) option"
  lm_next :: nat

definition lm_new :: "'e lmap" where
  "lm_new = \<lparr>lm_items = [], lm_order = [], lm_cells = (\<lambda>_. None), lm_next = 0\<rparr>"

definition lm_find :: "string \<Rightarrow> 'e lmap \<Rightarrow> nat option" where
  "lm_find k m = map_of (lm_items m) k"

definition lm_entry :: "nat \<Rightarrow> 'e lmap \<Rightarrow> string \<times> 'e" where
  "lm_entry p m = the (lm_cells m p)"

definition lm_moveToFront :: "nat \<Rightarrow> 'e lmap \<Rightarrow> 'e lmap" where
  "lm_moveToFront p m = m\<lparr>lm_order := p # remove1 p (lm_order m)\<rparr>"

definition lm_assign :: "nat \<Rightarrow> 'e \<Rightarrow> 'e lmap \<Rightarrow> 'e lmap" where
  "lm_assign p e m = m\<lparr>lm_cells := (lm_cells m)(p := Some (fst (lm_entry p m), e))\<rparr>"

definition lm_pushFront :: "string \<Rightarrow> 'e \<Rightarrow> 'e lmap \<Rightarrow> 'e lmap" where
  "lm_pushFront k e m =
     m\<lparr>lm_items := AList.update k (lm_next m) (lm_items m), lm_order := lm_next m # lm_order m,
       lm_cells := (lm_cells m)(lm_next m := Some (k, e)), lm_next := lm_next m + 1\<rparr>"

definition lm_remove :: "nat \<Rightarrow> 'e lmap \<Rightarrow> 'e lmap" where
  "lm_remove p m = m\<lparr>lm_items := AList.delete (fst (lm_entry p m)) (lm_items m), lm_order := remove1 p (lm_order m)\<rparr>"

definition lm_back :: "'e lmap \<Rightarrow> nat option" where
  "lm_back m = (if lm_order m = [] then None else Some (last (lm_order m)))"

definition lm_list :: "'e lmap \<Rightarrow> (string \<times> 'e) list" where
  "lm_list m = map (\<lambda>p. lm_entry p m) (lm_order m)"

definition lm_ok :: "'e lmap \<Rightarrow> bool" where
  "lm_ok m \<longleftrightarrow> distinct (map fst (lm_items m)) \<and> distinct (lm_order m) \<and>
     (\<forall>p\<in>set (lm_order m). p < lm_next m \<and> (\<exists>k e. lm_cells m p = Some (k, e) \<and> lm_find k m = Some p)) \<and>
     (\<forall>k p. lm_find k m = Some p \<longrightarrow> p \<in> set (lm_order m) \<and> (\<exists>e. lm_cells m p = Some (k, e)))"

lemma lm_okD:
  assumes "lm_ok m"
  shows "p \<in> set (lm_order m) \<Longrightarrow> lm_find (fst (lm_entry p m)) m = Some p"
    "lm_find k m = Some p \<Longrightarrow> p \<in> set (lm_order m) \<and> fst (lm_entry p m) = k"
    "distinct (lm_order m)" "p \<in> set (lm_order m) \<Longrightarrow> p < lm_next m"
    "p \<in> set (lm_order m) \<Longrightarrow> lm_cells m p = Some (lm_entry p m)"
  using assms by (fastforce simp: lm_ok_def lm_entry_def)+

lemma lm_okE:
  assumes "lm_ok m"
  shows "distinct (map fst (lm_items m))" "distinct (lm_order m)"
    "q \<in> set (lm_order m) \<Longrightarrow> q < lm_next m \<and> (\<exists>k e. lm_cells m q = Some (k, e) \<and> lm_find k m = Some q)"
    "lm_find k m = Some q \<Longrightarrow> q \<in> set (lm_order m) \<and> (\<exists>e. lm_cells m q = Some (k, e))"
  using assms unfolding lm_ok_def by blast+

lemma lm_okI:
  assumes "distinct (map fst (lm_items m))" "distinct (lm_order m)"
    "\<And>q. q \<in> set (lm_order m) \<Longrightarrow> q < lm_next m \<and> (\<exists>k e. lm_cells m q = Some (k, e) \<and> lm_find k m = Some q)"
    "\<And>k q. lm_find k m = Some q \<Longrightarrow> q \<in> set (lm_order m) \<and> (\<exists>e. lm_cells m q = Some (k, e))"
  shows "lm_ok m"
  using assms unfolding lm_ok_def by blast

lemma lm_keys_distinct: "lm_ok m \<Longrightarrow> distinct (map fst (lm_list m))"
  unfolding lm_list_def map_map distinct_map comp_def
  by (auto simp: inj_on_def lm_okD(3)) (metis lm_okD(1) option.inject)

lemma lm_keys: "lm_ok m \<Longrightarrow> set (map fst (lm_list m)) = set (map fst (lm_items m))"
proof -
  assume ok: "lm_ok m"
  have "k \<in> fst ` set (lm_list m) \<longleftrightarrow> lm_find k m \<noteq> None" for k
    using lm_okD(1,2)[OF ok] by (force simp: lm_list_def)
  then show ?thesis by (auto simp: lm_find_def map_of_eq_None_iff)
qed

lemma lm_length: "lm_ok m \<Longrightarrow> length (lm_items m) = length (lm_list m)"
  using lm_keys lm_keys_distinct distinct_card[of "map fst (lm_items m)"] distinct_card[of "map fst (lm_list m)"]
  by (metis length_map lm_ok_def)

lemma lm_lookup: "lm_ok m \<Longrightarrow> map_of (lm_list m) k = map_option (\<lambda>p. snd (lm_entry p m)) (lm_find k m)"
proof (cases "lm_find k m")
  case None
  assume "lm_ok m"
  then have "map_of (lm_list m) k = None" using None lm_keys[of m] by (auto simp: lm_find_def map_of_eq_None_iff)
  then show ?thesis using None by simp
next
  case (Some p)
  assume ok: "lm_ok m"
  then have "(k, snd (lm_entry p m)) \<in> set (lm_list m)"
    using lm_okD(2)[OF ok Some] by (metis (no_types, lifting) image_eqI lm_list_def list.set_map prod.collapse)
  then show ?thesis using Some lm_keys_distinct[OF ok] by simp
qed

lemma lm_new_ok [simp]: "lm_ok lm_new" "lm_list lm_new = []"
  by (simp_all add: lm_ok_def lm_new_def lm_find_def lm_list_def)

lemma lm_split:
  assumes "lm_ok m" "lm_find k m = Some p"
  shows "\<exists>xs ys. lm_order m = xs @ p # ys \<and> p \<notin> set xs \<and> p \<notin> set ys \<and>
    (\<forall>q\<in>set xs \<union> set ys. fst (lm_entry q m) \<noteq> k)"
proof -
  obtain xs ys where s: "lm_order m = xs @ p # ys" using lm_okD(2)[OF assms] split_list by metis
  then have "p \<notin> set xs" "p \<notin> set ys" using lm_okD(3)[OF assms(1)] by auto
  moreover have "fst (lm_entry q m) \<noteq> k" if "q \<in> set xs \<union> set ys" for q
    using lm_okD(1)[OF assms(1), of q] that s assms(2) calculation by auto
  ultimately show ?thesis using s by blast
qed

lemma lm_drop_key:
  assumes "lm_ok m" "lm_find k m = Some p"
  shows "map (\<lambda>q. lm_entry q m) (remove1 p (lm_order m)) = filter (\<lambda>x. fst x \<noteq> k) (lm_list m)"
proof -
  obtain xs ys where s: "lm_order m = xs @ p # ys" "p \<notin> set xs" "\<forall>q\<in>set xs \<union> set ys. fst (lm_entry q m) \<noteq> k"
    using lm_split[OF assms] by blast
  have "fst (lm_entry p m) = k" using lm_okD(2)[OF assms] by blast
  then show ?thesis using s by (simp add: lm_list_def remove1_append filter_map comp_def)
qed

lemma lm_moveToFront_ok:
  assumes "lm_ok m" "lm_find k m = Some p"
  shows "lm_ok (lm_moveToFront p m)" "lm_list (lm_moveToFront p m) = (k, snd (lm_entry p m)) # filter (\<lambda>x. fst x \<noteq> k) (lm_list m)"
proof -
  have p: "p \<in> set (lm_order m)" "fst (lm_entry p m) = k" using lm_okD(2)[OF assms] by auto
  have e: "lm_entry q (lm_moveToFront p m) = lm_entry q m" for q by (simp add: lm_moveToFront_def lm_entry_def)
  have f: "lm_find k' (lm_moveToFront p m) = lm_find k' m" for k' by (simp add: lm_moveToFront_def lm_find_def)
  show "lm_list (lm_moveToFront p m) = (k, snd (lm_entry p m)) # filter (\<lambda>x. fst x \<noteq> k) (lm_list m)"
    using p lm_drop_key[OF assms] by (simp add: lm_list_def e) (simp add: lm_moveToFront_def lm_list_def prod_eq_iff)
  have "set (lm_order (lm_moveToFront p m)) = set (lm_order m)"
    using p lm_okD(3)[OF assms(1)] by (auto simp: lm_moveToFront_def)
  moreover have "distinct (lm_order (lm_moveToFront p m))"
    using lm_okD(3)[OF assms(1)] by (simp add: lm_moveToFront_def)
  ultimately show "lm_ok (lm_moveToFront p m)"
    using assms(1) unfolding lm_ok_def f by (simp add: lm_moveToFront_def)
qed

lemma lm_assign_ok:
  assumes "lm_ok m" "lm_find k m = Some p"
  shows "lm_ok (lm_assign p e m)" "lm_find k' (lm_assign p e m) = lm_find k' m" "lm_entry p (lm_assign p e m) = (k, e)"
    "filter (\<lambda>x. fst x \<noteq> k) (lm_list (lm_assign p e m)) = filter (\<lambda>x. fst x \<noteq> k) (lm_list m)"
proof -
  have p: "fst (lm_entry p m) = k" using lm_okD(2)[OF assms] by auto
  show f: "lm_find k' (lm_assign p e m) = lm_find k' m" for k' by (simp add: lm_assign_def lm_find_def)
  have "lm_cells (lm_assign p e m) p = Some (k, e)" by (simp add: lm_assign_def p)
  then show ent: "lm_entry p (lm_assign p e m) = (k, e)" by (simp add: lm_entry_def)
  have eq: "q \<noteq> p \<Longrightarrow> lm_entry q (lm_assign p e m) = lm_entry q m" for q by (simp add: lm_assign_def lm_entry_def)
  have fr: "lm_items (lm_assign p e m) = lm_items m" "lm_order (lm_assign p e m) = lm_order m" "lm_next (lm_assign p e m) = lm_next m"
    "lm_cells (lm_assign p e m) q = (if q = p then Some (k, e) else lm_cells m q)" for q
    by (simp_all add: lm_assign_def p)
  have uniq: "k' = k" if "lm_find k' m = Some p" for k' using lm_okD(2)[OF assms(1) that] p by simp
  note m = lm_okE[OF assms(1)]
  show ok: "lm_ok (lm_assign p e m)"
  proof (rule lm_okI, unfold f fr)
    fix q assume q: "q \<in> set (lm_order m)"
    then show "q < lm_next m \<and> (\<exists>k' e'. (if q = p then Some (k, e) else lm_cells m q) = Some (k', e') \<and> lm_find k' m = Some q)"
      using m(3)[OF q] assms(2) by (cases "q = p") simp_all
  next
    fix k' q assume q: "lm_find k' m = Some q"
    then show "q \<in> set (lm_order m) \<and> (\<exists>e'. (if q = p then Some (k, e) else lm_cells m q) = Some (k', e'))"
      using m(4)[OF q] uniq by (cases "q = p") simp_all
  qed (rule m)+
  have "lm_find k (lm_assign p e m) = Some p" using assms f by simp
  note drop = lm_drop_key[OF ok this]
  have "lm_order (lm_assign p e m) = lm_order m" by (simp add: lm_assign_def)
  moreover have "map (\<lambda>q. lm_entry q (lm_assign p e m)) (remove1 p (lm_order m)) = map (\<lambda>q. lm_entry q m) (remove1 p (lm_order m))"
    using eq lm_okD(3)[OF assms(1)] by (intro map_cong) auto
  ultimately show "filter (\<lambda>x. fst x \<noteq> k) (lm_list (lm_assign p e m)) = filter (\<lambda>x. fst x \<noteq> k) (lm_list m)"
    using drop lm_drop_key[OF assms] by simp
qed

lemma lm_pushFront_ok:
  assumes "lm_ok m" "lm_find k m = None"
  shows "lm_ok (lm_pushFront k e m)" "lm_list (lm_pushFront k e m) = (k, e) # lm_list m"
proof -
  have n: "lm_next m \<notin> set (lm_order m)" using lm_okD(4)[OF assms(1)] by blast
  have e: "q \<in> set (lm_order m) \<Longrightarrow> lm_entry q (lm_pushFront k e m) = lm_entry q m" for q
    using n by (auto simp: lm_pushFront_def lm_entry_def)
  show "lm_list (lm_pushFront k e m) = (k, e) # lm_list m"
    using e by (simp add: lm_list_def) (simp add: lm_pushFront_def lm_entry_def)
  have f: "lm_find k' (lm_pushFront k e m) = (if k' = k then Some (lm_next m) else lm_find k' m)" for k'
    by (simp add: lm_pushFront_def lm_find_def update_conv)
  have fr: "lm_order (lm_pushFront k e m) = lm_next m # lm_order m" "lm_next (lm_pushFront k e m) = lm_next m + 1"
    "lm_cells (lm_pushFront k e m) q = (if q = lm_next m then Some (k, e) else lm_cells m q)" for q
    by (simp_all add: lm_pushFront_def)
  note m = lm_okE[OF assms(1)]
  show "lm_ok (lm_pushFront k e m)"
  proof (rule lm_okI)
    show "distinct (map fst (lm_items (lm_pushFront k e m)))" using m(1) by (simp add: lm_pushFront_def distinct_update)
    show "distinct (lm_order (lm_pushFront k e m))" using m(2) n by (simp add: fr)
  next
    fix q assume "q \<in> set (lm_order (lm_pushFront k e m))"
    then consider "q = lm_next m" | "q \<in> set (lm_order m)" "q \<noteq> lm_next m" using n by (auto simp: fr)
    then show "q < lm_next (lm_pushFront k e m) \<and>
      (\<exists>k' e'. lm_cells (lm_pushFront k e m) q = Some (k', e') \<and> lm_find k' (lm_pushFront k e m) = Some q)"
    proof cases
      case 2
      obtain k' e' where k': "lm_cells m q = Some (k', e')" "lm_find k' m = Some q" "q < lm_next m" using m(3)[OF 2(1)] by blast
      then have "k' \<noteq> k" using assms(2) by auto
      then show ?thesis using k' 2 by (simp add: fr f)
    qed (simp add: fr f)
  next
    fix k' q assume "lm_find k' (lm_pushFront k e m) = Some q"
    then show "q \<in> set (lm_order (lm_pushFront k e m)) \<and> (\<exists>e'. lm_cells (lm_pushFront k e m) q = Some (k', e'))"
      using m(4)[of k' q] n by (cases "k' = k") (auto simp: fr f)
  qed
qed

lemma lm_remove_ok:
  assumes "lm_ok m" "lm_find k m = Some p"
  shows "lm_ok (lm_remove p m)" "lm_list (lm_remove p m) = filter (\<lambda>x. fst x \<noteq> k) (lm_list m)"
proof -
  have p: "fst (lm_entry p m) = k" using lm_okD(2)[OF assms] by auto
  have e: "lm_entry q (lm_remove p m) = lm_entry q m" for q by (simp add: lm_remove_def lm_entry_def)
  show "lm_list (lm_remove p m) = filter (\<lambda>x. fst x \<noteq> k) (lm_list m)"
    using lm_drop_key[OF assms] by (simp add: lm_list_def e) (simp add: lm_remove_def lm_list_def)
  have f: "lm_find k' (lm_remove p m) = (if k' = k then None else lm_find k' m)" for k'
    by (simp add: lm_remove_def lm_find_def delete_conv p)
  have fr: "lm_order (lm_remove p m) = remove1 p (lm_order m)" "lm_next (lm_remove p m) = lm_next m"
    "lm_cells (lm_remove p m) = lm_cells m" by (simp_all add: lm_remove_def)
  note m = lm_okE[OF assms(1)]
  have st: "set (remove1 p (lm_order m)) = set (lm_order m) - {p}" using m(2) by simp
  show "lm_ok (lm_remove p m)"
  proof (rule lm_okI)
    show "distinct (map fst (lm_items (lm_remove p m)))" using m(1) by (simp add: lm_remove_def distinct_delete)
    show "distinct (lm_order (lm_remove p m))" using m(2) by (simp add: fr)
  next
    fix q assume q: "q \<in> set (lm_order (lm_remove p m))"
    then obtain k' e' where k': "lm_cells m q = Some (k', e')" "lm_find k' m = Some q" "q < lm_next m" "q \<noteq> p"
      using m(3)[of q] st by (auto simp: fr)
    then have "k' \<noteq> k" using assms(2) by auto
    then show "q < lm_next (lm_remove p m) \<and>
      (\<exists>k' e'. lm_cells (lm_remove p m) q = Some (k', e') \<and> lm_find k' (lm_remove p m) = Some q)"
      using k' by (simp add: fr f)
  next
    fix k' q assume "lm_find k' (lm_remove p m) = Some q"
    then have k': "k' \<noteq> k" "lm_find k' m = Some q" by (simp_all add: f split: if_splits)
    then have "q \<noteq> p" using lm_okD(2)[OF assms(1) k'(2)] p by auto
    then show "q \<in> set (lm_order (lm_remove p m)) \<and> (\<exists>e'. lm_cells (lm_remove p m) q = Some (k', e'))"
      using m(4)[OF k'(2)] st by (simp add: fr)
  qed
qed

lemma lm_back_last: "lm_ok m \<Longrightarrow> lm_back m = Some p \<Longrightarrow>
    lm_find (fst (lm_entry p m)) m = Some p \<and> lm_list m = butlast (lm_list m) @ [lm_entry p m] \<and>
    filter (\<lambda>x. fst x \<noteq> fst (lm_entry p m)) (lm_list m) = butlast (lm_list m)"
proof -
  assume ok: "lm_ok m" and b: "lm_back m = Some p"
  then have o: "lm_order m \<noteq> []" "p = last (lm_order m)" by (auto simp: lm_back_def split: if_splits)
  then have l: "lm_list m = butlast (lm_list m) @ [lm_entry p m]"
    by (metis append_butlast_last_id last_map list.map_disc_iff lm_list_def)
  then have "distinct (map fst (butlast (lm_list m) @ [lm_entry p m]))" using lm_keys_distinct[OF ok] by metis
  then have "fst (lm_entry p m) \<notin> fst ` set (butlast (lm_list m))" by simp
  then have "\<forall>x\<in>set (butlast (lm_list m)). fst x \<noteq> fst (lm_entry p m)" by (metis image_eqI)
  then have "filter (\<lambda>x. fst x \<noteq> fst (lm_entry p m)) (lm_list m) = butlast (lm_list m)"
    by (subst l) (simp add: filter_id_conv)
  then show ?thesis using l lm_okD(1)[OF ok] o by simp
qed

subsection \<open>The contract\<close>

text \<open>The operations of a cache in the order of their critical sections, with the clock readings
  they use.  \<open>OpExpire\<close> is the background sweep, \<open>OpEvict\<close> the removal of one expired entry.\<close>

datatype 'v cache_op =
    OpGet string time | OpSet string 'v time | OpDelete string | OpClear | OpExpire time | OpEvict string time

text \<open>The last value set for a key and not deleted since, with the clock reading of that \<open>Set\<close>.\<close>

fun last_set :: "'v cache_op list \<Rightarrow> string \<Rightarrow> ('v \<times> time) option" where
  "last_set [] k = None"
| "last_set (OpSet k' v t # ops) k = (if k' = k \<and> k \<noteq> [] then Some (v, t) else last_set ops k)"
| "last_set (OpDelete k' # ops) k = (if k' = k then None else last_set ops k)"
| "last_set (OpClear # ops) k = None"
| "last_set (OpGet k' t # ops) k = last_set ops k"
| "last_set (OpExpire t # ops) k = last_set ops k"
| "last_set (OpEvict k' t # ops) k = last_set ops k"

text \<open>A provider keeps for each key at most the value of its last \<open>Set\<close>, with the time of it where
  entries expire.  Runs are lists with the latest operation first.\<close>

locale cache_contract =
  fixes good :: "'s \<Rightarrow> bool" and init :: 's and held :: "'s \<Rightarrow> string \<Rightarrow> ('v \<times> time) option"
    and step :: "'v cache_op \<Rightarrow> 's \<Rightarrow> 's" and same :: "time \<Rightarrow> time \<Rightarrow> bool"
  assumes init_good: "good init" and init_empty: "held init k = None"
    and step_good: "good s \<Longrightarrow> good (step op s)"
    and set_held: "good s \<Longrightarrow> held (step (OpSet k v t) s) k' = Some (w, u) \<Longrightarrow>
      (if k' = k \<and> k \<noteq> [] then w = v \<and> same t u else held s k' = Some (w, u))"
    and delete_held: "good s \<Longrightarrow> held (step (OpDelete k) s) k' = Some x \<Longrightarrow> k' \<noteq> k \<and> held s k' = Some x"
    and clear_held: "good s \<Longrightarrow> held (step OpClear s) k = None"
    and other_held: "good s \<Longrightarrow> (case op of OpGet _ _ \<Rightarrow> True | OpExpire _ \<Rightarrow> True | OpEvict _ _ \<Rightarrow> True | _ \<Rightarrow> False) \<Longrightarrow>
      held (step op s) k = Some x \<Longrightarrow> held s k = Some x"
begin

definition run :: "'v cache_op list \<Rightarrow> 's" where
  "run ops = foldr step ops init"

lemma run_good: "good (run ops)"
  by (induction ops) (simp_all add: run_def init_good step_good)

text \<open>Coherence: whatever is held for a key is what was last set for it.\<close>

lemma coherent: "held (run ops) k = Some (w, u) \<Longrightarrow> \<exists>t. last_set ops k = Some (w, t) \<and> same t u"
proof (induction ops arbitrary: w u)
  case Nil
  then show ?case by (simp add: run_def init_empty)
next
  case (Cons op ops)
  have g: "good (run ops)" by (rule run_good)
  have h: "held (step op (run ops)) k = Some (w, u)" using Cons.prems by (simp add: run_def)
  show ?case
  proof (cases op)
    case (OpSet k' v t)
    then show ?thesis using set_held[OF g h[unfolded OpSet]] Cons.IH by (auto split: if_splits)
  next
    case (OpDelete k')
    then show ?thesis using delete_held[OF g h[unfolded OpDelete]] Cons.IH by auto
  next
    case OpClear
    then show ?thesis using clear_held[OF g, of k] h by simp
  qed (use other_held[OF g _ h] Cons.IH in auto)
qed

end

end
