(* ===== verification/Caches.thy ===== *)
theory Caches
  imports Cache_Core
begin

text \<open>
  The caches of \<open>pkg/cache\<close>: simple, LRU, TTL and hybrid, each interpreted as \<open>cache_contract\<close>, and
  the coalescing set.  Every method is its critical section (\<open>ttl_Get\<close> has two: \<open>ttl_find\<close> under the
  read lock and \<open>ttl_evict\<close>); the evictions handed to the callback are part of the result; clock
  readings are arguments.  Prometheus metrics are left out.
\<close>

subsection \<open>The simple cache\<close>

record 'v simpleCache =
  sc_items :: "(string \<times> 'v) list"
  sc_stats :: cache_stats
  sc_evictFn :: bool

definition newSimpleCache :: "bool \<Rightarrow> 'v simpleCache" where
  "newSimpleCache evictFn = \<lparr>sc_items = [], sc_stats = cs_New, sc_evictFn = evictFn\<rparr>"

definition simple_Get :: "string \<Rightarrow> 'v simpleCache \<Rightarrow> 'v option \<times> 'v simpleCache" where
  "simple_Get key c =
     (let v = map_of (sc_items c) key in
      (v, c\<lparr>sc_stats := (if v \<noteq> None then cs_Hit (sc_stats c) else cs_Miss (sc_stats c))\<rparr>))"

definition simple_Set :: "string \<Rightarrow> 'v \<Rightarrow> 'v simpleCache \<Rightarrow> (cache_error + bool) \<times> 'v simpleCache" where
  "simple_Set key v c =
     (case validateKey key of Some e \<Rightarrow> (Inl e, c)
      | None \<Rightarrow>
          let present = (map_of (sc_items c) key \<noteq> None); items = AList.update key v (sc_items c) in
          (Inr (\<not> present), c\<lparr>sc_items := items, sc_stats := cs_UpdateSize (length items) (cs_Set (sc_stats c))\<rparr>))"

definition simple_Delete :: "string \<Rightarrow> 'v simpleCache \<Rightarrow> (cache_error + bool) \<times> (string \<times> 'v) list \<times> 'v simpleCache" where
  "simple_Delete key c =
     (case validateKey key of Some e \<Rightarrow> (Inl e, [], c)
      | None \<Rightarrow>
          (case map_of (sc_items c) key of None \<Rightarrow> (Inr False, [], c)
           | Some v \<Rightarrow>
               let items = AList.delete key (sc_items c) in
               (Inr True, if sc_evictFn c then [(key, v)] else [],
                c\<lparr>sc_items := items, sc_stats := cs_UpdateSize (length items) (cs_Delete (sc_stats c))\<rparr>)))"

definition simple_Clear :: "'v simpleCache \<Rightarrow> (string \<times> 'v) list \<times> 'v simpleCache" where
  "simple_Clear c = (if sc_evictFn c then sc_items c else [], c\<lparr>sc_items := [], sc_stats := cs_UpdateSize 0 (sc_stats c)\<rparr>)"

definition simple_Size :: "'v simpleCache \<Rightarrow> nat" where "simple_Size c = length (sc_items c)"
definition simple_Keys :: "'v simpleCache \<Rightarrow> string list" where "simple_Keys c = map fst (sc_items c)"

subsection \<open>The LRU cache\<close>

record 'v lruCache =
  lc_maxSize :: int
  lc_map :: "'v lmap"
  lc_stats :: cache_stats
  lc_evictFn :: bool

definition newLRUCache :: "int \<Rightarrow> bool \<Rightarrow> 'v lruCache" where
  "newLRUCache maxSize evictFn = \<lparr>lc_maxSize = maxSize, lc_map = lm_new, lc_stats = cs_New, lc_evictFn = evictFn\<rparr>"

definition lru_Get :: "string \<Rightarrow> 'v lruCache \<Rightarrow> 'v option \<times> 'v lruCache" where
  "lru_Get key c =
     (case lm_find key (lc_map c) of
        None \<Rightarrow> (None, c\<lparr>lc_stats := cs_Miss (lc_stats c)\<rparr>)
      | Some p \<Rightarrow> (Some (snd (lm_entry p (lc_map c))),
                  c\<lparr>lc_map := lm_moveToFront p (lc_map c), lc_stats := cs_Hit (lc_stats c)\<rparr>))"

definition lru_evictLRU :: "'v lruCache \<Rightarrow> (string \<times> 'v) list \<times> 'v lruCache" where
  "lru_evictLRU c =
     (case lm_back (lc_map c) of None \<Rightarrow> ([], c)
      | Some p \<Rightarrow> (if lc_evictFn c then [lm_entry p (lc_map c)] else [],
                  c\<lparr>lc_map := lm_remove p (lc_map c), lc_stats := cs_Eviction (lc_stats c)\<rparr>))"

definition lru_Set :: "string \<Rightarrow> 'v \<Rightarrow> 'v lruCache \<Rightarrow> (cache_error + bool) \<times> (string \<times> 'v) list \<times> 'v lruCache" where
  "lru_Set key v c =
     (case validateKey key of Some e \<Rightarrow> (Inl e, [], c)
      | None \<Rightarrow>
          (case lm_find key (lc_map c) of
             Some p \<Rightarrow> (Inr False, [],
               c\<lparr>lc_map := lm_moveToFront p (lm_assign p v (lc_map c)), lc_stats := cs_Set (lc_stats c)\<rparr>)
           | None \<Rightarrow>
               let c = c\<lparr>lc_map := lm_pushFront key v (lc_map c)\<rparr>;
                   (ev, c) = (if int (length (lm_items (lc_map c))) > lc_maxSize c then lru_evictLRU c else ([], c))
               in (Inr True, ev, c\<lparr>lc_stats := cs_UpdateSize (length (lm_items (lc_map c))) (cs_Set (lc_stats c))\<rparr>)))"

definition lru_Delete :: "string \<Rightarrow> 'v lruCache \<Rightarrow> (cache_error + bool) \<times> (string \<times> 'v) list \<times> 'v lruCache" where
  "lru_Delete key c =
     (case validateKey key of Some e \<Rightarrow> (Inl e, [], c)
      | None \<Rightarrow>
          (case lm_find key (lc_map c) of None \<Rightarrow> (Inr False, [], c)
           | Some p \<Rightarrow>
               let m = lm_remove p (lc_map c) in
               (Inr True, if lc_evictFn c then [lm_entry p (lc_map c)] else [],
                c\<lparr>lc_map := m, lc_stats := cs_UpdateSize (length (lm_items m)) (cs_Delete (lc_stats c))\<rparr>)))"

definition lru_Clear :: "'v lruCache \<Rightarrow> (string \<times> 'v) list \<times> 'v lruCache" where
  "lru_Clear c =
     (if lc_evictFn c then rev (lm_list (lc_map c)) else [],
      c\<lparr>lc_map := (lc_map c)\<lparr>lm_items := [], lm_order := []\<rparr>, lc_stats := cs_UpdateSize 0 (lc_stats c)\<rparr>)"

definition lru_Size :: "'v lruCache \<Rightarrow> nat" where "lru_Size c = length (lm_items (lc_map c))"
definition lru_Keys :: "'v lruCache \<Rightarrow> string list" where "lru_Keys c = map fst (lm_list (lc_map c))"

subsection \<open>The TTL cache\<close>

record 'v ttlEntry =
  te_value :: 'v
  te_expiresAt :: time

definition ttl_isExpired :: "time \<Rightarrow> 'v ttlEntry \<Rightarrow> bool" where
  "ttl_isExpired now e \<longleftrightarrow> now > te_expiresAt e"

record 'v ttlCache =
  tc_ttl :: int
  tc_items :: "(string \<times> 'v ttlEntry) list"
  tc_stats :: cache_stats
  tc_evictFn :: bool

definition newTTLCache :: "int \<Rightarrow> bool \<Rightarrow> 'v ttlCache" where
  "newTTLCache ttl evictFn = \<lparr>tc_ttl = ttl, tc_items = [], tc_stats = cs_New, tc_evictFn = evictFn\<rparr>"

text \<open>\<open>Get\<close>: the read under the read lock and the decision on the first clock reading.\<close>

datatype 'v ttl_found = Missing | Expired | Fresh 'v

definition ttl_find :: "string \<Rightarrow> time \<Rightarrow> 'v ttlCache \<Rightarrow> 'v ttl_found" where
  "ttl_find key now c =
     (case map_of (tc_items c) key of None \<Rightarrow> Missing
      | Some e \<Rightarrow> if ttl_isExpired now e then Expired else Fresh (te_value e))"

definition ttl_evict :: "string \<Rightarrow> time \<Rightarrow> 'v ttlCache \<Rightarrow> (string \<times> 'v) list \<times> 'v ttlCache" where
  "ttl_evict key now c =
     (case map_of (tc_items c) key of None \<Rightarrow> ([], c)
      | Some e \<Rightarrow>
          if ttl_isExpired now e then
            let items = AList.delete key (tc_items c) in
            (if tc_evictFn c then [(key, te_value e)] else [],
             c\<lparr>tc_items := items, tc_stats := cs_UpdateSize (length items) (cs_Eviction (tc_stats c))\<rparr>)
          else ([], c))"

definition ttl_Get :: "string \<Rightarrow> time \<Rightarrow> time \<Rightarrow> 'v ttlCache \<Rightarrow> 'v option \<times> (string \<times> 'v) list \<times> 'v ttlCache" where
  "ttl_Get key now1 now2 c =
     (case ttl_find key now1 c of
        Missing \<Rightarrow> (None, [], c\<lparr>tc_stats := cs_Miss (tc_stats c)\<rparr>)
      | Expired \<Rightarrow> (let (ev, c) = ttl_evict key now2 c in (None, ev, c\<lparr>tc_stats := cs_Miss (tc_stats c)\<rparr>))
      | Fresh v \<Rightarrow> (Some v, [], c\<lparr>tc_stats := cs_Hit (tc_stats c)\<rparr>))"

definition ttl_Set :: "string \<Rightarrow> 'v \<Rightarrow> time \<Rightarrow> 'v ttlCache \<Rightarrow> (cache_error + bool) \<times> 'v ttlCache" where
  "ttl_Set key v now c =
     (case validateKey key of Some e \<Rightarrow> (Inl e, c)
      | None \<Rightarrow>
          let present = (map_of (tc_items c) key \<noteq> None);
              items = AList.update key \<lparr>te_value = v, te_expiresAt = now + tc_ttl c\<rparr> (tc_items c)
          in (Inr (\<not> present), c\<lparr>tc_items := items, tc_stats := cs_UpdateSize (length items) (cs_Set (tc_stats c))\<rparr>))"

definition ttl_Delete :: "string \<Rightarrow> 'v ttlCache \<Rightarrow> (cache_error + bool) \<times> (string \<times> 'v) list \<times> 'v ttlCache" where
  "ttl_Delete key c =
     (case validateKey key of Some e \<Rightarrow> (Inl e, [], c)
      | None \<Rightarrow>
          (case map_of (tc_items c) key of None \<Rightarrow> (Inr False, [], c)
           | Some e \<Rightarrow>
               let items = AList.delete key (tc_items c) in
               (Inr True, if tc_evictFn c then [(key, te_value e)] else [],
                c\<lparr>tc_items := items, tc_stats := cs_UpdateSize (length items) (cs_Delete (tc_stats c))\<rparr>)))"

definition ttl_Clear :: "'v ttlCache \<Rightarrow> (string \<times> 'v) list \<times> 'v ttlCache" where
  "ttl_Clear c =
     (if tc_evictFn c then map (\<lambda>(k, e). (k, te_value e)) (tc_items c) else [],
      c\<lparr>tc_items := [], tc_stats := cs_UpdateSize 0 (tc_stats c)\<rparr>)"

definition ttl_removeExpired :: "time \<Rightarrow> 'v ttlCache \<Rightarrow> (string \<times> 'v) list \<times> 'v ttlCache" where
  "ttl_removeExpired now c =
     (let expired = filter (\<lambda>(k, e). ttl_isExpired now e) (tc_items c);
          items = filter (\<lambda>(k, e). \<not> ttl_isExpired now e) (tc_items c);
          c = c\<lparr>tc_items := items\<rparr>
      in (if tc_evictFn c then map (\<lambda>(k, e). (k, te_value e)) expired else [],
          if expired \<noteq> [] then c\<lparr>tc_stats := cs_UpdateSize (length items) ((cs_Eviction ^^ length expired) (tc_stats c))\<rparr> else c))"

definition ttl_Size :: "'v ttlCache \<Rightarrow> nat" where "ttl_Size c = length (tc_items c)"

definition ttl_Keys :: "time \<Rightarrow> 'v ttlCache \<Rightarrow> string list" where
  "ttl_Keys now c = map fst (filter (\<lambda>(k, e). now < te_expiresAt e) (tc_items c))"

subsection \<open>The hybrid cache\<close>

record 'v hybridCache =
  hc_maxSize :: int
  hc_ttl :: int
  hc_map :: "'v ttlEntry lmap"
  hc_stats :: cache_stats
  hc_evictFn :: bool

definition newHybridCache :: "int \<Rightarrow> int \<Rightarrow> bool \<Rightarrow> 'v hybridCache" where
  "newHybridCache maxSize ttl evictFn =
     \<lparr>hc_maxSize = maxSize, hc_ttl = ttl, hc_map = lm_new, hc_stats = cs_New, hc_evictFn = evictFn\<rparr>"

definition hybrid_removeElement :: "nat \<Rightarrow> 'v hybridCache \<Rightarrow> (string \<times> 'v) list \<times> 'v hybridCache" where
  "hybrid_removeElement p c =
     (if hc_evictFn c then [(fst (lm_entry p (hc_map c)), te_value (snd (lm_entry p (hc_map c))))] else [],
      c\<lparr>hc_map := lm_remove p (hc_map c)\<rparr>)"

definition hybrid_Get :: "string \<Rightarrow> time \<Rightarrow> 'v hybridCache \<Rightarrow> 'v option \<times> (string \<times> 'v) list \<times> 'v hybridCache" where
  "hybrid_Get key now c =
     (case lm_find key (hc_map c) of
        None \<Rightarrow> (None, [], c\<lparr>hc_stats := cs_Miss (hc_stats c)\<rparr>)
      | Some p \<Rightarrow>
          let e = snd (lm_entry p (hc_map c)) in
          if ttl_isExpired now e then
            (let (ev, c) = hybrid_removeElement p c in
             (None, ev, c\<lparr>hc_stats := cs_UpdateSize (length (lm_items (hc_map c))) (cs_Miss (cs_Eviction (hc_stats c)))\<rparr>))
          else (Some (te_value e), [], c\<lparr>hc_map := lm_moveToFront p (hc_map c), hc_stats := cs_Hit (hc_stats c)\<rparr>))"

definition hybrid_evictLRU :: "'v hybridCache \<Rightarrow> (string \<times> 'v) list \<times> 'v hybridCache" where
  "hybrid_evictLRU c =
     (case lm_back (hc_map c) of None \<Rightarrow> ([], c)
      | Some p \<Rightarrow> (let (ev, c) = hybrid_removeElement p c in (ev, c\<lparr>hc_stats := cs_Eviction (hc_stats c)\<rparr>)))"

definition hybrid_Set :: "string \<Rightarrow> 'v \<Rightarrow> time \<Rightarrow> 'v hybridCache \<Rightarrow> (cache_error + bool) \<times> (string \<times> 'v) list \<times> 'v hybridCache" where
  "hybrid_Set key v now c =
     (case validateKey key of Some e \<Rightarrow> (Inl e, [], c)
      | None \<Rightarrow>
          let entry = \<lparr>te_value = v, te_expiresAt = now + hc_ttl c\<rparr> in
          (case lm_find key (hc_map c) of
             Some p \<Rightarrow> (Inr False, [],
               c\<lparr>hc_map := lm_moveToFront p (lm_assign p entry (hc_map c)), hc_stats := cs_Set (hc_stats c)\<rparr>)
           | None \<Rightarrow>
               let c = c\<lparr>hc_map := lm_pushFront key entry (hc_map c)\<rparr>;
                   (ev, c) = (if int (length (lm_items (hc_map c))) > hc_maxSize c then hybrid_evictLRU c else ([], c))
               in (Inr True, ev, c\<lparr>hc_stats := cs_UpdateSize (length (lm_items (hc_map c))) (cs_Set (hc_stats c))\<rparr>)))"

definition hybrid_Delete :: "string \<Rightarrow> 'v hybridCache \<Rightarrow> (cache_error + bool) \<times> (string \<times> 'v) list \<times> 'v hybridCache" where
  "hybrid_Delete key c =
     (case validateKey key of Some e \<Rightarrow> (Inl e, [], c)
      | None \<Rightarrow>
          (case lm_find key (hc_map c) of None \<Rightarrow> (Inr False, [], c)
           | Some p \<Rightarrow>
               (let (ev, c) = hybrid_removeElement p c in
                (Inr True, ev, c\<lparr>hc_stats := cs_UpdateSize (length (lm_items (hc_map c))) (cs_Delete (hc_stats c))\<rparr>))))"

definition hybrid_Clear :: "'v hybridCache \<Rightarrow> (string \<times> 'v) list \<times> 'v hybridCache" where
  "hybrid_Clear c =
     (if hc_evictFn c then map (\<lambda>(k, e). (k, te_value e)) (rev (lm_list (hc_map c))) else [],
      c\<lparr>hc_map := (hc_map c)\<lparr>lm_items := [], lm_order := []\<rparr>, hc_stats := cs_UpdateSize 0 (hc_stats c)\<rparr>)"

definition hybrid_removeExpired :: "time \<Rightarrow> 'v hybridCache \<Rightarrow> (string \<times> 'v) list \<times> 'v hybridCache" where
  "hybrid_removeExpired now c =
     (let expired = filter (\<lambda>p. ttl_isExpired now (snd (lm_entry p (hc_map c)))) (lm_order (hc_map c));
          m = fold lm_remove expired (hc_map c)
      in (if hc_evictFn c then map (\<lambda>p. (fst (lm_entry p (hc_map c)), te_value (snd (lm_entry p (hc_map c))))) expired else [],
          if expired \<noteq> []
          then c\<lparr>hc_map := m, hc_stats := cs_UpdateSize (length (lm_items m)) ((cs_Eviction ^^ length expired) (hc_stats c))\<rparr>
          else c\<lparr>hc_map := m\<rparr>))"

definition hybrid_Size :: "'v hybridCache \<Rightarrow> nat" where "hybrid_Size c = length (lm_items (hc_map c))"

definition hybrid_Keys :: "time \<Rightarrow> 'v hybridCache \<Rightarrow> string list" where
  "hybrid_Keys now c = map fst (filter (\<lambda>(k, e). now < te_expiresAt e) (lm_list (hc_map c)))"

subsection \<open>Sequences of operations\<close>

fun simple_step :: "'v cache_op \<Rightarrow> 'v simpleCache \<Rightarrow> 'v simpleCache" where
  "simple_step (OpGet k t) c = snd (simple_Get k c)"
| "simple_step (OpSet k v t) c = snd (simple_Set k v c)"
| "simple_step (OpDelete k) c = snd (snd (simple_Delete k c))"
| "simple_step OpClear c = snd (simple_Clear c)"
| "simple_step (OpExpire t) c = c"
| "simple_step (OpEvict k t) c = c"

fun lru_step :: "'v cache_op \<Rightarrow> 'v lruCache \<Rightarrow> 'v lruCache" where
  "lru_step (OpGet k t) c = snd (lru_Get k c)"
| "lru_step (OpSet k v t) c = snd (snd (lru_Set k v c))"
| "lru_step (OpDelete k) c = snd (snd (lru_Delete k c))"
| "lru_step OpClear c = snd (lru_Clear c)"
| "lru_step (OpExpire t) c = c"
| "lru_step (OpEvict k t) c = c"

fun ttl_step :: "'v cache_op \<Rightarrow> 'v ttlCache \<Rightarrow> 'v ttlCache" where
  "ttl_step (OpGet k t) c = (case ttl_Get k t t c of (_, _, c') \<Rightarrow> c')"
| "ttl_step (OpSet k v t) c = snd (ttl_Set k v t c)"
| "ttl_step (OpDelete k) c = snd (snd (ttl_Delete k c))"
| "ttl_step OpClear c = snd (ttl_Clear c)"
| "ttl_step (OpExpire t) c = snd (ttl_removeExpired t c)"
| "ttl_step (OpEvict k t) c = snd (ttl_evict k t c)"

fun hybrid_step :: "'v cache_op \<Rightarrow> 'v hybridCache \<Rightarrow> 'v hybridCache" where
  "hybrid_step (OpGet k t) c = snd (snd (hybrid_Get k t c))"
| "hybrid_step (OpSet k v t) c = snd (snd (hybrid_Set k v t c))"
| "hybrid_step (OpDelete k) c = snd (snd (hybrid_Delete k c))"
| "hybrid_step OpClear c = snd (hybrid_Clear c)"
| "hybrid_step (OpExpire t) c = snd (hybrid_removeExpired t c)"
| "hybrid_step (OpEvict k t) c = c"

subsection \<open>The simple cache keeps the contract\<close>

definition simple_held :: "'v simpleCache \<Rightarrow> string \<Rightarrow> ('v \<times> time) option" where
  "simple_held c k = map_option (\<lambda>v. (v, 0)) (map_of (sc_items c) k)"

lemmas simple_defs = simple_Get_def simple_Set_def simple_Delete_def simple_Clear_def simple_held_def validateKey_def Let_def

interpretation simple: cache_contract "\<lambda>c. map_of (sc_items c) [] = None" "newSimpleCache ev" simple_held simple_step "\<lambda>_ _. True" for ev
proof
  show "map_of (sc_items (simple_step op s)) [] = None" if "map_of (sc_items s) [] = None" for op and s :: "'a simpleCache"
    using that by (cases op) (auto simp: simple_defs update_conv' delete_conv' split: option.splits)
qed (auto simp: newSimpleCache_def simple_defs update_conv' delete_conv' split: option.splits if_splits cache_op.splits)

subsection \<open>The LRU cache keeps the contract\<close>

definition lru_held :: "'v lruCache \<Rightarrow> string \<Rightarrow> ('v \<times> time) option" where
  "lru_held c k = map_option (\<lambda>v. (v, 0)) (map_of (lm_list (lc_map c)) k)"

text \<open>The methods on the recency list, most recently used first.\<close>

definition trim :: "int \<Rightarrow> 'a list \<Rightarrow> 'a list" where
  "trim n xs = (if int (length xs) > n then butlast xs else xs)"

definition touch :: "string \<Rightarrow> 'e \<Rightarrow> (string \<times> 'e) list \<Rightarrow> (string \<times> 'e) list" where
  "touch k e xs = (k, e) # filter (\<lambda>x. fst x \<noteq> k) xs"

lemma map_of_touch: "map_of (touch k e xs) k' = (if k' = k then Some e else map_of xs k')"
  by (simp add: touch_def map_of_filter_key)

lemma map_of_butlast: "distinct (map fst xs) \<Longrightarrow> map_of (butlast xs) k = Some e \<Longrightarrow> map_of xs k = Some e"
  by (metis (no_types, lifting) distinct_butlast in_set_butlastD map_butlast map_of_SomeD map_of_is_SomeI)

lemma lru_Get_list:
  assumes "lm_ok (lc_map c)"
  shows "lm_ok (lc_map (snd (lru_Get k c)))" "fst (lru_Get k c) = map_of (lm_list (lc_map c)) k"
    "lm_list (lc_map (snd (lru_Get k c))) =
       (case map_of (lm_list (lc_map c)) k of None \<Rightarrow> lm_list (lc_map c) | Some v \<Rightarrow> touch k v (lm_list (lc_map c)))"
  using assms lm_moveToFront_ok[OF assms, of k] lm_lookup[OF assms, of k]
  by (auto simp: lru_Get_def touch_def split: option.splits)

text \<open>\<open>Set\<close> and \<open>Delete\<close> on the linked map, as the LRU and the hybrid cache share them.\<close>

definition lm_put :: "int \<Rightarrow> string \<Rightarrow> 'e \<Rightarrow> 'e lmap \<Rightarrow> 'e lmap" where
  "lm_put n k e m =
     (case lm_find k m of
        Some p \<Rightarrow> lm_moveToFront p (lm_assign p e m)
      | None \<Rightarrow> let m = lm_pushFront k e m in
          if int (length (lm_items m)) > n then (case lm_back m of None \<Rightarrow> m | Some p \<Rightarrow> lm_remove p m) else m)"

lemma lm_evict:
  assumes "lm_ok m" "lm_list m \<noteq> []"
  obtains p where "lm_back m = Some p" "lm_ok (lm_remove p m)" "lm_list (lm_remove p m) = butlast (lm_list m)"
proof -
  obtain p where p: "lm_back m = Some p" using assms(2) by (auto simp: lm_back_def lm_list_def)
  from lm_back_last[OF assms(1) p] lm_remove_ok[OF assms(1)] show thesis using that p by metis
qed

lemma lm_put_ok:
  assumes "lm_ok m"
  shows "lm_ok (lm_put n k e m) \<and> lm_list (lm_put n k e m) =
    (if map_of (lm_list m) k \<noteq> None then touch k e (lm_list m) else trim n ((k, e) # lm_list m))"
proof (cases "lm_find k m")
  case (Some p)
  note a = lm_assign_ok[OF assms Some, where e = e]
  have f: "lm_find k (lm_assign p e m) = Some p" using a(2) Some by simp
  show ?thesis using lm_moveToFront_ok[OF a(1) f] a(3,4) Some lm_lookup[OF assms, of k]
    by (simp add: lm_put_def touch_def)
next
  case None
  note p = lm_pushFront_ok[OF assms None, of e]
  have ne: "lm_list (lm_pushFront k e m) \<noteq> []" using p(2) by simp
  obtain q where q: "lm_back (lm_pushFront k e m) = Some q" "lm_ok (lm_remove q (lm_pushFront k e m))"
    "lm_list (lm_remove q (lm_pushFront k e m)) = butlast (lm_list (lm_pushFront k e m))"
    by (rule lm_evict[OF p(1) ne])
  show ?thesis using None p q lm_lookup[OF assms, of k] lm_length[OF p(1)]
    by (simp add: lm_put_def Let_def trim_def)
qed

lemma lm_put_held:
  assumes "lm_ok m" "map_of (lm_list (lm_put n k e m)) k' = Some x"
  shows "if k' = k then x = e else map_of (lm_list m) k' = Some x"
proof (cases "map_of (lm_list m) k")
  case None
  have d: "distinct (map fst ((k, e) # lm_list m))"
    using lm_keys_distinct[OF assms(1)] None by (simp add: map_of_eq_None_iff)
  have "map_of (trim n ((k, e) # lm_list m)) k' = Some x" using lm_put_ok[OF assms(1), of n k e] assms(2) None by simp
  then have "map_of ((k, e) # lm_list m) k' = Some x"
    using map_of_butlast[OF d] by (auto simp: trim_def simp del: butlast.simps map_of.simps split: if_splits)
  then show ?thesis by (simp split: if_splits)
qed (use lm_put_ok[OF assms(1), of n k e] assms(2) in \<open>auto simp: map_of_touch split: if_splits\<close>)

lemma lru_Set_map: "lc_map (snd (snd (lru_Set k v c))) = (if k = [] then lc_map c else lm_put (lc_maxSize c) k v (lc_map c))"
  by (simp add: lru_Set_def validateKey_def lm_put_def lru_evictLRU_def Let_def split: option.splits prod.splits)

lemma hybrid_Set_map:
  "hc_map (snd (snd (hybrid_Set k v t c))) =
     (if k = [] then hc_map c else lm_put (hc_maxSize c) k \<lparr>te_value = v, te_expiresAt = t + hc_ttl c\<rparr> (hc_map c))"
  by (simp add: hybrid_Set_def validateKey_def lm_put_def hybrid_evictLRU_def hybrid_removeElement_def Let_def
      split: option.splits prod.splits)

definition lm_drop :: "string \<Rightarrow> 'e lmap \<Rightarrow> 'e lmap" where
  "lm_drop k m = (case lm_find k m of None \<Rightarrow> m | Some p \<Rightarrow> lm_remove p m)"

lemma lm_drop_ok: "lm_ok m \<Longrightarrow> lm_ok (lm_drop k m) \<and> lm_list (lm_drop k m) = filter (\<lambda>x. fst x \<noteq> k) (lm_list m)"
proof (cases "lm_find k m")
  case None
  assume "lm_ok m"
  then have "filter (\<lambda>x. fst x \<noteq> k) (lm_list m) = lm_list m"
    using lm_keys[of m] None by (auto simp: filter_id_conv lm_find_def map_of_eq_None_iff)
  then show ?thesis using \<open>lm_ok m\<close> None by (simp add: lm_drop_def)
qed (simp add: lm_drop_def lm_remove_ok)

lemma lru_Delete_map: "lc_map (snd (snd (lru_Delete k c))) = (if k = [] then lc_map c else lm_drop k (lc_map c))"
  by (simp add: lru_Delete_def validateKey_def lm_drop_def Let_def split: option.splits)

lemma hybrid_Delete_map: "hc_map (snd (snd (hybrid_Delete k c))) = (if k = [] then hc_map c else lm_drop k (hc_map c))"
  by (simp add: hybrid_Delete_def validateKey_def lm_drop_def hybrid_removeElement_def split: option.splits prod.splits)

lemma lm_clear_ok: "lm_ok (m\<lparr>lm_items := [], lm_order := []\<rparr>)" "lm_list (m\<lparr>lm_items := [], lm_order := []\<rparr>) = []"
  by (simp_all add: lm_ok_def lm_find_def lm_list_def)

interpretation lru: cache_contract "\<lambda>c. lm_ok (lc_map c) \<and> map_of (lm_list (lc_map c)) [] = None" "newLRUCache n ev" lru_held lru_step "\<lambda>_ _. True" for n ev
proof
  fix s :: "'a lruCache" and k k' op v t w u
  assume g: "lm_ok (lc_map s) \<and> map_of (lm_list (lc_map s)) [] = None"
  note ok = g[THEN conjunct1]
  show "lm_ok (lc_map (lru_step op s)) \<and> map_of (lm_list (lc_map (lru_step op s))) [] = None"
  proof (cases op)
    case (OpSet k v t)
    have "k \<noteq> [] \<Longrightarrow> map_of (lm_list (lm_put (lc_maxSize s) k v (lc_map s))) [] = None"
      using lm_put_held[OF ok, of "lc_maxSize s" k v "[]"] g by (metis not_Some_eq option.distinct(1))
    then show ?thesis using g OpSet lm_put_ok[OF ok] by (simp add: lru_Set_map)
  qed (use g lru_Get_list[OF ok] lm_drop_ok[OF ok] in
      \<open>auto simp: lru_Delete_map map_of_filter_key lru_Clear_def lm_clear_ok map_of_touch split: option.splits\<close>)
  show "if k' = k \<and> k \<noteq> [] then w = v \<and> True else lru_held s k' = Some (w, u)" if "lru_held (lru_step (OpSet k v t) s) k' = Some (w, u)"
    using that lm_put_held[OF ok, of "lc_maxSize s" k v k'] by (auto simp: lru_held_def lru_Set_map split: if_splits)
  show "k' \<noteq> k \<and> lru_held s k' = Some x" if "lru_held (lru_step (OpDelete k) s) k' = Some x" for x
    using that lm_drop_ok[OF ok, of k] g by (auto simp: lru_held_def lru_Delete_map map_of_filter_key split: if_splits)
  show "lru_held (lru_step OpClear s) k = None" by (simp add: lru_held_def lru_Clear_def lm_clear_ok)
  show "lru_held s k = Some x"
    if "case op of OpGet _ _ \<Rightarrow> True | OpExpire _ \<Rightarrow> True | OpEvict _ _ \<Rightarrow> True | _ \<Rightarrow> False" "lru_held (lru_step op s) k = Some x" for x
    using that lru_Get_list[OF ok] by (cases op) (auto simp: lru_held_def map_of_touch split: option.splits if_splits)
qed (simp_all add: newLRUCache_def lru_held_def)

subsection \<open>The hybrid cache keeps the contract\<close>

definition hybrid_held :: "'v hybridCache \<Rightarrow> string \<Rightarrow> ('v \<times> time) option" where
  "hybrid_held c k = map_option (\<lambda>e. (te_value e, te_expiresAt e)) (map_of (lm_list (hc_map c)) k)"

lemma lm_remove_entry: "lm_entry q (lm_remove p m) = lm_entry q m" "lm_order (lm_remove p m) = remove1 p (lm_order m)"
  by (simp_all add: lm_remove_def lm_entry_def)

lemma lm_fold_remove:
  assumes "lm_ok m" "distinct ps" "set ps \<subseteq> set (lm_order m)"
  shows "lm_ok (fold lm_remove ps m) \<and> (map_of (lm_list (fold lm_remove ps m)) k = Some x \<longrightarrow> map_of (lm_list m) k = Some x)"
  using assms
proof (induction ps arbitrary: m)
  case (Cons p ps)
  have f: "lm_find (fst (lm_entry p m)) m = Some p" using lm_okD(1)[OF Cons.prems(1)] Cons.prems(3) by simp
  note r = lm_remove_ok[OF Cons.prems(1) f]
  have "set ps \<subseteq> set (lm_order (lm_remove p m))"
    using Cons.prems(2,3) lm_okD(3)[OF Cons.prems(1)] by (auto simp: lm_remove_entry)
  from Cons.IH[OF r(1) _ this] Cons.prems(2) show ?case by (auto simp: r(2) map_of_filter_key split: if_splits)
qed simp

lemma hybrid_removeExpired_map:
  "hc_map (snd (hybrid_removeExpired t c)) =
     fold lm_remove (filter (\<lambda>p. ttl_isExpired t (snd (lm_entry p (hc_map c)))) (lm_order (hc_map c))) (hc_map c)"
  by (simp add: hybrid_removeExpired_def Let_def)

lemma hybrid_frame:
  "hc_ttl (hybrid_step op c) = hc_ttl c" "hc_maxSize (hybrid_step op c) = hc_maxSize c"
  by (cases op; simp add: hybrid_Get_def hybrid_Set_def hybrid_Delete_def hybrid_Clear_def hybrid_removeExpired_def
      hybrid_removeElement_def hybrid_evictLRU_def Let_def split: option.splits prod.splits)+

lemma hybrid_Get_list:
  assumes "lm_ok (hc_map c)"
  shows "lm_ok (hc_map (snd (snd (hybrid_Get k t c))))"
    "fst (hybrid_Get k t c) = (case map_of (lm_list (hc_map c)) k of None \<Rightarrow> None
        | Some e \<Rightarrow> if ttl_isExpired t e then None else Some (te_value e))"
    "map_of (lm_list (hc_map (snd (snd (hybrid_Get k t c))))) k' = Some x \<Longrightarrow> map_of (lm_list (hc_map c)) k' = Some x"
proof -
  have "lm_ok (hc_map (snd (snd (hybrid_Get k t c)))) \<and>
    fst (hybrid_Get k t c) = (case map_of (lm_list (hc_map c)) k of None \<Rightarrow> None
        | Some e \<Rightarrow> if ttl_isExpired t e then None else Some (te_value e)) \<and>
    (map_of (lm_list (hc_map (snd (snd (hybrid_Get k t c))))) k' = Some x \<longrightarrow> map_of (lm_list (hc_map c)) k' = Some x)"
  proof (cases "lm_find k (hc_map c)")
    case (Some p)
    then show ?thesis using lm_moveToFront_ok[OF assms Some] lm_remove_ok[OF assms Some] lm_lookup[OF assms, of k]
      by (auto simp: hybrid_Get_def hybrid_removeElement_def Let_def map_of_filter_key split: if_splits)
  qed (use assms lm_lookup[OF assms, of k] in \<open>simp add: hybrid_Get_def\<close>)
  then show "lm_ok (hc_map (snd (snd (hybrid_Get k t c))))"
    "fst (hybrid_Get k t c) = (case map_of (lm_list (hc_map c)) k of None \<Rightarrow> None
        | Some e \<Rightarrow> if ttl_isExpired t e then None else Some (te_value e))"
    "map_of (lm_list (hc_map (snd (snd (hybrid_Get k t c))))) k' = Some x \<Longrightarrow> map_of (lm_list (hc_map c)) k' = Some x"
    by blast+
qed

interpretation hybrid: cache_contract "\<lambda>c. hc_ttl c = ttl \<and> lm_ok (hc_map c) \<and> map_of (lm_list (hc_map c)) [] = None"
  "newHybridCache n ttl ev" hybrid_held hybrid_step "\<lambda>t u. u = t + ttl" for n ttl ev
proof
  fix s :: "'a hybridCache" and k k' op v t w u
  assume g: "hc_ttl s = ttl \<and> lm_ok (hc_map s) \<and> map_of (lm_list (hc_map s)) [] = None"
  note ok = g[THEN conjunct2, THEN conjunct1]
  let ?ps = "\<lambda>t. filter (\<lambda>p. ttl_isExpired t (snd (lm_entry p (hc_map s)))) (lm_order (hc_map s))"
  have ex: "lm_ok (fold lm_remove (?ps t) (hc_map s)) \<and>
    (map_of (lm_list (fold lm_remove (?ps t) (hc_map s))) k = Some x \<longrightarrow> map_of (lm_list (hc_map s)) k = Some x)" for t k x
    by (rule lm_fold_remove[OF ok]) (auto simp: lm_okD(3)[OF ok])
  show "hc_ttl (hybrid_step op s) = ttl \<and> lm_ok (hc_map (hybrid_step op s)) \<and> map_of (lm_list (hc_map (hybrid_step op s))) [] = None"
  proof (cases op)
    case (OpSet k v t)
    let ?e = "\<lparr>te_value = v, te_expiresAt = t + hc_ttl s\<rparr>"
    have "k \<noteq> [] \<Longrightarrow> map_of (lm_list (lm_put (hc_maxSize s) k ?e (hc_map s))) [] = None"
      using lm_put_held[OF ok, of "hc_maxSize s" k ?e "[]"] g by (metis not_Some_eq option.distinct(1))
    then show ?thesis using g OpSet lm_put_ok[OF ok] hybrid_frame[of op s] by (simp add: hybrid_Set_map)
  next
    case (OpExpire t)
    have "map_of (lm_list (fold lm_remove (?ps t) (hc_map s))) [] = None"
      using ex[of t "[]"] g by (cases "map_of (lm_list (fold lm_remove (?ps t) (hc_map s))) []") auto
    then show ?thesis using g hybrid_frame[of op s] ex[of t "[]"] OpExpire by (simp add: hybrid_removeExpired_map)
  next
    case (OpGet k t)
    then show ?thesis using g hybrid_frame[of op s] hybrid_Get_list[OF ok, of k t] by (metis hybrid_step.simps(1) not_Some_eq)
  qed (use g lm_drop_ok[OF ok] hybrid_frame[of op s] in \<open>auto simp: hybrid_Delete_map map_of_filter_key hybrid_Clear_def lm_clear_ok\<close>)
  show "if k' = k \<and> k \<noteq> [] then w = v \<and> u = t + ttl else hybrid_held s k' = Some (w, u)"
    if "hybrid_held (hybrid_step (OpSet k v t) s) k' = Some (w, u)"
    using that g lm_put_held[OF ok, of "hc_maxSize s" k "\<lparr>te_value = v, te_expiresAt = t + hc_ttl s\<rparr>" k']
    by (auto simp: hybrid_held_def hybrid_Set_map split: if_splits)
  show "k' \<noteq> k \<and> hybrid_held s k' = Some x" if "hybrid_held (hybrid_step (OpDelete k) s) k' = Some x" for x
    using that lm_drop_ok[OF ok, of k] g by (auto simp: hybrid_held_def hybrid_Delete_map map_of_filter_key split: if_splits)
  show "hybrid_held (hybrid_step OpClear s) k = None" by (simp add: hybrid_held_def hybrid_Clear_def lm_clear_ok)
  show "hybrid_held s k = Some x"
    if "case op of OpGet _ _ \<Rightarrow> True | OpExpire _ \<Rightarrow> True | OpEvict _ _ \<Rightarrow> True | _ \<Rightarrow> False" "hybrid_held (hybrid_step op s) k = Some x" for x
    using that hybrid_Get_list(3)[OF ok] ex by (cases op) (auto simp: hybrid_held_def hybrid_removeExpired_map)
qed (simp_all add: newHybridCache_def hybrid_held_def)

subsection \<open>The TTL cache keeps the contract\<close>

definition ttl_held :: "'v ttlCache \<Rightarrow> string \<Rightarrow> ('v \<times> time) option" where
  "ttl_held c k = map_option (\<lambda>e. (te_value e, te_expiresAt e)) (map_of (tc_items c) k)"

lemmas ttl_defs = ttl_Get_def ttl_find_def ttl_evict_def ttl_Set_def ttl_Delete_def ttl_Clear_def ttl_removeExpired_def
  validateKey_def Let_def

lemma map_of_filter_sub: "distinct (map fst xs) \<Longrightarrow> map_of (filter P xs) k = Some e \<Longrightarrow> map_of xs k = Some e"
  by (metis (no_types, lifting) filter_is_subset map_of_SomeD map_of_is_SomeI subset_iff)

lemma distinct_filter_keys: "distinct (map fst xs) \<Longrightarrow> distinct (map fst (filter P xs))"
  by (rule distinct_map_filter)

interpretation ttl: cache_contract "\<lambda>c. tc_ttl c = d \<and> distinct (map fst (tc_items c)) \<and> map_of (tc_items c) [] = None"
  "newTTLCache d ev" ttl_held ttl_step "\<lambda>t u. u = t + d" for d ev
proof
  fix s :: "'a ttlCache" and k k' op v t w u
  assume g: "tc_ttl s = d \<and> distinct (map fst (tc_items s)) \<and> map_of (tc_items s) [] = None"
  have fk: "map_of (filter P (tc_items s)) [] = None" for P using g map_of_filter_sub[of "tc_items s" P "[]"] by force
  show "tc_ttl (ttl_step op s) = d \<and> distinct (map fst (tc_items (ttl_step op s))) \<and> map_of (tc_items (ttl_step op s)) [] = None"
    using g fk by (cases op) (auto simp: ttl_defs distinct_update distinct_delete update_conv' delete_conv' distinct_filter_keys
        split: option.splits if_splits prod.splits)
  show "if k' = k \<and> k \<noteq> [] then w = v \<and> u = t + d else ttl_held s k' = Some (w, u)"
    if "ttl_held (ttl_step (OpSet k v t) s) k' = Some (w, u)"
    using that g by (auto simp: ttl_held_def ttl_defs update_conv' split: if_splits)
  show "k' \<noteq> k \<and> ttl_held s k' = Some x" if "ttl_held (ttl_step (OpDelete k) s) k' = Some x" for x
    using that g by (auto simp: ttl_held_def ttl_defs delete_conv' split: if_splits option.splits)
  show "ttl_held (ttl_step OpClear s) k = None" by (simp add: ttl_held_def ttl_defs)
  show "ttl_held s k = Some x"
    if "case op of OpGet _ _ \<Rightarrow> True | OpExpire _ \<Rightarrow> True | OpEvict _ _ \<Rightarrow> True | _ \<Rightarrow> False" "ttl_held (ttl_step op s) k = Some x" for x
    using that g by (cases op) (auto simp: ttl_held_def ttl_defs delete_conv' dest!: map_of_filter_sub[rotated] split: if_splits option.splits)
qed (simp_all add: newTTLCache_def ttl_held_def)

subsection \<open>What a hit returns\<close>

lemma ttl_find_held: "ttl_find k t c = Fresh v \<Longrightarrow> \<exists>u. ttl_held c k = Some (v, u) \<and> t \<le> u"
  by (auto simp: ttl_find_def ttl_held_def ttl_isExpired_def split: option.splits if_splits)

lemma ttl_Get_held: "fst (ttl_Get k t t2 c) = Some v \<Longrightarrow> \<exists>u. ttl_held c k = Some (v, u) \<and> t \<le> u"
  using ttl_find_held[of k t c v] by (auto simp: ttl_Get_def split: ttl_found.splits prod.splits)

lemma hybrid_Get_held: "lm_ok (hc_map c) \<Longrightarrow> fst (hybrid_Get k t c) = Some v \<Longrightarrow> \<exists>u. hybrid_held c k = Some (v, u) \<and> t \<le> u"
  using hybrid_Get_list(2)[of c k t] by (auto simp: hybrid_held_def ttl_isExpired_def split: option.splits if_splits)

text \<open>Runs, latest operation first.\<close>

definition simple_run :: "bool \<Rightarrow> 'v cache_op list \<Rightarrow> 'v simpleCache" where
  "simple_run ev ops = foldr simple_step ops (newSimpleCache ev)"

definition lru_run :: "int \<Rightarrow> bool \<Rightarrow> 'v cache_op list \<Rightarrow> 'v lruCache" where
  "lru_run n ev ops = foldr lru_step ops (newLRUCache n ev)"

definition ttl_run :: "int \<Rightarrow> bool \<Rightarrow> 'v cache_op list \<Rightarrow> 'v ttlCache" where
  "ttl_run d ev ops = foldr ttl_step ops (newTTLCache d ev)"

definition hybrid_run :: "int \<Rightarrow> int \<Rightarrow> bool \<Rightarrow> 'v cache_op list \<Rightarrow> 'v hybridCache" where
  "hybrid_run n d ev ops = foldr hybrid_step ops (newHybridCache n d ev)"

text \<open>C6. Caches are coherent.  After any sequence of operations and background evictions, a hit in the
  simple, LRU, TTL or hybrid cache returns the value of the last \<open>Set\<close> for that key with no \<open>Delete\<close> or
  \<open>Clear\<close> since; in the expiring caches that \<open>Set\<close> is also at most the time-to-live before the read.
  No eviction order and no interleaving of sweeps ever yields a stale, deleted or foreign value.\<close>

theorem cache_hits_are_last_writes:
  "(fst (simple_Get k (simple_run ev ops)) = Some v \<longrightarrow> map_option fst (last_set ops k) = Some v) \<and>
   (fst (lru_Get k (lru_run n ev ops)) = Some v \<longrightarrow> map_option fst (last_set ops k) = Some v) \<and>
   (fst (ttl_Get k now now2 (ttl_run d ev ops)) = Some v \<longrightarrow> (\<exists>t. last_set ops k = Some (v, t) \<and> now \<le> t + d)) \<and>
   (fst (hybrid_Get k now (hybrid_run n d ev ops)) = Some v \<longrightarrow> (\<exists>t. last_set ops k = Some (v, t) \<and> now \<le> t + d))"
proof (intro conjI impI)
  assume "fst (simple_Get k (simple_run ev ops)) = Some v"
  then have "simple_held (simple.run ev ops) k = Some (v, 0)"
    by (simp add: simple_Get_def Let_def simple_held_def simple_run_def simple.run_def)
  from simple.coherent[OF this] show "map_option fst (last_set ops k) = Some v" by auto
next
  assume "fst (lru_Get k (lru_run n ev ops)) = Some v"
  then have "lru_held (lru.run n ev ops) k = Some (v, 0)"
    using lru.run_good[of n ev ops] by (simp add: lru_Get_list(2) lru_held_def lru_run_def lru.run_def)
  from lru.coherent[OF this] show "map_option fst (last_set ops k) = Some v" by auto
next
  assume "fst (ttl_Get k now now2 (ttl_run d ev ops)) = Some v"
  then obtain u where "ttl_held (ttl.run d ev ops) k = Some (v, u)" "now \<le> u"
    using ttl_Get_held by (fastforce simp: ttl_run_def ttl.run_def)
  then show "\<exists>t. last_set ops k = Some (v, t) \<and> now \<le> t + d" using ttl.coherent by fastforce
next
  assume "fst (hybrid_Get k now (hybrid_run n d ev ops)) = Some v"
  then obtain u where "hybrid_held (hybrid.run n d ev ops) k = Some (v, u)" "now \<le> u"
    using hybrid_Get_held[of "hybrid.run n d ev ops"] hybrid.run_good[of n d ev ops] by (fastforce simp: hybrid_run_def hybrid.run_def)
  then show "\<exists>t. last_set ops k = Some (v, t) \<and> now \<le> t + d" using hybrid.coherent by fastforce
qed

subsection \<open>What the LRU cache keeps\<close>

fun used_keys :: "'v cache_op list \<Rightarrow> string list" where
  "used_keys [] = []"
| "used_keys (OpGet k t # ops) = k # used_keys ops"
| "used_keys (OpSet k v t # ops) = k # used_keys ops"
| "used_keys (_ # ops) = used_keys ops"

fun keeps_key :: "string \<Rightarrow> 'v cache_op \<Rightarrow> bool" where
  "keeps_key k (OpSet k' v t) = (k' \<noteq> k)"
| "keeps_key k (OpDelete k') = (k' \<noteq> k)"
| "keeps_key k OpClear = False"
| "keeps_key k _ = True"

definition recent :: "string \<Rightarrow> 'v \<Rightarrow> string set \<Rightarrow> (string \<times> 'v) list \<Rightarrow> bool" where
  "recent k v U xs \<longleftrightarrow> distinct (map fst xs) \<and> (\<exists>pre post. xs = pre @ (k, v) # post \<and> fst ` set pre \<subseteq> U)"

lemma recent_lookup: "recent k v U xs \<Longrightarrow> map_of xs k = Some v"
  by (auto simp: recent_def map_add_def map_of_eq_None_iff split: option.splits)

lemma recent_mono: "recent k v U xs \<Longrightarrow> U \<subseteq> V \<Longrightarrow> recent k v V xs"
  unfolding recent_def by blast

lemma distinct_filter_fst: "distinct (map fst xs) \<Longrightarrow> distinct (map fst (filter P xs))"
  by (rule distinct_map_filter)

lemma recent_filter: "recent k v U xs \<Longrightarrow> k' \<noteq> k \<Longrightarrow> recent k v U (filter (\<lambda>x. fst x \<noteq> k') xs)"
proof -
  assume a: "recent k v U xs" "k' \<noteq> k"
  then obtain pre post where x: "xs = pre @ (k, v) # post" "fst ` set pre \<subseteq> U" "distinct (map fst xs)" by (auto simp: recent_def)
  then have "filter (\<lambda>x. fst x \<noteq> k') xs = filter (\<lambda>x. fst x \<noteq> k') pre @ (k, v) # filter (\<lambda>x. fst x \<noteq> k') post"
    using a(2) by simp
  moreover have "fst ` set (filter (\<lambda>x. fst x \<noteq> k') pre) \<subseteq> U" using x(2) by auto
  ultimately show ?thesis using distinct_filter_fst[OF x(3)] unfolding recent_def by blast
qed

lemma recent_Cons: "recent k v U xs \<Longrightarrow> k' \<notin> fst ` set xs \<Longrightarrow> recent k v (insert k' U) ((k', e) # xs)"
proof -
  assume a: "recent k v U xs" "k' \<notin> fst ` set xs"
  then obtain pre post where x: "xs = pre @ (k, v) # post" "fst ` set pre \<subseteq> U" "distinct (map fst xs)" by (auto simp: recent_def)
  then have "(k', e) # xs = ((k', e) # pre) @ (k, v) # post" "fst ` set ((k', e) # pre) \<subseteq> insert k' U" by auto
  then show ?thesis using x(3) a(2) unfolding recent_def by (metis distinct.simps(2) fst_conv list.set_map list.simps(9))
qed

lemma recent_touch: "recent k v U xs \<Longrightarrow> k' \<noteq> k \<Longrightarrow> recent k v (insert k' U) (touch k' e xs)"
  unfolding touch_def by (rule recent_Cons[OF recent_filter]) auto

lemma recent_touch_self: "recent k v U xs \<Longrightarrow> recent k v U (touch k v xs)"
proof -
  assume "recent k v U xs"
  then have "distinct (map fst (touch k v xs))" by (auto simp: recent_def touch_def distinct_filter_fst)
  moreover have "touch k v xs = [] @ (k, v) # filter (\<lambda>x. fst x \<noteq> k) xs" "fst ` set [] \<subseteq> U" by (simp_all add: touch_def)
  ultimately show ?thesis unfolding recent_def by blast
qed

lemma recent_trim:
  assumes "recent k v U xs" "finite U" "int (card U) < n"
  shows "recent k v U (trim n xs)"
proof -
  obtain pre post where x: "xs = pre @ (k, v) # post" "fst ` set pre \<subseteq> U" "distinct (map fst xs)"
    using assms(1) by (auto simp: recent_def)
  have "length pre = card (fst ` set pre)" using x(1,3) distinct_card[of "map fst pre"] by simp
  also have "\<dots> \<le> card U" by (rule card_mono[OF assms(2) x(2)])
  finally have len: "int (length pre) < n" using assms(3) by simp
  show ?thesis
  proof (cases "int (length xs) > n")
    case True
    then have "post \<noteq> []" using len x(1) by auto
    then have "butlast xs = pre @ (k, v) # butlast post" by (simp add: x(1) butlast_append)
    moreover have "distinct (map fst (butlast xs))" using x(3) by (simp add: map_butlast distinct_butlast)
    ultimately show ?thesis using True x(2) by (auto simp: trim_def recent_def)
  qed (simp add: trim_def assms(1))
qed

lemma lru_step_recent:
  assumes "lm_ok (lc_map c)" "recent k v U (lm_list (lc_map c))" "keeps_key k op" "finite U"
    "V = U \<union> set (used_keys [op]) - {k}" "k \<notin> U" "int (card V) < lc_maxSize c"
  shows "recent k v V (lm_list (lc_map (lru_step op c)))"
proof -
  have fV: "finite V" using assms(4,5) by simp
  have UV: "U \<subseteq> V" using assms(5,6) by auto
  let ?xs = "lm_list (lc_map c)"
  have keys: "map_of ?xs k' = None \<longleftrightarrow> k' \<notin> fst ` set ?xs" for k' by (simp add: map_of_eq_None_iff)
  show ?thesis
  proof (cases op)
    case (OpGet k' t)
    show ?thesis
    proof (cases "k' = k")
      case True
      then show ?thesis using OpGet lru_Get_list(3)[OF assms(1), of k] recent_lookup[OF assms(2)]
          recent_mono[OF recent_touch_self[OF assms(2)] UV] by simp
    next
      case False
      then have "insert k' U \<subseteq> V" using assms(5,6) OpGet by auto
      then show ?thesis using OpGet lru_Get_list(3)[OF assms(1), of k'] recent_mono[OF assms(2) UV]
          recent_mono[OF recent_touch[OF assms(2) False]] by (auto split: option.splits)
    qed
  next
    case (OpSet k' v' t)
    then have ne: "k' \<noteq> k" using assms(3) by simp
    then have sub: "insert k' U \<subseteq> V" using assms(5,6) OpSet by auto
    have put: "recent k v V (lm_list (lm_put (lc_maxSize c) k' v' (lc_map c)))"
      using lm_put_ok[OF assms(1), of "lc_maxSize c" k' v'] recent_mono[OF recent_touch[OF assms(2) ne] sub]
        recent_trim[OF recent_mono[OF recent_Cons[OF assms(2)] sub] fV assms(7)] keys[of k'] by (auto split: if_splits)
    then show ?thesis using OpSet recent_mono[OF assms(2) UV] by (simp add: lru_Set_map)
  next
    case (OpDelete k')
    then show ?thesis using assms(3) lm_drop_ok[OF assms(1), of k'] recent_mono[OF recent_filter[OF assms(2)] UV, of k']
        recent_mono[OF assms(2) UV] by (auto simp: lru_Delete_map)
  qed (use assms(3) recent_mono[OF assms(2) UV] in auto)
qed

lemma lru_maxSize [simp]: "lc_maxSize (lru_step op c) = lc_maxSize c"
  by (cases op) (auto simp: lru_Get_def lru_Set_def lru_Delete_def lru_Clear_def lru_evictLRU_def Let_def split: option.splits)

lemma lru_run_maxSize: "lc_maxSize (foldr lru_step ops c) = lc_maxSize c"
  by (induction ops) simp_all

lemma used_keys_Cons: "set (used_keys (op # ops)) = set (used_keys [op]) \<union> set (used_keys ops)"
  by (cases op) auto

text \<open>C13. The LRU guarantee.  A value stored under a non-empty key is still returned after any further
  operations that neither set nor delete that key nor clear the cache, as long as those operations use
  fewer than \<open>maxSize\<close> other distinct keys: eviction takes the least recently used entry only.\<close>

theorem lru_retains_recently_used:
  assumes "k \<noteq> []" "list_all (keeps_key k) ops" "int (card (set (used_keys ops) - {k})) < n"
  shows "fst (lru_Get k (lru_run n ev (ops @ OpSet k v t # hist))) = Some v"
proof -
  have run: "lru_run n ev os = lru.run n ev os" for os :: "'a cache_op list" by (simp add: lru_run_def lru.run_def)
  have good: "lm_ok (lc_map (lru_run n ev os))" for os :: "'a cache_op list" using lru.run_good[of n ev os] by (simp add: run)
  have mx: "lc_maxSize (lru_run n ev os) = n" for os :: "'a cache_op list" by (simp add: lru_run_def lru_run_maxSize newLRUCache_def)
  have "recent k v (set (used_keys ops) - {k}) (lm_list (lc_map (lru_run n ev (ops @ OpSet k v t # hist))))"
    using assms(2,3)
  proof (induction ops)
    case Nil
    let ?m = "lc_map (lru_run n ev hist)"
    note put = lm_put_ok[OF good[of hist], of n k v]
    have d: "distinct (map fst (lm_list (lm_put n k v ?m)))" using lm_keys_distinct put by blast
    have "\<exists>post. lm_list (lm_put n k v ?m) = (k, v) # post"
      using put Nil.prems(2) by (auto simp: touch_def trim_def butlast_append split: if_splits)
    then have "recent k v {} (lm_list (lm_put n k v ?m))" using d unfolding recent_def by (metis append_Nil image_empty list.set(1) subset_refl)
    moreover have "lru_run n ev ([] @ OpSet k v t # hist) = lru_step (OpSet k v t) (lru_run n ev hist)" by (simp add: lru_run_def)
    ultimately show ?case using assms(1) mx[of hist] by (simp add: lru_Set_map)
  next
    case (Cons op ops)
    have le: "card (set (used_keys ops) - {k}) \<le> card (set (used_keys (op # ops)) - {k})"
      by (rule card_mono) (auto simp: used_keys_Cons[of op ops])
    let ?c = "lru_run n ev (ops @ OpSet k v t # hist)"
    have "recent k v (set (used_keys (op # ops)) - {k}) (lm_list (lc_map (lru_step op ?c)))"
    proof (rule lru_step_recent[OF good, where U = "set (used_keys ops) - {k}"])
      show "recent k v (set (used_keys ops) - {k}) (lm_list (lc_map ?c))" using Cons.IH Cons.prems le by simp
      show "set (used_keys (op # ops)) - {k} = (set (used_keys ops) - {k}) \<union> set (used_keys [op]) - {k}"
        by (auto simp: used_keys_Cons[of op ops])
    qed (use Cons.prems mx in auto)
    then show ?case by (simp add: lru_run_def)
  qed
  then show ?thesis using recent_lookup lru_Get_list(2)[OF good] by metis
qed

theorem lru_retains_recently_used_witness:
  "fst (lru_Get ''a'' (lru_run 2 False ([OpSet ''b'' 3 0, OpGet ''b'' 0, OpSet ''b'' 2 0] @ OpSet ''a'' (1 :: int) 0 # [OpSet ''z'' 9 0]))) = Some 1"
proof -
  have "set (used_keys [OpSet ''b'' (3 :: int) 0, OpGet ''b'' 0, OpSet ''b'' 2 0]) - {''a''} = {''b''}" by auto
  then show ?thesis by (intro lru_retains_recently_used) simp_all
qed

theorem cache_hits_are_last_writes_witness:
  "fst (ttl_Get ''a'' 14 14 (ttl_run 5 False [OpExpire 12, OpSet ''a'' (2 :: int) 10, OpSet ''a'' 1 0])) = Some 2 \<and>
   (\<exists>t. last_set [OpExpire 12, OpSet ''a'' (2 :: int) 10, OpSet ''a'' 1 0] ''a'' = Some (2, t) \<and> 14 \<le> t + 5)"
proof -
  have "fst (ttl_Get ''a'' 14 14 (ttl_run 5 False [OpExpire 12, OpSet ''a'' (2 :: int) 10, OpSet ''a'' 1 0])) = Some 2"
    by (simp add: ttl_run_def newTTLCache_def ttl_defs ttl_isExpired_def)
  with cache_hits_are_last_writes[of "''a''" False "[OpExpire 12, OpSet ''a'' (2 :: int) 10, OpSet ''a'' 1 0]" 2 0 14 14 5]
  show ?thesis by blast
qed

end
