(* ===== verification/Coalescing_Set.thy ===== *)
theory Coalescing_Set
  imports Prelude "HOL-Library.Multiset"
begin

text \<open>
  The coalescing set (\<open>pkg/cache/coalescing_set.go\<close>): keys are collected until a tick hands them to
  the callback as one batch.  The pending map is a list of distinct keys in iteration order; every
  locked section is one step, the ticks and the end of the background goroutine are steps of their
  own.  The callback is the client's code; the model records whether one was given and the batches
  it receives.  The lemmas show that deliveries, removals and drains account for every accepted key
  when there is a callback, and that nothing is delivered once a call of \<open>Close\<close> has returned.
\<close>

record CoalescingSet =
  co_pending :: "string list"
  co_window :: int
  co_callback :: bool
  co_shutdown :: bool
  co_running :: bool

text \<open>\<open>callback\<close> tells whether the callback is not nil.\<close>

definition NewCoalescingSet :: "int \<Rightarrow> bool \<Rightarrow> CoalescingSet" where
  "NewCoalescingSet window callback =
     \<lparr>co_pending = [], co_window = window, co_callback = callback, co_shutdown = False, co_running = True\<rparr>"

definition tickerDuration :: "CoalescingSet \<Rightarrow> int" where
  "tickerDuration c = (if co_window c \<le> 0 then 1 else co_window c)"

definition co_Add :: "string \<Rightarrow> CoalescingSet \<Rightarrow> bool \<times> CoalescingSet" where
  "co_Add key c = (if List.member (co_pending c) key then (False, c) else (True, c\<lparr>co_pending := key # co_pending c\<rparr>))"

definition co_Remove :: "string \<Rightarrow> CoalescingSet \<Rightarrow> bool \<times> CoalescingSet" where
  "co_Remove key c =
     (if \<not> List.member (co_pending c) key then (False, c) else (True, c\<lparr>co_pending := remove1 key (co_pending c)\<rparr>))"

definition co_RemovePrefix :: "string \<Rightarrow> CoalescingSet \<Rightarrow> nat \<times> CoalescingSet" where
  "co_RemovePrefix pfx c =
     (length (filter (\<lambda>k. has_prefix k pfx) (co_pending c)),
      c\<lparr>co_pending := filter (\<lambda>k. \<not> has_prefix k pfx) (co_pending c)\<rparr>)"

definition co_PendingCount :: "CoalescingSet \<Rightarrow> nat" where
  "co_PendingCount c = length (co_pending c)"

definition co_Drain :: "CoalescingSet \<Rightarrow> string list \<times> CoalescingSet" where
  "co_Drain c = (co_pending c, c\<lparr>co_pending := []\<rparr>)"

text \<open>The batch handed to the callback, if there is one; the pending keys are cleared in either case.  A
  panic of the callback is recovered.\<close>

definition co_fireBatch :: "CoalescingSet \<Rightarrow> string list option \<times> CoalescingSet" where
  "co_fireBatch c =
     (if co_pending c = [] then (None, c)
      else (if co_callback c then Some (co_pending c) else None, c\<lparr>co_pending := []\<rparr>))"

text \<open>\<open>Close\<close> closes the shutdown channel and then waits for the \<open>done\<close> channel, which the background
  goroutine closes when it ends.\<close>

definition co_Close :: "CoalescingSet \<Rightarrow> CoalescingSet" where
  "co_Close c = c\<lparr>co_shutdown := True\<rparr>"

definition co_Close_wait :: "CoalescingSet \<Rightarrow> bool" where
  "co_Close_wait c \<longleftrightarrow> \<not> co_running c"

text \<open>One iteration of the background goroutine: the ticker fired, or the shutdown channel (or the
  context) was seen.\<close>

definition co_tick :: "CoalescingSet \<Rightarrow> string list option \<times> CoalescingSet" where
  "co_tick c = (if co_running c then co_fireBatch c else (None, c))"

definition co_stop :: "bool \<Rightarrow> CoalescingSet \<Rightarrow> CoalescingSet" where
  "co_stop ctxDone c = (if ctxDone \<or> co_shutdown c then c\<lparr>co_running := False\<rparr> else c)"

subsection \<open>Runs\<close>

text \<open>\<open>CoClosed\<close> is the attempt of a pending \<open>Close\<close> to return.\<close>

datatype co_event =
  CoAdd string | CoRemove string | CoRemovePrefix string | CoDrain | CoClose | CoClosed | CoTick | CoStop bool

text \<open>The next state, the batch delivered, and the keys the caller took out.\<close>

fun co_step :: "co_event \<Rightarrow> CoalescingSet \<Rightarrow> CoalescingSet \<times> string list \<times> string list" where
  "co_step (CoAdd k) c = (snd (co_Add k c), [], [])"
| "co_step (CoRemove k) c = (case co_Remove k c of (b, c') \<Rightarrow> (c', [], if b then [k] else []))"
| "co_step (CoRemovePrefix p) c = (snd (co_RemovePrefix p c), [], filter (\<lambda>k. has_prefix k p) (co_pending c))"
| "co_step CoDrain c = (case co_Drain c of (ks, c') \<Rightarrow> (c', [], ks))"
| "co_step CoClose c = (co_Close c, [], [])"
| "co_step CoClosed c = (c, [], [])"
| "co_step CoTick c = (case co_tick c of (b, c') \<Rightarrow> (c', case b of Some ks \<Rightarrow> ks | None \<Rightarrow> [], []))"
| "co_step (CoStop d) c = (co_stop d c, [], [])"

fun co_added :: "co_event \<Rightarrow> CoalescingSet \<Rightarrow> string list" where
  "co_added (CoAdd k) c = (if fst (co_Add k c) then [k] else [])"
| "co_added _ c = []"

text \<open>The keys a tick took from the pending set without handing them to a callback.\<close>

fun co_dropped :: "co_event \<Rightarrow> CoalescingSet \<Rightarrow> string list" where
  "co_dropped CoTick c =
     (case co_tick c of (None, c') \<Rightarrow> filter (\<lambda>k. \<not> List.member (co_pending c') k) (co_pending c) | (Some ks, c') \<Rightarrow> [])"
| "co_dropped _ c = []"

record co_trace =
  ct_state :: CoalescingSet
  ct_added :: "string list"
  ct_delivered :: "string list list"
  ct_taken :: "string list"
  ct_dropped :: "string list"
  ct_closed :: bool

definition co_exec :: "co_event \<Rightarrow> co_trace \<Rightarrow> co_trace" where
  "co_exec e t =
     (case co_step e (ct_state t) of (c, batch, taken) \<Rightarrow>
        \<lparr>ct_state = c, ct_added = ct_added t @ co_added e (ct_state t),
         ct_delivered = (if batch = [] then ct_delivered t else ct_delivered t @ [batch]),
         ct_taken = ct_taken t @ taken, ct_dropped = ct_dropped t @ co_dropped e (ct_state t),
         ct_closed = (ct_closed t \<or> e = CoClosed \<and> co_shutdown c \<and> co_Close_wait c)\<rparr>)"

definition co_run :: "int \<Rightarrow> bool \<Rightarrow> co_event list \<Rightarrow> co_trace" where
  "co_run w cb es = fold co_exec es
     \<lparr>ct_state = NewCoalescingSet w cb, ct_added = [], ct_delivered = [], ct_taken = [], ct_dropped = [], ct_closed = False\<rparr>"

definition co_inv :: "bool \<Rightarrow> co_trace \<Rightarrow> bool" where
  "co_inv cb t \<longleftrightarrow>
     mset (ct_added t) = mset (concat (ct_delivered t)) + mset (ct_taken t) + mset (ct_dropped t) + mset (co_pending (ct_state t)) \<and>
     distinct (co_pending (ct_state t)) \<and> list_all (\<lambda>b. b \<noteq> [] \<and> distinct b) (ct_delivered t) \<and>
     co_callback (ct_state t) = cb \<and> (if cb then ct_dropped t = [] else ct_delivered t = []) \<and>
     (ct_closed t \<longrightarrow> \<not> co_running (ct_state t))"

lemma mset_filter_split: "mset xs = mset (filter P xs) + mset (filter (\<lambda>x. \<not> P x) xs)"
  by (induction xs) auto

lemmas co_defs = co_Add_def co_Remove_def co_RemovePrefix_def co_Drain_def co_Close_def co_tick_def co_fireBatch_def co_stop_def

lemma co_step_conserves:
  "co_step e c = (c', batch, taken) \<Longrightarrow>
   mset (co_pending c) + mset (co_added e c) = mset batch + mset taken + mset (co_dropped e c) + mset (co_pending c')"
  using mset_filter_split[of "co_pending c"]
  by (cases e) (auto simp: co_defs split: if_splits option.splits)

lemma co_step_distinct:
  "co_step e c = (c', batch, taken) \<Longrightarrow> distinct (co_pending c) \<Longrightarrow> distinct (co_pending c') \<and> distinct batch"
  by (cases e) (auto simp: co_defs split: if_splits option.splits)

lemma co_step_frame:
  "co_step e c = (c', batch, taken) \<Longrightarrow>
   co_callback c' = co_callback c \<and> (if co_callback c then co_dropped e c = [] else batch = []) \<and>
   (\<not> co_running c \<longrightarrow> \<not> co_running c' \<and> batch = [])"
  by (cases e) (auto simp: co_defs split: if_splits option.splits)

lemma co_exec_inv:
  assumes "co_inv cb t"
  shows "co_inv cb (co_exec e t) \<and> (ct_closed t \<longrightarrow> ct_closed (co_exec e t) \<and> ct_delivered (co_exec e t) = ct_delivered t)"
proof -
  obtain c batch taken where st: "co_step e (ct_state t) = (c, batch, taken)" by (rule prod_cases3)
  have t: "mset (ct_added t) = mset (concat (ct_delivered t)) + mset (ct_taken t) + mset (ct_dropped t) + mset (co_pending (ct_state t))"
    "distinct (co_pending (ct_state t))" "list_all (\<lambda>b. b \<noteq> [] \<and> distinct b) (ct_delivered t)"
    "co_callback (ct_state t) = cb" "if cb then ct_dropped t = [] else ct_delivered t = []" "ct_closed t \<longrightarrow> \<not> co_running (ct_state t)"
    using assms by (simp_all add: co_inv_def)
  show ?thesis
    unfolding co_inv_def co_exec_def st
    using t co_step_conserves[OF st] co_step_distinct[OF st t(2)] co_step_frame[OF st]
    by (cases "batch = []"; cases cb) (auto simp: co_Close_wait_def add.assoc add.left_commute)
qed

lemma co_fold_inv:
  "co_inv cb t \<Longrightarrow> co_inv cb (fold co_exec es t) \<and> (ct_closed t \<longrightarrow> ct_delivered (fold co_exec es t) = ct_delivered t)"
  by (induction es arbitrary: t) (use co_exec_inv in fastforce)+

lemma co_run_inv: "co_inv cb (co_run w cb es)"
  unfolding co_run_def by (rule co_fold_inv[THEN conjunct1]) (simp add: co_inv_def NewCoalescingSet_def)

text \<open>C17. The coalescing set loses and invents nothing.  Over any sequence of additions, removals,
  drains, ticks and shutdown, the accepted keys are, with multiplicity, exactly the delivered ones,
  the explicitly removed or drained ones, the ones a tick dropped and the pending ones; every
  delivered batch is non-empty and free of duplicates, and so is the pending set.  With a callback no
  tick drops a key; without one nothing is delivered.  Once a call of \<open>Close\<close> has returned, no further
  batch is delivered, whatever is added later.\<close>

theorem coalescing_set_conserves:
  "mset (ct_added (co_run w cb es)) =
     mset (concat (ct_delivered (co_run w cb es))) + mset (ct_taken (co_run w cb es)) +
     mset (ct_dropped (co_run w cb es)) + mset (co_pending (ct_state (co_run w cb es))) \<and>
   (if cb then ct_dropped (co_run w cb es) = [] else ct_delivered (co_run w cb es) = []) \<and>
   distinct (co_pending (ct_state (co_run w cb es))) \<and>
   list_all (\<lambda>b. b \<noteq> [] \<and> distinct b) (ct_delivered (co_run w cb es)) \<and>
   (ct_closed (co_run w cb es) \<longrightarrow> ct_delivered (co_run w cb (es @ later)) = ct_delivered (co_run w cb es))"
proof -
  have "co_run w cb (es @ later) = fold co_exec later (co_run w cb es)" by (simp add: co_run_def)
  then show ?thesis using co_run_inv[of cb w es] co_fold_inv[OF co_run_inv[of cb w es], of later]
    by (cases cb) (simp_all add: co_inv_def)
qed

text \<open>A batch of two keys is delivered, one key is removed, the set is closed, and a key added after
  \<open>Close\<close> has returned stays pending.\<close>

definition wit_co_events :: "co_event list" where
  "wit_co_events = [CoAdd ''a'', CoAdd ''b'', CoAdd ''a'', CoTick, CoAdd ''c'', CoRemove ''c'', CoClose, CoStop False, CoClosed]"

theorem coalescing_set_conserves_witness:
  "ct_closed (co_run 5 True wit_co_events) \<and> ct_delivered (co_run 5 True wit_co_events) = [[''b'', ''a'']] \<and>
   ct_delivered (co_run 5 True (wit_co_events @ [CoAdd ''d'', CoTick])) = [[''b'', ''a'']]"
proof -
  have "ct_closed (co_run 5 True wit_co_events)" "ct_delivered (co_run 5 True wit_co_events) = [[''b'', ''a'']]"
    by code_simp+
  then show ?thesis using coalescing_set_conserves[of 5 True wit_co_events "[CoAdd ''d'', CoTick]"] by simp
qed

end
