(* ===== verification/Kv_Keys.thy ===== *)
theory Kv_Keys
  imports Go_Errors
begin

text \<open>
  The contract of literal keys, wildcard filters and opaque tokens of the key-value store
  (\<open>natsclient/kv_key_contract.go\<close>).  A literal key is a dot-separated sequence of tokens over a
  fixed alphabet; a filter may hold \<open>*\<close> as a token and \<open>>\<close> as the last one; any byte string up to
  254 bytes has one opaque token, \<open>x1_\<close> followed by lower-case hexadecimal.  The lemmas show that
  the opaque codec is a bijection onto the tokens it accepts and that its tokens are literal.
\<close>

subsection \<open>Errors\<close>

definition errInvalidKVContractInput :: go_error where
  "errInvalidKVContractInput = Sentinel ''invalid NATS KV contract input''"

definition newKVContractError :: "string \<Rightarrow> string \<Rightarrow> (string \<times> detail_value) list \<Rightarrow> go_error" where
  "newKVContractError code reason detail =
     ClassifiedCodeDetail ErrorInvalid code (detail @ [(''reason'', DStr reason)]) errInvalidKVContractInput"

definition newKVTokenLocalError :: "string \<Rightarrow> string \<Rightarrow> nat \<Rightarrow> (string \<times> detail_value) list \<Rightarrow> go_error" where
  "newKVTokenLocalError code reason tokenIndex detail =
     newKVContractError code reason (detail @ [(''token_index'', DInt (int tokenIndex))])"

definition bytes_detail :: "nat \<Rightarrow> nat \<Rightarrow> (string \<times> detail_value) list" where
  "bytes_detail measured allowed = [(''measured_bytes'', DInt (int measured)), (''allowed_bytes'', DInt (int allowed))]"

definition tokens_detail :: "nat \<Rightarrow> nat \<Rightarrow> (string \<times> detail_value) list" where
  "tokens_detail measured allowed = [(''measured_tokens'', DInt (int measured)), (''allowed_tokens'', DInt (int allowed))]"

subsection \<open>Literal tokens, keys and filters\<close>

definition kv_literal_char :: "char \<Rightarrow> bool" where
  "kv_literal_char c \<longleftrightarrow>
     CHR ''a'' \<le> c \<and> c \<le> CHR ''z'' \<or> CHR ''A'' \<le> c \<and> c \<le> CHR ''Z'' \<or> CHR ''0'' \<le> c \<and> c \<le> CHR ''9'' \<or>
     List.member ''-/_='' c"

definition isKVLiteralAlphabet :: "string \<Rightarrow> bool" where
  "isKVLiteralAlphabet value = list_all kv_literal_char value"

definition contains_wildcard :: "string \<Rightarrow> bool" where
  "contains_wildcard s = list_ex (\<lambda>c. c = CHR ''*'' \<or> c = CHR ''>'') s"

definition ValidateKVLiteralToken :: "string \<Rightarrow> go_error option" where
  "ValidateKVLiteralToken token =
     (if token = [] then Some (newKVContractError ''kv_token_invalid'' ''empty'' [])
      else if length token > 512
        then Some (newKVContractError ''kv_token_invalid'' ''bytes'' (bytes_detail (length token) 512))
      else if contains_wildcard token then Some (newKVContractError ''kv_token_invalid'' ''wildcard'' [])
      else if list_ex (\<lambda>c. c = CHR ''.'') token then Some (newKVContractError ''kv_token_invalid'' ''separator'' [])
      else if \<not> isKVLiteralAlphabet token then Some (newKVContractError ''kv_token_invalid'' ''alphabet'' [])
      else None)"

fun literalKeyLoop :: "nat \<Rightarrow> string list \<Rightarrow> go_error option" where
  "literalKeyLoop index [] = None"
| "literalKeyLoop index (token # tokens) =
     (if token = [] then Some (newKVTokenLocalError ''kv_key_invalid'' ''empty_token'' index [])
      else if contains_wildcard token then Some (newKVTokenLocalError ''kv_key_invalid'' ''wildcard'' index [])
      else if length token > 512
        then Some (newKVTokenLocalError ''kv_key_invalid'' ''token_bytes'' index (bytes_detail (length token) 512))
      else if \<not> isKVLiteralAlphabet token then Some (newKVTokenLocalError ''kv_key_invalid'' ''alphabet'' index [])
      else literalKeyLoop (Suc index) tokens)"

definition ValidateKVLiteralKey :: "string \<Rightarrow> go_error option" where
  "ValidateKVLiteralKey key =
     (if key = [] then Some (newKVContractError ''kv_key_invalid'' ''empty'' [])
      else if length key > 1024
        then Some (newKVContractError ''kv_key_invalid'' ''bytes'' (bytes_detail (length key) 1024))
      else let tokens = go_split (CHR ''.'') key in
        if length tokens > 64
        then Some (newKVContractError ''kv_key_invalid'' ''tokens'' (tokens_detail (length tokens) 64))
        else literalKeyLoop 0 tokens)"

fun wildcardFilterLoop :: "nat \<Rightarrow> string list \<Rightarrow> go_error option" where
  "wildcardFilterLoop index [] = None"
| "wildcardFilterLoop index (token # tokens) =
     (if token = [] then Some (newKVTokenLocalError ''kv_filter_invalid'' ''empty_token'' index [])
      else if token = ''>'' then
        if tokens \<noteq> [] then Some (newKVTokenLocalError ''kv_filter_invalid'' ''position'' index [])
        else wildcardFilterLoop (Suc index) tokens
      else if token = ''*'' then wildcardFilterLoop (Suc index) tokens
      else if contains_wildcard token then Some (newKVTokenLocalError ''kv_filter_invalid'' ''wildcard'' index [])
      else if length token > 512
        then Some (newKVTokenLocalError ''kv_filter_invalid'' ''token_bytes'' index (bytes_detail (length token) 512))
      else if \<not> isKVLiteralAlphabet token then Some (newKVTokenLocalError ''kv_filter_invalid'' ''alphabet'' index [])
      else wildcardFilterLoop (Suc index) tokens)"

definition ValidateKVWildcardFilter :: "string \<Rightarrow> go_error option" where
  "ValidateKVWildcardFilter filt =
     (if filt = [] then Some (newKVContractError ''kv_filter_invalid'' ''empty'' [])
      else if length filt > 1024
        then Some (newKVContractError ''kv_filter_invalid'' ''bytes'' (bytes_detail (length filt) 1024))
      else let tokens = go_split (CHR ''.'') filt in
        if length tokens > 64
        then Some (newKVContractError ''kv_filter_invalid'' ''tokens'' (tokens_detail (length tokens) 64))
        else wildcardFilterLoop 0 tokens)"

subsection \<open>Opaque tokens\<close>

definition hex_digit :: "nat \<Rightarrow> char" where
  "hex_digit n = (if n < 10 then char_of (48 + n) else char_of (87 + n))"

fun hex_value :: "char \<Rightarrow> nat option" where
  "hex_value c =
     (if CHR ''0'' \<le> c \<and> c \<le> CHR ''9'' then Some (of_char c - 48)
      else if CHR ''a'' \<le> c \<and> c \<le> CHR ''f'' then Some (of_char c - 87)
      else if CHR ''A'' \<le> c \<and> c \<le> CHR ''F'' then Some (of_char c - 55)
      else None)"

fun hex_encode :: "bytes \<Rightarrow> string" where
  "hex_encode [] = []"
| "hex_encode (b # bs) = hex_digit (of_char b div 16) # hex_digit (of_char b mod 16) # hex_encode bs"

text \<open>\<open>hex.Decode\<close>; an odd length or a byte that is no digit is an error.\<close>

fun hex_decode :: "string \<Rightarrow> bytes option" where
  "hex_decode [] = Some []"
| "hex_decode [c] = None"
| "hex_decode (c # d # cs) =
     (case (hex_value c, hex_value d, hex_decode cs) of
        (Some a, Some b, Some bs) \<Rightarrow> Some (char_of (a * 16 + b) # bs)
      | _ \<Rightarrow> None)"

definition hasNonHex :: "string \<Rightarrow> bool" where
  "hasNonHex value = list_ex (\<lambda>c. \<not> (CHR ''0'' \<le> c \<and> c \<le> CHR ''9'' \<or> CHR ''a'' \<le> c \<and> c \<le> CHR ''f'' \<or>
     CHR ''A'' \<le> c \<and> c \<le> CHR ''F'')) value"

definition hasUpperHex :: "string \<Rightarrow> bool" where
  "hasUpperHex value = list_ex (\<lambda>c. CHR ''A'' \<le> c \<and> c \<le> CHR ''F'') value"

definition opaqueKVTokenPrefix :: string where
  "opaqueKVTokenPrefix = ''x1_''"

definition EncodeKVOpaqueToken :: "bytes \<Rightarrow> go_error + string" where
  "EncodeKVOpaqueToken raw =
     (if length raw > 254
      then Inl (newKVContractError ''kv_token_encode_invalid'' ''bytes'' (bytes_detail (length raw) 254))
      else Inr (opaqueKVTokenPrefix @ hex_encode raw))"

definition DecodeKVOpaqueToken :: "string \<Rightarrow> go_error + bytes" where
  "DecodeKVOpaqueToken token =
     (if token = [] then Inl (newKVContractError ''kv_token_decode_invalid'' ''empty'' [])
      else if length token > 511
        then Inl (newKVContractError ''kv_token_decode_invalid'' ''bytes'' (bytes_detail (length token) 511))
      else if \<not> has_prefix token opaqueKVTokenPrefix
        then Inl (newKVContractError ''kv_token_decode_invalid'' ''version'' [])
      else let hexText = drop (length opaqueKVTokenPrefix) token in
        if length hexText mod 2 \<noteq> 0 \<or> hasNonHex hexText
        then Inl (newKVContractError ''kv_token_decode_invalid'' ''hex'' [])
        else if hasUpperHex hexText then Inl (newKVContractError ''kv_token_decode_invalid'' ''noncanonical'' [])
        else case hex_decode hexText of
          None \<Rightarrow> Inl (newKVContractError ''kv_token_decode_invalid'' ''hex'' [])
        | Some decoded \<Rightarrow>
            if length decoded > 254
            then Inl (newKVContractError ''kv_token_decode_invalid'' ''bytes'' (bytes_detail (length decoded) 254))
            else Inr decoded)"

subsection \<open>The codec\<close>

lemma of_char_less [simp]: "(of_char c :: nat) < 256"
  by (metis mod_less_divisor of_char_mod_256 zero_less_numeral)

declare hex_value.simps [simp del]

lemma hex_digits_table:
  "list_all (\<lambda>n. hex_value (hex_digit n) = Some n \<and> \<not> hasNonHex [hex_digit n] \<and> \<not> hasUpperHex [hex_digit n] \<and>
     kv_literal_char (hex_digit n)) [0..<16]"
  by code_simp

lemma hex_digit_ok:
  assumes "n < 16"
  shows "hex_value (hex_digit n) = Some n" "\<not> hasNonHex [hex_digit n]" "\<not> hasUpperHex [hex_digit n]"
    "kv_literal_char (hex_digit n)"
  using hex_digits_table assms by (simp_all add: list_all_iff)

lemma nibble_less [simp]: "(of_char c :: nat) div 16 < 16"
  by (simp add: less_mult_imp_div_less)

lemma hex_decode_encode [simp]: "hex_decode (hex_encode raw) = Some raw"
  by (induction raw) (simp_all add: hex_digit_ok)

lemma hex_encode_length [simp]: "length (hex_encode raw) = 2 * length raw"
  by (induction raw) auto

lemma hex_class_Cons:
  "hasNonHex (c # d # cs) \<longleftrightarrow> hasNonHex [c] \<or> hasNonHex [d] \<or> hasNonHex cs"
  "hasUpperHex (c # d # cs) \<longleftrightarrow> hasUpperHex [c] \<or> hasUpperHex [d] \<or> hasUpperHex cs"
  "isKVLiteralAlphabet (c # cs) \<longleftrightarrow> kv_literal_char c \<and> isKVLiteralAlphabet cs"
  "\<not> hasNonHex []" "\<not> hasUpperHex []" "isKVLiteralAlphabet []"
  by (simp_all add: hasNonHex_def hasUpperHex_def isKVLiteralAlphabet_def)

lemma hex_encode_chars:
  "\<not> hasNonHex (hex_encode raw) \<and> \<not> hasUpperHex (hex_encode raw) \<and> isKVLiteralAlphabet (hex_encode raw)"
  by (induction raw) (simp_all add: hex_class_Cons hex_digit_ok)

lemma hex_ranges:
  "CHR ''0'' \<le> c \<longleftrightarrow> 48 \<le> (of_char c :: nat)" "c \<le> CHR ''9'' \<longleftrightarrow> (of_char c :: nat) \<le> 57"
  "CHR ''a'' \<le> c \<longleftrightarrow> 97 \<le> (of_char c :: nat)" "c \<le> CHR ''f'' \<longleftrightarrow> (of_char c :: nat) \<le> 102"
  "CHR ''A'' \<le> c \<longleftrightarrow> 65 \<le> (of_char c :: nat)" "c \<le> CHR ''F'' \<longleftrightarrow> (of_char c :: nat) \<le> 70"
  by (simp_all add: less_eq_char_def)

lemma hex_value_cases:
  assumes "hex_value c = Some a"
  obtains "48 \<le> (of_char c :: nat)" "(of_char c :: nat) \<le> 57" "a = of_char c - 48"
  | "97 \<le> (of_char c :: nat)" "(of_char c :: nat) \<le> 102" "a = of_char c - 87"
  | "65 \<le> (of_char c :: nat)" "(of_char c :: nat) \<le> 70" "a = of_char c - 55"
  using assms unfolding hex_value.simps hex_ranges by (metis option.distinct(1) option.inject)

lemma hex_value_less: "hex_value c = Some a \<Longrightarrow> a < 16"
  by (erule hex_value_cases) linarith+

lemma hex_digit_value: "hex_value c = Some a \<Longrightarrow> \<not> hasUpperHex [c] \<Longrightarrow> hex_digit a = c"
proof (erule hex_value_cases)
  assume "48 \<le> (of_char c :: nat)" "(of_char c :: nat) \<le> 57" "a = of_char c - 48"
  then have "a < 10" "48 + a = of_char c" by linarith+
  then show "hex_digit a = c" by (simp add: hex_digit_def)
next
  assume "97 \<le> (of_char c :: nat)" "(of_char c :: nat) \<le> 102" "a = of_char c - 87"
  then have "\<not> a < 10" "87 + a = of_char c" by linarith+
  then show "hex_digit a = c" by (simp add: hex_digit_def)
next
  assume "65 \<le> (of_char c :: nat)" "(of_char c :: nat) \<le> 70" "\<not> hasUpperHex [c]"
  then show "hex_digit a = c" by (simp add: hasUpperHex_def hex_ranges)
qed

lemma hex_encode_decode:
  "hex_decode t = Some raw \<Longrightarrow> \<not> hasUpperHex t \<Longrightarrow> hex_encode raw = t"
proof (induction t arbitrary: raw rule: hex_decode.induct)
  case (3 c d cs)
  then obtain a b bs where v: "hex_value c = Some a" "hex_value d = Some b" "hex_decode cs = Some bs"
    "raw = char_of (a * 16 + b) # bs"
    by (auto split: option.splits)
  have u: "\<not> hasUpperHex [c]" "\<not> hasUpperHex [d]" "\<not> hasUpperHex cs"
    using "3.prems"(2) by (simp_all add: hasUpperHex_def)
  have ab: "a < 16" "b < 16" "hex_digit a = c" "hex_digit b = d"
    using hex_value_less hex_digit_value v(1,2) u by blast+
  have "(a * 16 + b) mod 256 = a * 16 + b" using ab(1,2) by simp
  then have "of_char (char_of (a * 16 + b)) = a * 16 + b" by (simp add: of_char_of)
  then show ?case using "3.IH" v ab u(3) by simp
qed auto

lemma Encode_Inr: "EncodeKVOpaqueToken raw = Inr t \<longleftrightarrow> length raw \<le> 254 \<and> t = ''x1_'' @ hex_encode raw"
  by (auto simp: EncodeKVOpaqueToken_def opaqueKVTokenPrefix_def)

lemma Decode_Inr:
  "DecodeKVOpaqueToken t = Inr raw \<longleftrightarrow> length raw \<le> 254 \<and> t = ''x1_'' @ hex_encode raw"
proof
  assume a: "DecodeKVOpaqueToken t = Inr raw"
  then obtain r where r: "t = ''x1_'' @ r"
    by (auto simp: DecodeKVOpaqueToken_def opaqueKVTokenPrefix_def has_prefix_iff split: if_splits)
  with a have "hex_decode r = Some raw" "\<not> hasUpperHex r" "length raw \<le> 254"
    by (auto simp: DecodeKVOpaqueToken_def opaqueKVTokenPrefix_def Let_def split: if_splits option.splits)
  then show "length raw \<le> 254 \<and> t = ''x1_'' @ hex_encode raw" using hex_encode_decode r by auto
next
  assume "length raw \<le> 254 \<and> t = ''x1_'' @ hex_encode raw"
  then show "DecodeKVOpaqueToken t = Inr raw"
    using hex_encode_chars[of raw]
    by (simp add: DecodeKVOpaqueToken_def opaqueKVTokenPrefix_def Let_def)
qed

lemma literal_char_plain: "kv_literal_char c \<Longrightarrow> c \<noteq> CHR ''*'' \<and> c \<noteq> CHR ''>'' \<and> c \<noteq> CHR ''.''"
  by (auto simp: kv_literal_char_def)

lemma literal_token_iff:
  "ValidateKVLiteralToken t = None \<longleftrightarrow> t \<noteq> [] \<and> length t \<le> 512 \<and> isKVLiteralAlphabet t"
  using literal_char_plain
  by (auto simp: ValidateKVLiteralToken_def isKVLiteralAlphabet_def contains_wildcard_def list_all_iff list_ex_iff)

text \<open>C33. The opaque codec is canonical: encoding and decoding are inverse to each other on exactly the
  tokens the decoder accepts, so that a byte string has one token and a token one byte string, and
  every token is a valid literal position of a key.\<close>

theorem opaque_token_canonical:
  "(EncodeKVOpaqueToken raw = Inr t \<longleftrightarrow> DecodeKVOpaqueToken t = Inr raw) \<and>
   (EncodeKVOpaqueToken raw = Inr t \<longrightarrow> ValidateKVLiteralToken t = None) \<and>
   ((\<exists>u. EncodeKVOpaqueToken raw = Inr u) \<longleftrightarrow> length raw \<le> 254)"
proof -
  have "ValidateKVLiteralToken (''x1_'' @ hex_encode raw) = None" if "length raw \<le> 254"
    using that hex_encode_chars[of raw] by (simp add: literal_token_iff isKVLiteralAlphabet_def kv_literal_char_def)
  then show ?thesis by (auto simp: Encode_Inr Decode_Inr)
qed

theorem opaque_token_canonical_witness:
  "EncodeKVOpaqueToken [CHR 0x00, CHR 0xFF] = Inr ''x1_00ff'' \<and> ValidateKVLiteralToken ''x1_00ff'' = None"
proof -
  have "EncodeKVOpaqueToken [CHR 0x00, CHR 0xFF] = Inr ''x1_00ff''" by code_simp
  with opaque_token_canonical[of "[CHR 0x00, CHR 0xFF]" "''x1_00ff''"] show ?thesis by simp
qed

subsection \<open>Keys and filters\<close>

lemma literalKeyLoop_iff:
  "literalKeyLoop i ts = None \<longleftrightarrow> (\<forall>t\<in>set ts. ValidateKVLiteralToken t = None)"
  using literal_char_plain
  by (induction i ts rule: literalKeyLoop.induct)
    (auto simp: literal_token_iff contains_wildcard_def isKVLiteralAlphabet_def list_all_iff list_ex_iff)

lemma literal_key_iff:
  "ValidateKVLiteralKey k = None \<longleftrightarrow>
     length k \<le> 1024 \<and> length (go_split (CHR ''.'') k) \<le> 64 \<and> (\<forall>t\<in>set (go_split (CHR ''.'') k). ValidateKVLiteralToken t = None)"
  by (auto simp: ValidateKVLiteralKey_def Let_def literalKeyLoop_iff literal_token_iff)

text \<open>A literal key is a filter that names itself.\<close>

lemma wildcardFilterLoop_literal:
  "literalKeyLoop i ts = None \<Longrightarrow> wildcardFilterLoop j ts = None"
proof (induction i ts arbitrary: j rule: literalKeyLoop.induct)
  case (2 index token tokens)
  then have "token \<noteq> ''>'' \<and> token \<noteq> ''*''" by (auto simp: contains_wildcard_def split: if_splits)
  with 2 show ?case by (auto split: if_splits)
qed simp

lemma literal_key_is_filter: "ValidateKVLiteralKey k = None \<Longrightarrow> ValidateKVWildcardFilter k = None"
  by (auto simp: ValidateKVLiteralKey_def ValidateKVWildcardFilter_def Let_def intro: wildcardFilterLoop_literal split: if_splits)

end
