(* ===== verification/Kv_Store.thy ===== *)
theory Kv_Store
  imports Retry Kv_Keys Go_Json "HOL-Library.Word" "HOL-Library.Sublist"
begin

text \<open>
  The revision-checked key-value store (\<open>natsclient/kv.go\<close>).  The JetStream bucket is a parameter:
  a record of operations on the state \<open>'s\<close> of the world, which other clients change at will during
  every call.  What the code relies on is the locale \<open>cas_bucket\<close>: a ghost sequence of committed
  writes with increasing revisions, reads that return one of them (not necessarily the newest), and
  conditional writes that are placed right after the revision they name.  The main lemmas are about
  \<open>UpdateWithRetryRev\<close>: a returned revision is that of an atomic read-modify-write, and with definite
  acknowledgements exactly one write took effect.  A byte slice is a byte string (a nil slice is the
  empty one).
\<close>

type_synonym revision = "64 word"

datatype go_ctx = Ctx nat | WithTimeout go_ctx int

record kv_entry =
  ke_Key :: string
  ke_Value :: bytes
  ke_Revision :: revision

record KVOptions =
  ko_MaxRetries :: int
  ko_RetryDelay :: int
  ko_Timeout :: int
  ko_MaxValueSize :: int
  ko_UseExponentialBackoff :: bool
  ko_MaxRetryDelay :: int

record stream_info =
  si_LastSeq :: revision
  si_MaxAge :: int
  si_MaxBytes :: int

text \<open>The JetStream bucket.  A status is \<open>None\<close> when it has another dynamic type than the one asserted,
  and its stream information may be nil.\<close>

record 's js_bucket =
  js_ErrKeyNotFound :: go_error
  js_ErrKeyDeleted :: go_error
  js_ErrNoKeysFound :: go_error
  js_Get :: "go_ctx \<Rightarrow> string \<Rightarrow> 's \<Rightarrow> 's \<times> (go_error + bytes \<times> revision)"
  js_Put :: "go_ctx \<Rightarrow> string \<Rightarrow> bytes \<Rightarrow> 's \<Rightarrow> 's \<times> (go_error + revision)"
  js_Create :: "go_ctx \<Rightarrow> string \<Rightarrow> bytes \<Rightarrow> 's \<Rightarrow> 's \<times> (go_error + revision)"
  js_Update :: "go_ctx \<Rightarrow> string \<Rightarrow> bytes \<Rightarrow> revision \<Rightarrow> 's \<Rightarrow> 's \<times> (go_error + revision)"
  js_Delete :: "go_ctx \<Rightarrow> string \<Rightarrow> revision option \<Rightarrow> 's \<Rightarrow> 's \<times> go_error option"
  js_Keys :: "go_ctx \<Rightarrow> 's \<Rightarrow> 's \<times> (go_error + string list)"
  js_Status :: "go_ctx \<Rightarrow> 's \<Rightarrow> 's \<times> (go_error + stream_info option option)"

record 's kv_store =
  kv_bucket :: "'s js_bucket"
  kv_options :: KVOptions

definition DefaultKVOptions :: KVOptions where
  "DefaultKVOptions =
     \<lparr>ko_MaxRetries = 10, ko_RetryDelay = 10 * 1000000, ko_Timeout = 5 * 1000000000, ko_MaxValueSize = 1024 * 1024,
      ko_UseExponentialBackoff = True, ko_MaxRetryDelay = 1000000000\<rparr>"

definition NewKVStore :: "'s js_bucket \<Rightarrow> (KVOptions \<Rightarrow> KVOptions) list \<Rightarrow> 's kv_store" where
  "NewKVStore bucket opts = \<lparr>kv_bucket = bucket, kv_options = fold (\<lambda>opt options. opt options) opts DefaultKVOptions\<rparr>"

subsection \<open>Errors\<close>

definition ErrKVKeyNotFound :: go_error where "ErrKVKeyNotFound = Sentinel ''kv: key not found''"
definition ErrKVKeyExists :: go_error where "ErrKVKeyExists = Sentinel ''kv: key already exists''"
definition ErrKVRevisionMismatch :: go_error where
  "ErrKVRevisionMismatch = Sentinel ''kv: revision mismatch (concurrent update)''"
definition ErrKVMaxRetriesExceeded :: go_error where
  "ErrKVMaxRetriesExceeded = Sentinel ''kv: max retries exceeded''"
definition ErrGraphBucketRetention :: go_error where
  "ErrGraphBucketRetention = Sentinel ''bucket has lifecycle retention, which is forbidden for state that must not be evicted''"

definition IsKVNotFoundError :: "'s js_bucket \<Rightarrow> go_error \<Rightarrow> bool" where
  "IsKVNotFoundError B err \<longleftrightarrow>
     errors_is err ErrKVKeyNotFound \<or>
     errors_is err (js_ErrKeyNotFound B) \<or> errors_is err (js_ErrKeyDeleted B) \<or>
     contains (Error err) ''key not found'' \<or> contains (Error err) ''key was deleted'' \<or> contains (Error err) ''10037''"

definition IsKVConflictError :: "go_error \<Rightarrow> bool" where
  "IsKVConflictError err \<longleftrightarrow>
     errors_is err ErrKVRevisionMismatch \<or> errors_is err ErrKVKeyExists \<or>
     contains (Error err) ''wrong last sequence'' \<or> contains (Error err) ''10071'' \<or>
     contains (Error err) ''key exists'' \<or> contains (Error err) ''10058''"

subsection \<open>Single operations\<close>

definition applyTimeout :: "'s kv_store \<Rightarrow> go_ctx \<Rightarrow> go_ctx" where
  "applyTimeout kv ctx =
     (if ko_Timeout (kv_options kv) > 0 then WithTimeout ctx (ko_Timeout (kv_options kv)) else ctx)"

definition kv_Get :: "'s kv_store \<Rightarrow> go_ctx \<Rightarrow> string \<Rightarrow> 's \<Rightarrow> 's \<times> (go_error + kv_entry)" where
  "kv_Get kv ctx key s =
     (let ctx = applyTimeout kv ctx in
      case js_Get (kv_bucket kv) ctx key s of
        (s, Inl err) \<Rightarrow>
          (s, Inl (if IsKVNotFoundError (kv_bucket kv) err then ErrKVKeyNotFound
                   else ErrWrap (''kv get '' @ key @ '': '') err []))
      | (s, Inr (v, rvn)) \<Rightarrow> (s, Inr \<lparr>ke_Key = key, ke_Value = v, ke_Revision = rvn\<rparr>))"

definition BucketLastSeq :: "'s js_bucket \<Rightarrow> go_ctx \<Rightarrow> 's \<Rightarrow> 's \<times> (go_error + revision)" where
  "BucketLastSeq bucket ctx s =
     (case js_Status bucket ctx s of
        (s, Inl err) \<Rightarrow> (s, Inl (ErrWrap ''kv status: '' err []))
      | (s, Inr None) \<Rightarrow> (s, Inl (ErrText ''kv status: unexpected type, want *jetstream.KeyValueBucketStatus''))
      | (s, Inr (Some None)) \<Rightarrow> (s, Inl (ErrText ''kv status: nil backing stream info''))
      | (s, Inr (Some (Some info))) \<Rightarrow> (s, Inr (si_LastSeq info)))"

definition BucketRetention :: "'s js_bucket \<Rightarrow> go_ctx \<Rightarrow> 's \<Rightarrow> 's \<times> (go_error + int \<times> int)" where
  "BucketRetention bucket ctx s =
     (case js_Status bucket ctx s of
        (s, Inl err) \<Rightarrow> (s, Inl (ErrWrap ''kv status: '' err []))
      | (s, Inr None) \<Rightarrow> (s, Inl (ErrText ''kv status: unexpected type, want *jetstream.KeyValueBucketStatus''))
      | (s, Inr (Some None)) \<Rightarrow> (s, Inl (ErrText ''kv status: nil backing stream info''))
      | (s, Inr (Some (Some info))) \<Rightarrow> (s, Inr (si_MaxAge info, si_MaxBytes info)))"

text \<open>The age is written in nanoseconds here.\<close>

definition CheckNoLifecycleRetention :: "string \<Rightarrow> int \<Rightarrow> int \<Rightarrow> go_error option" where
  "CheckNoLifecycleRetention name maxAge maxBytes =
     (if maxAge > 0 then
        Some (ErrWrap [] ErrGraphBucketRetention ('': bucket '' @ quoted name @ '' has TTL/MaxAge '' @ int_text maxAge))
      else if maxBytes > 0 then
        Some (ErrWrap [] ErrGraphBucketRetention ('': bucket '' @ quoted name @ '' has MaxBytes '' @ int_text maxBytes))
      else None)"

definition AssertNoLifecycleRetention :: "'s kv_store \<Rightarrow> go_ctx \<Rightarrow> string \<Rightarrow> 's \<Rightarrow> 's \<times> go_error option" where
  "AssertNoLifecycleRetention kv ctx name s =
     (case BucketRetention (kv_bucket kv) ctx s of
        (s, Inl err) \<Rightarrow> (s, Some err)
      | (s, Inr (maxAge, maxBytes)) \<Rightarrow> (s, CheckNoLifecycleRetention name maxAge maxBytes))"

definition kv_Put :: "'s kv_store \<Rightarrow> go_ctx \<Rightarrow> string \<Rightarrow> bytes \<Rightarrow> 's \<Rightarrow> 's \<times> (go_error + revision)" where
  "kv_Put kv ctx key v s =
     (case js_Put (kv_bucket kv) (applyTimeout kv ctx) key v s of
        (s, Inl err) \<Rightarrow> (s, Inl (ErrWrap (''kv put '' @ key @ '': '') err []))
      | (s, Inr rvn) \<Rightarrow> (s, Inr rvn))"

definition kv_Create :: "'s kv_store \<Rightarrow> go_ctx \<Rightarrow> string \<Rightarrow> bytes \<Rightarrow> 's \<Rightarrow> 's \<times> (go_error + revision)" where
  "kv_Create kv ctx key v s =
     (case js_Create (kv_bucket kv) (applyTimeout kv ctx) key v s of
        (s, Inl err) \<Rightarrow>
          (s, Inl (if IsKVConflictError err then ErrKVKeyExists else ErrWrap (''kv create '' @ key @ '': '') err []))
      | (s, Inr rvn) \<Rightarrow> (s, Inr rvn))"

definition kv_Update :: "'s kv_store \<Rightarrow> go_ctx \<Rightarrow> string \<Rightarrow> bytes \<Rightarrow> revision \<Rightarrow> 's \<Rightarrow> 's \<times> (go_error + revision)" where
  "kv_Update kv ctx key v revision s =
     (case js_Update (kv_bucket kv) (applyTimeout kv ctx) key v revision s of
        (s, Inl err) \<Rightarrow>
          (s, Inl (if IsKVConflictError err then ErrKVRevisionMismatch else ErrWrap (''kv update '' @ key @ '': '') err []))
      | (s, Inr rvn) \<Rightarrow> (s, Inr rvn))"

definition kv_Delete :: "'s kv_store \<Rightarrow> go_ctx \<Rightarrow> string \<Rightarrow> 's \<Rightarrow> 's \<times> go_error option" where
  "kv_Delete kv ctx key s =
     (case js_Delete (kv_bucket kv) (applyTimeout kv ctx) key None s of
        (s, Some err) \<Rightarrow>
          (s, Some (if IsKVNotFoundError (kv_bucket kv) err then ErrKVKeyNotFound
                    else ErrWrap (''kv delete '' @ key @ '': '') err []))
      | (s, None) \<Rightarrow> (s, None))"

definition rev_text :: "revision \<Rightarrow> string" where
  "rev_text r = itoa (unat r)"

definition DeleteAtRevision :: "'s kv_store \<Rightarrow> go_ctx \<Rightarrow> string \<Rightarrow> revision \<Rightarrow> 's \<Rightarrow> 's \<times> go_error option" where
  "DeleteAtRevision kv ctx key revision s =
     (if revision = 0 then
        (s, WrapInvalid (Some (ErrText ''revision must be nonzero'')) ''KVStore'' ''DeleteAtRevision'' ''validate revision'')
      else case ValidateKVLiteralKey key of
        Some err \<Rightarrow> (s, Some err)
      | None \<Rightarrow>
          (case js_Delete (kv_bucket kv) (applyTimeout kv ctx) key (Some revision) s of
             (s, Some err) \<Rightarrow>
               (s, Some (if IsKVNotFoundError (kv_bucket kv) err then ErrKVKeyNotFound
                         else if IsKVConflictError err then ErrKVRevisionMismatch
                         else ErrWrap (''kv delete '' @ key @ '' at revision '' @ rev_text revision @ '': '') err []))
           | (s, None) \<Rightarrow> (s, None)))"

definition kv_Keys :: "'s kv_store \<Rightarrow> go_ctx \<Rightarrow> 's \<Rightarrow> 's \<times> (go_error + string list)" where
  "kv_Keys kv ctx s =
     (case js_Keys (kv_bucket kv) (applyTimeout kv ctx) s of
        (s, Inl err) \<Rightarrow>
          (s, if err = js_ErrNoKeysFound (kv_bucket kv) then Inr [] else Inl (ErrWrap ''kv keys: '' err []))
      | (s, Inr keys) \<Rightarrow> (s, Inr keys))"

subsection \<open>Read-modify-write\<close>

text \<open>\<open>n + 1\<close> for a Go \<open>int\<close>, which wraps at the largest value.\<close>

definition int64_succ :: "int \<Rightarrow> int" where
  "int64_succ n = (if n = 2 ^ 63 - 1 then - (2 ^ 63) else n + 1)"

definition getRetryConfig :: "'s kv_store \<Rightarrow> retry_config" where
  "getRetryConfig kv =
     \<lparr>rc_MaxAttempts = int64_succ (ko_MaxRetries (kv_options kv)), rc_InitialDelay = ko_RetryDelay (kv_options kv),
      rc_MaxDelay = ko_MaxRetryDelay (kv_options kv),
      rc_Multiplier = (if ko_UseExponentialBackoff (kv_options kv) then 2 else 1), rc_AddJitter = True\<rparr>"

type_synonym 's update_fn = "bytes \<Rightarrow> 's \<Rightarrow> 's \<times> (go_error + bytes)"

text \<open>One attempt from the update function on, with the value and the revision read.\<close>

definition kv_write_attempt ::
  "'s kv_store \<Rightarrow> go_ctx \<Rightarrow> string \<Rightarrow> 's update_fn \<Rightarrow> bytes \<Rightarrow> revision \<Rightarrow> 's \<Rightarrow> 's \<times> (go_error + revision)" where
  "kv_write_attempt kv ctx key updateFn currentValue revision s =
     (case updateFn currentValue s of
        (s, Inl err) \<Rightarrow> (s, Inl (ErrNonRetryable (ErrWrap ''update function error: '' err [])))
      | (s, Inr newValue) \<Rightarrow>
          if ko_MaxValueSize (kv_options kv) > 0 \<and> int (length newValue) > ko_MaxValueSize (kv_options kv) then
            (s, Inl (ErrNonRetryable (ErrText (''value size validation failed: size '' @ itoa (length newValue) @
               '' exceeds maximum '' @ int_text (ko_MaxValueSize (kv_options kv))))))
          else if revision = 0 then
            (case js_Create (kv_bucket kv) ctx key newValue s of
               (s, Inr createdRevision) \<Rightarrow> (s, Inr createdRevision)
             | (s, Inl err) \<Rightarrow>
                 (s, Inl (if IsKVConflictError err then err else ErrWrap ''kv create failed: '' err [])))
          else
            (case kv_Update kv ctx key newValue revision s of
               (s, Inr updatedRevision) \<Rightarrow> (s, Inr updatedRevision)
             | (s, Inl err) \<Rightarrow>
                 (s, Inl (if IsKVConflictError err then err else ErrWrap ''kv update failed: '' err []))))"

text \<open>The closure of the retry loop; \<open>committedRevision\<close> is the second part of its state.\<close>

definition kv_attempt ::
  "'s kv_store \<Rightarrow> go_ctx \<Rightarrow> string \<Rightarrow> 's update_fn \<Rightarrow> 's \<times> revision \<Rightarrow> ('s \<times> revision) \<times> go_error option" where
  "kv_attempt kv ctx key updateFn sc =
     (let (s, committedRevision) = sc;
          (s, w) = (case kv_Get kv ctx key s of
              (s, Inl err) \<Rightarrow>
                if IsKVNotFoundError (kv_bucket kv) err then kv_write_attempt kv ctx key updateFn [] 0 s
                else (s, Inl (ErrWrap ''kv get failed during update: '' err []))
            | (s, Inr entry) \<Rightarrow> kv_write_attempt kv ctx key updateFn (ke_Value entry) (ke_Revision entry) s)
      in case w of
           Inl err \<Rightarrow> ((s, committedRevision), Some err)
         | Inr rvn \<Rightarrow> ((s, rvn), None))"

definition with_capture :: "'s retry_env \<Rightarrow> ('s \<times> revision) retry_env" where
  "with_capture env =
     \<lparr>re_ctx_err = (\<lambda>(s, c). re_ctx_err env s),
      re_jitter = (\<lambda>d (s, c). let (s, j) = re_jitter env d s in ((s, c), j)),
      re_sleep = (\<lambda>d (s, c). let (s, e) = re_sleep env d s in ((s, c), e))\<rparr>"

definition UpdateWithRetryRev ::
  "(go_ctx \<Rightarrow> 's retry_env) \<Rightarrow> 's kv_store \<Rightarrow> go_ctx \<Rightarrow> string \<Rightarrow> 's update_fn \<Rightarrow> 's \<Rightarrow> 's \<times> revision go_res" where
  "UpdateWithRetryRev env kv ctx key updateFn s =
     (let ctx = applyTimeout kv ctx in
      case retry_Do (with_capture (env ctx)) (getRetryConfig kv) (kv_attempt kv ctx key updateFn) (s, 0) of
        ((s, committedRevision), Ok _) \<Rightarrow> (s, Ok committedRevision)
      | ((s, committedRevision), Fail err) \<Rightarrow>
          (s, Fail (if IsKVConflictError err then ErrKVMaxRetriesExceeded else err))
      | ((s, committedRevision), Panic p) \<Rightarrow> (s, Panic p))"

definition UpdateWithRetry ::
  "(go_ctx \<Rightarrow> 's retry_env) \<Rightarrow> 's kv_store \<Rightarrow> go_ctx \<Rightarrow> string \<Rightarrow> 's update_fn \<Rightarrow> 's \<Rightarrow> 's \<times> unit go_res" where
  "UpdateWithRetry env kv ctx key updateFn s =
     (case UpdateWithRetryRev env kv ctx key updateFn s of
        (s, Ok _) \<Rightarrow> (s, Ok ()) | (s, Fail err) \<Rightarrow> (s, Fail err) | (s, Panic p) \<Rightarrow> (s, Panic p))"

text \<open>\<open>UpdateJSON\<close>: the text of JSON documents is a parameter.  A nil map is \<open>None\<close>.\<close>

record json_io =
  ji_text :: "json \<Rightarrow> bytes"
  ji_parse :: "bytes \<Rightarrow> go_error + json"

fun json_into_map :: "json \<Rightarrow> go_error + (string \<times> gval) list option" where
  "json_into_map JNull = Inr None"
| "json_into_map (JObj kjs) =
     (case json_decode (JObj kjs) of
        Some (GMap kvs) \<Rightarrow> Inr (Some kvs)
      | _ \<Rightarrow> Inl (ErrText ''json: cannot unmarshal number into Go value''))"
| "json_into_map _ = Inl (ErrText ''json: cannot unmarshal into Go value of type map[string]interface {}'')"

definition update_json_fn ::
  "json_io \<Rightarrow> ((string \<times> gval) list option \<Rightarrow> 's \<Rightarrow> 's \<times> (go_error + (string \<times> gval) list option)) \<Rightarrow> 's update_fn" where
  "update_json_fn J updateFn currentBytes s =
     (case (if currentBytes \<noteq> [] then
              (case ji_parse J currentBytes of Inl e \<Rightarrow> Inl e | Inr j \<Rightarrow> json_into_map j)
            else Inr (Some [])) of
        Inl err \<Rightarrow> (s, Inl (ErrNonRetryable (ErrWrap ''unmarshal current: '' err [])))
      | Inr current \<Rightarrow>
          (case updateFn current s of
             (s, Inl err) \<Rightarrow> (s, Inl err)
           | (s, Inr changed) \<Rightarrow>
               (s, case json_marshal (case changed of None \<Rightarrow> GNil | Some kvs \<Rightarrow> GMap kvs) of
                     None \<Rightarrow> Inl (ErrText ''json: unsupported value'')
                   | Some j \<Rightarrow> Inr (ji_text J j))))"

definition UpdateJSON where
  "UpdateJSON J env kv ctx key updateFn s = UpdateWithRetry env kv ctx key (update_json_fn J updateFn) s"

subsection \<open>Listing\<close>

text \<open>A listing is a run of observations: what the watcher and the contexts show at every \<open>select\<close>.  The
  result is \<open>None\<close> while the loop still waits for the next observation.\<close>

text \<open>\<open>errors.Join\<close> of two errors: nil errors are left out, the texts are joined by a line break.\<close>

fun errors_Join :: "go_error option \<Rightarrow> go_error option \<Rightarrow> go_error option" where
  "errors_Join None None = None"
| "errors_Join (Some e) None = Some (ErrWrap [] e [])"
| "errors_Join None (Some f) = Some (ErrWrap [] f [])"
| "errors_Join (Some e) (Some f) = Some (ErrWrap2 [] e [CHR 0x0A] f [])"

datatype select_out =
    SelDone go_error \<comment> \<open>the context is done, with its error\<close>
  | SelClosed "go_error option" \<comment> \<open>the channel is closed; the context's error at that time\<close>
  | SelNil "go_error option" \<comment> \<open>the end of the initial values; the context's error at that time\<close>
  | SelEntry string

datatype drain_out = DrainUpdate | DrainClosed | DrainTimeout

record watch_run =
  wr_watcher :: bool \<comment> \<open>the constructor returned a watcher\<close>
  wr_construct_err :: "go_error option"
  wr_ctx_err :: "go_error option"
  wr_steps :: "(go_error option \<times> select_out) list" \<comment> \<open>the context's error at the loop head, then the select\<close>
  wr_stop_err :: "go_error option"
  wr_drain :: "drain_out list"

definition errFilteredWatcherSnapshotIncomplete :: go_error where
  "errFilteredWatcherSnapshotIncomplete = Sentinel ''filtered watcher closed before initial snapshot completed''"

definition errFilteredWatcherDeliveryIncomplete :: go_error where
  "errFilteredWatcherDeliveryIncomplete = Sentinel ''filtered watcher delivery did not close after Stop''"

fun collectLoop :: "string list \<Rightarrow> (go_error option \<times> select_out) list \<Rightarrow> (string list \<times> go_error option) option" where
  "collectLoop keys [] = None"
| "collectLoop keys ((Some err, _) # steps) = Some (keys, Some err)"
| "collectLoop keys ((None, SelDone err) # steps) = Some (keys, Some err)"
| "collectLoop keys ((None, SelClosed e) # steps) =
     Some (keys, case e of Some err \<Rightarrow> Some err | None \<Rightarrow> Some errFilteredWatcherSnapshotIncomplete)"
| "collectLoop keys ((None, SelNil e) # steps) = Some (keys, e)"
| "collectLoop keys ((None, SelEntry k) # steps) = collectLoop (keys @ [k]) steps"

fun drainLoop :: "drain_out list \<Rightarrow> (bool \<times> go_error option) option" where
  "drainLoop [] = None"
| "drainLoop (DrainUpdate # ds) = drainLoop ds"
| "drainLoop (DrainClosed # ds) = Some (True, None)"
| "drainLoop (DrainTimeout # ds) = Some (False, Some errFilteredWatcherDeliveryIncomplete)"

definition KeysByFilter ::
  "'s js_bucket \<Rightarrow> go_error list \<Rightarrow> go_ctx option \<Rightarrow> string \<Rightarrow> watch_run \<Rightarrow> (go_error + string list) option" where
  "KeysByFilter bucket benign ctx pattern w =
     (let failed = (\<lambda>err. Some (Inl (ErrWrap (''kv keys by filter '' @ quoted pattern @ '': '') err []))) in
      if ctx = None then Some (Inl (ErrText ''kv keys by filter: nil context''))
      else if \<not> wr_watcher w then
        (case wr_ctx_err w of
           Some err \<Rightarrow> failed err
         | None \<Rightarrow>
             (case wr_construct_err w of
                None \<Rightarrow> Some (Inl (ErrText (''kv keys by filter '' @ quoted pattern @ '': missing watcher'')))
              | Some err \<Rightarrow> if err = js_ErrNoKeysFound bucket then Some (Inr []) else failed err))
      else
        (case (case wr_construct_err w of
                 Some err \<Rightarrow> Some ([], Some err)
               | None \<Rightarrow> collectLoop [] (wr_steps w)) of
           None \<Rightarrow> None
         | Some (keys, primaryErr) \<Rightarrow>
             (case drainLoop (wr_drain w) of
                None \<Rightarrow> None
              | Some (isClosed, cleanupErr) \<Rightarrow>
                  let cleanupErr = (case wr_stop_err w of
                           None \<Rightarrow> cleanupErr
                         | Some stopErr \<Rightarrow>
                             if \<not> isClosed \<or> \<not> list_ex (errors_is stopErr) benign
                             then errors_Join cleanupErr (Some (ErrWrap ''filtered watcher Stop: '' stopErr []))
                             else cleanupErr)
                  in case errors_Join primaryErr cleanupErr of Some err \<Rightarrow> failed err | None \<Rightarrow> Some (Inr keys))))"

definition KeysByPrefix where
  "KeysByPrefix bucket benign ctx pre w = KeysByFilter bucket benign ctx (pre @ ''>'') w"

datatype lister_out = ListDone go_error | ListKey string | ListClosed "go_error option"

fun collectFilteredKeys :: "string list \<Rightarrow> lister_out list \<Rightarrow> (go_error + string list) option" where
  "collectFilteredKeys keys [] = None"
| "collectFilteredKeys keys (ListDone err # ls) = Some (Inl err)"
| "collectFilteredKeys keys (ListClosed (Some err) # ls) = Some (Inl err)"
| "collectFilteredKeys keys (ListClosed None # ls) = Some (Inr keys)"
| "collectFilteredKeys keys (ListKey k # ls) = collectFilteredKeys (keys @ [k]) ls"

definition FilteredKeys ::
  "'s js_bucket \<Rightarrow> string \<Rightarrow> go_error + lister_out list \<Rightarrow> (go_error + string list) option" where
  "FilteredKeys bucket pattern lister =
     (case lister of
        Inl err \<Rightarrow>
          Some (if errors_is err (js_ErrNoKeysFound bucket) \<or> errors_is err (js_ErrKeyNotFound bucket) then Inr []
                else Inl (ErrWrap (''kv filtered keys '' @ quoted pattern @ '': '') err []))
      | Inr ls \<Rightarrow>
          (case collectFilteredKeys [] ls of
             None \<Rightarrow> None
           | Some (Inl err) \<Rightarrow> Some (Inl (ErrWrap (''kv filtered keys '' @ quoted pattern @ '': '') err []))
           | Some (Inr keys) \<Rightarrow> Some (Inr keys)))"

lemma collectLoop_ok:
  "collectLoop ks steps = Some (keys, None) \<longleftrightarrow>
     (\<exists>new rest. keys = ks @ new \<and> steps = map (\<lambda>k. (None, SelEntry k)) new @ (None, SelNil None) # rest)"
proof (induction ks steps rule: collectLoop.induct)
  case (6 ks k steps)
  show ?case unfolding collectLoop.simps 6
    by (rule iffI; elim exE conjE) (force simp: Cons_eq_append_conv Cons_eq_map_conv)+
qed (auto simp: Cons_eq_append_conv Cons_eq_map_conv split: option.splits)

lemma drainLoop_closed: "drainLoop ds = Some (c, None) \<longleftrightarrow> (\<exists>n rest. c \<and> ds = replicate n DrainUpdate @ DrainClosed # rest)"
proof (induction ds rule: drainLoop.induct)
  case (2 ds)
  show ?case unfolding drainLoop.simps 2
  proof (rule iffI; elim exE conjE)
    fix n rest assume "c" "ds = replicate n DrainUpdate @ DrainClosed # rest"
    then show "\<exists>n rest. c \<and> DrainUpdate # ds = replicate n DrainUpdate @ DrainClosed # rest"
      by (intro exI[of _ "Suc n"]) auto
  next
    fix n rest assume a: "c" "DrainUpdate # ds = replicate n DrainUpdate @ DrainClosed # rest"
    then show "\<exists>n rest. c \<and> ds = replicate n DrainUpdate @ DrainClosed # rest" by (cases n) auto
  qed
qed (auto simp: Cons_eq_append_conv Cons_replicate_eq)

lemma errors_Join_None [simp]: "errors_Join a b = None \<longleftrightarrow> a = None \<and> b = None"
  by (cases a; cases b) auto

lemma drainLoop_Some_None: "drainLoop ds = Some (c, e) \<Longrightarrow> e = None \<longleftrightarrow> c"
  by (induction ds rule: drainLoop.induct) auto

lemma KeysByFilter_watcher:
  assumes "wr_watcher w"
  shows "KeysByFilter bucket benign (Some ctx) pattern w = Some (Inr keys) \<longleftrightarrow>
    wr_construct_err w = None \<and> collectLoop [] (wr_steps w) = Some (keys, None) \<and> drainLoop (wr_drain w) = Some (True, None) \<and>
    (\<forall>err. wr_stop_err w = Some err \<longrightarrow> list_ex (errors_is err) benign)"
proof (cases "drainLoop (wr_drain w)")
  case (Some de)
  obtain c e where "de = (c, e)" by (cases de)
  with Some have d: "drainLoop (wr_drain w) = Some (c, e)" "e = None \<longleftrightarrow> c" using drainLoop_Some_None by auto
  then show ?thesis using assms
    by (cases "wr_construct_err w"; cases "wr_stop_err w"; cases "collectLoop [] (wr_steps w)")
      (auto simp: KeysByFilter_def Let_def split: option.splits)
qed (use assms in \<open>auto simp: KeysByFilter_def Let_def split: option.splits\<close>)

text \<open>C34. A filtered listing succeeds in two cases only.  Either the watcher was constructed without an
  error, delivered exactly the returned keys and then the end of the initial values, with no
  cancellation seen in between, its channel was closed after the stop, and the stop did not fail in a
  way that matters; or no watcher was constructed, the constructor said that there are no keys, the
  context was not done, and the listing is empty.  Every other run, a failed construction and a
  partial snapshot among them, is an error or still waits.\<close>

theorem keys_by_filter_complete:
  "KeysByFilter bucket benign ctx pattern w = Some (Inr keys) \<longleftrightarrow>
     ctx \<noteq> None \<and>
     (if wr_watcher w then
        wr_construct_err w = None \<and>
        (\<exists>rest. wr_steps w = map (\<lambda>k. (None, SelEntry k)) keys @ (None, SelNil None) # rest) \<and>
        (\<exists>n rest. wr_drain w = replicate n DrainUpdate @ DrainClosed # rest) \<and>
        (\<forall>err. wr_stop_err w = Some err \<longrightarrow> list_ex (errors_is err) benign)
      else wr_ctx_err w = None \<and> wr_construct_err w = Some (js_ErrNoKeysFound bucket) \<and> keys = [])"
proof (cases "ctx \<noteq> None \<and> wr_watcher w")
  case True
  then obtain c where "ctx = Some c" by auto
  with True show ?thesis by (simp add: KeysByFilter_watcher collectLoop_ok drainLoop_closed)
qed (auto simp: KeysByFilter_def Let_def split: option.splits)

definition wit_watch_run :: watch_run where
  "wit_watch_run = \<lparr>wr_watcher = True, wr_construct_err = None, wr_ctx_err = None,
     wr_steps = [(None, SelEntry ''a''), (None, SelEntry ''b''), (None, SelNil None)],
     wr_stop_err = None, wr_drain = [DrainUpdate, DrainClosed]\<rparr>"

text \<open>Two keys and the end of the snapshot are a success; the same run with the construction failing is not.\<close>

theorem keys_by_filter_complete_witness:
  "\<forall>(B :: unit js_bucket) benign.
     KeysByFilter B benign (Some (Ctx 0)) ''>'' wit_watch_run = Some (Inr [''a'', ''b'']) \<and>
     KeysByFilter B benign (Some (Ctx 0)) ''>'' (wit_watch_run\<lparr>wr_construct_err := Some (ErrText ''no responders'')\<rparr>)
       \<noteq> Some (Inr [])"
  unfolding keys_by_filter_complete by (auto simp: wit_watch_run_def intro!: exI[of _ "Suc 0"])

subsection \<open>The contract of the bucket\<close>

text \<open>A committed write: a value, or a deletion.\<close>

record kv_commit =
  kc_rev :: revision
  kc_key :: string
  kc_val :: "bytes option"

definition last_commit :: "string \<Rightarrow> kv_commit list \<Rightarrow> kv_commit option" where
  "last_commit k cs = find (\<lambda>c. kc_key c = k) (rev cs)"

definition last_revision :: "string \<Rightarrow> kv_commit list \<Rightarrow> revision" where
  "last_revision k cs = (case last_commit k cs of None \<Rightarrow> 0 | Some c \<Rightarrow> kc_rev c)"

definition live_value :: "string \<Rightarrow> kv_commit list \<Rightarrow> bytes option" where
  "live_value k cs = Option.bind (last_commit k cs) kc_val"

text \<open>The commit \<open>(rvn, k, v)\<close> was appended after \<open>l\<close>, when the writes before it satisfied \<open>P\<close>.\<close>

definition committed :: "kv_commit list \<Rightarrow> kv_commit list \<Rightarrow> string \<Rightarrow> revision \<Rightarrow> bytes option \<Rightarrow> (kv_commit list \<Rightarrow> bool) \<Rightarrow> bool" where
  "committed l l' k rvn v P \<longleftrightarrow>
     (\<exists>pre post. l' = pre @ \<lparr>kc_rev = rvn, kc_key = k, kc_val = v\<rparr> # post \<and> prefix l pre \<and> P pre)"

definition log_ok :: "kv_commit list \<Rightarrow> bool" where
  "log_ok l \<longleftrightarrow> sorted_wrt (<) (map kc_rev l) \<and> (\<forall>c\<in>set l. 0 < kc_rev c)"

definition steady :: "('s \<Rightarrow> bool) \<Rightarrow> ('s \<Rightarrow> kv_commit list) \<Rightarrow> 's \<Rightarrow> 's \<Rightarrow> bool" where
  "steady ok wlog s s' \<longleftrightarrow> (ok s \<longrightarrow> ok s' \<and> prefix (wlog s) (wlog s'))"

lemma steady_refl [simp]: "steady ok wlog s s"
  by (simp add: steady_def)

lemma steady_trans: "steady ok wlog s s' \<Longrightarrow> steady ok wlog s' s'' \<Longrightarrow> steady ok wlog s s''"
  by (auto simp: steady_def intro: prefix_order.trans)

lemma committed_mono:
  "committed l l' k rvn v P \<Longrightarrow> prefix l0 l \<Longrightarrow> (\<And>pre. P pre \<Longrightarrow> prefix l pre \<Longrightarrow> Q pre) \<Longrightarrow> committed l0 l' k rvn v Q"
  unfolding committed_def by (blast intro: prefix_order.trans)

text \<open>The caller's function, and the context, the random source and the sleep, leave the sequence to the
  other clients.\<close>

definition steady_update :: "('s \<Rightarrow> bool) \<Rightarrow> ('s \<Rightarrow> kv_commit list) \<Rightarrow> 's update_fn \<Rightarrow> bool" where
  "steady_update ok wlog updateFn \<longleftrightarrow> (\<forall>v s. steady ok wlog s (fst (updateFn v s)))"

definition steady_env :: "('s \<Rightarrow> bool) \<Rightarrow> ('s \<Rightarrow> kv_commit list) \<Rightarrow> (go_ctx \<Rightarrow> 's retry_env) \<Rightarrow> bool" where
  "steady_env ok wlog env \<longleftrightarrow>
     (\<forall>c d s. steady ok wlog s (fst (re_jitter (env c) d s)) \<and> steady ok wlog s (fst (re_sleep (env c) d s)))"

lemma steady_updateD: "steady_update ok wlog updateFn \<Longrightarrow> updateFn v s = (s', r) \<Longrightarrow> steady ok wlog s s'"
  unfolding steady_update_def by (metis fst_conv)

lemma steady_envD:
  "steady_env ok wlog env \<Longrightarrow> re_jitter (env c) d s = (s', j) \<Longrightarrow> steady ok wlog s s'"
  "steady_env ok wlog env \<Longrightarrow> re_sleep (env c) d s = (s', e) \<Longrightarrow> steady ok wlog s s'"
  unfolding steady_env_def by (metis fst_conv)+

text \<open>A single-sequence store with conditional writes.\<close>

locale cas_bucket =
  fixes B :: "'s js_bucket" and ok :: "'s \<Rightarrow> bool" and wlog :: "'s \<Rightarrow> kv_commit list"
  assumes log_ok: "ok s \<Longrightarrow> log_ok (wlog s)"
    and get_steady: "js_Get B ctx k s = (s', g) \<Longrightarrow> steady ok wlog s s'"
    and get_entry: "ok s \<Longrightarrow> js_Get B ctx k s = (s', Inr (v, rvn)) \<Longrightarrow>
           \<lparr>kc_rev = rvn, kc_key = k, kc_val = Some v\<rparr> \<in> set (wlog s')"
    and create_steady: "js_Create B ctx k v s = (s', r) \<Longrightarrow> steady ok wlog s s'"
    and create_commit: "ok s \<Longrightarrow> js_Create B ctx k v s = (s', Inr rvn) \<Longrightarrow>
           committed (wlog s) (wlog s') k rvn (Some v) (\<lambda>pre. live_value k pre = None)"
    and update_steady: "js_Update B ctx k v r0 s = (s', r) \<Longrightarrow> steady ok wlog s s'"
    and update_commit: "ok s \<Longrightarrow> js_Update B ctx k v r0 s = (s', Inr rvn) \<Longrightarrow>
           committed (wlog s) (wlog s') k rvn (Some v) (\<lambda>pre. last_revision k pre = r0)"
    and delete_steady: "js_Delete B ctx k r1 s = (s', e) \<Longrightarrow> steady ok wlog s s'"
    and delete_commit: "ok s \<Longrightarrow> js_Delete B ctx k (Some r0) s = (s', None) \<Longrightarrow>
           \<exists>rvn. committed (wlog s) (wlog s') k rvn None (\<lambda>pre. last_revision k pre = r0)"

lemma last_commit_in: "last_commit k l = Some c \<Longrightarrow> c \<in> set l \<and> kc_key c = k"
  unfolding last_commit_def find_Some_iff by (metis nth_mem set_rev)

lemma log_ok_unique: "log_ok l \<Longrightarrow> c \<in> set l \<Longrightarrow> d \<in> set l \<Longrightarrow> kc_rev c = kc_rev d \<Longrightarrow> c = d"
proof -
  assume a: "log_ok l" "c \<in> set l" "d \<in> set l" "kc_rev c = kc_rev d"
  then have "distinct (map kc_rev l)" by (simp add: log_ok_def strict_sorted_iff)
  then show "c = d" using a(2-4) by (auto simp: distinct_map inj_on_def)
qed

text \<open>A revision that is still the last one of its key determines the live value.\<close>

lemma last_revision_value:
  assumes "log_ok l'" "prefix pre l'" "\<lparr>kc_rev = rvn, kc_key = k, kc_val = Some v\<rparr> \<in> set l'" "last_revision k pre = rvn"
  shows "live_value k pre = Some v"
proof -
  have "0 < rvn" using assms(1,3) by (auto simp: log_ok_def)
  then obtain c where c: "last_commit k pre = Some c" "kc_rev c = rvn"
    using assms(4) by (auto simp: last_revision_def split: option.splits)
  then have "c \<in> set l'" using last_commit_in set_mono_prefix[OF assms(2)] by blast
  then have "c = \<lparr>kc_rev = rvn, kc_key = k, kc_val = Some v\<rparr>"
    using log_ok_unique[OF assms(1) _ assms(3)] c(2) by simp
  then show ?thesis using c(1) by (simp add: live_value_def)
qed

context cas_bucket
begin

lemma kv_Get_steady: "kv_bucket kv = B \<Longrightarrow> kv_Get kv ctx k s = (s', r) \<Longrightarrow> steady ok wlog s s'"
  using get_steady[of "applyTimeout kv ctx" k s] by (auto simp: kv_Get_def split: prod.splits sum.splits)

lemma kv_Get_entry:
  "kv_bucket kv = B \<Longrightarrow> ok s \<Longrightarrow> kv_Get kv ctx k s = (s', Inr e) \<Longrightarrow>
     \<lparr>kc_rev = ke_Revision e, kc_key = k, kc_val = Some (ke_Value e)\<rparr> \<in> set (wlog s') \<and> ke_Revision e \<noteq> 0"
  using get_entry[of s "applyTimeout kv ctx" k s' "ke_Value e" "ke_Revision e"]
    log_ok[of s'] get_steady[of "applyTimeout kv ctx" k s s' "Inr (ke_Value e, ke_Revision e)"]
  by (fastforce simp: kv_Get_def steady_def log_ok_def split: prod.splits sum.splits)

lemma kv_Update_steady: "kv_bucket kv = B \<Longrightarrow> kv_Update kv ctx k v r0 s = (s', r) \<Longrightarrow> steady ok wlog s s'"
  using update_steady[of "applyTimeout kv ctx" k v r0 s] by (auto simp: kv_Update_def split: prod.splits sum.splits)

lemma kv_Update_commit:
  "kv_bucket kv = B \<Longrightarrow> ok s \<Longrightarrow> kv_Update kv ctx k v r0 s = (s', Inr rvn) \<Longrightarrow>
     committed (wlog s) (wlog s') k rvn (Some v) (\<lambda>pre. last_revision k pre = r0)"
  using update_commit[of s "applyTimeout kv ctx" k v r0] by (auto simp: kv_Update_def split: prod.splits sum.splits)

lemma kv_Create_steady: "kv_bucket kv = B \<Longrightarrow> kv_Create kv ctx k v s = (s', r) \<Longrightarrow> steady ok wlog s s'"
  using create_steady[of "applyTimeout kv ctx" k v s] by (auto simp: kv_Create_def split: prod.splits sum.splits)

lemma kv_Create_commit:
  "kv_bucket kv = B \<Longrightarrow> ok s \<Longrightarrow> kv_Create kv ctx k v s = (s', Inr rvn) \<Longrightarrow>
     committed (wlog s) (wlog s') k rvn (Some v) (\<lambda>pre. live_value k pre = None)"
  using create_commit[of s "applyTimeout kv ctx" k v] by (auto simp: kv_Create_def split: prod.splits sum.splits)

lemma DeleteAtRevision_steady: "kv_bucket kv = B \<Longrightarrow> DeleteAtRevision kv ctx k r0 s = (s', e) \<Longrightarrow> steady ok wlog s s'"
  using delete_steady[of "applyTimeout kv ctx" k "Some r0" s]
  by (auto simp: DeleteAtRevision_def split: prod.splits option.splits if_splits)

lemma DeleteAtRevision_commit:
  "kv_bucket kv = B \<Longrightarrow> ok s \<Longrightarrow> DeleteAtRevision kv ctx k r0 s = (s', None) \<Longrightarrow>
     \<exists>rvn. committed (wlog s) (wlog s') k rvn None (\<lambda>pre. last_revision k pre = r0)"
  using delete_commit[of s "applyTimeout kv ctx" k r0 s']
  by (auto simp: DeleteAtRevision_def WrapInvalid_def wrapClass_def Let_def split: prod.splits option.splits if_splits)

text \<open>One attempt that succeeds commits the image of the live value.\<close>

lemma write_attempt_steady:
  assumes "kv_bucket kv = B" "steady_update ok wlog updateFn"
    and "kv_write_attempt kv ctx k updateFn v r0 s = (s', r)"
  shows "steady ok wlog s s'"
proof -
  obtain s1 u where u: "updateFn v s = (s1, u)" by fastforce
  note 1 = steady_updateD[OF assms(2) u]
  show ?thesis
  proof (cases u)
    case (Inl e)
    with assms(3) u 1 show ?thesis by (auto simp: kv_write_attempt_def)
  next
    case (Inr w)
    obtain sc c where c: "js_Create (kv_bucket kv) ctx k w s1 = (sc, c)" by fastforce
    obtain su d where d: "kv_Update kv ctx k w r0 s1 = (su, d)" by fastforce
    have "steady ok wlog s1 sc" "steady ok wlog s1 su"
      using create_steady c assms(1) kv_Update_steady[OF assms(1) d] by auto
    with 1 have "steady ok wlog s sc" "steady ok wlog s su" by (blast intro: steady_trans)+
    moreover have "s' = s1 \<or> s' = sc \<or> s' = su"
      using assms(3) by (auto simp: kv_write_attempt_def u Inr c d split: if_splits sum.splits)
    ultimately show ?thesis using 1 by blast
  qed
qed

lemma write_attempt_commit:
  assumes "kv_bucket kv = B" "steady_update ok wlog updateFn"
    and "kv_write_attempt kv ctx k updateFn v r0 s = (s', Inr rvn)" "ok s"
    and "r0 = 0 \<longrightarrow> v = []"
    and "r0 \<noteq> 0 \<longrightarrow> \<lparr>kc_rev = r0, kc_key = k, kc_val = Some v\<rparr> \<in> set (wlog s)"
  shows "\<exists>w. committed (wlog s) (wlog s') k rvn (Some w)
     (\<lambda>pre. \<exists>s1 s2. ok s1 \<and> updateFn (case live_value k pre of None \<Rightarrow> [] | Some x \<Rightarrow> x) s1 = (s2, Inr w))"
proof -
  obtain s1 u where u: "updateFn v s = (s1, u)" by fastforce
  note 1 = steady_updateD[OF assms(2) u]
  then have ok1: "ok s1" "prefix (wlog s) (wlog s1)" using assms(4) by (auto simp: steady_def)
  from assms(3) obtain w where w: "u = Inr w" by (cases u) (auto simp: kv_write_attempt_def u)
  show ?thesis
  proof (cases "r0 = 0")
    case True
    then have "js_Create B ctx k w s1 = (s', Inr rvn)"
      using assms(1,3) by (auto simp: kv_write_attempt_def u w split: if_splits prod.splits sum.splits)
    from committed_mono[OF create_commit[OF ok1(1) this] ok1(2), where
        Q = "\<lambda>pre. \<exists>s1 s2. ok s1 \<and> updateFn (case live_value k pre of None \<Rightarrow> [] | Some x \<Rightarrow> x) s1 = (s2, Inr w)"]
    show ?thesis using u w assms(4,5) True by force
  next
    case False
    then have up: "kv_Update kv ctx k w r0 s1 = (s', Inr rvn)"
      using assms(3) by (auto simp: kv_write_attempt_def u w split: if_splits prod.splits sum.splits)
    then have "ok s'" using kv_Update_steady[OF assms(1)] ok1(1) by (auto simp: steady_def)
    from kv_Update_commit[OF assms(1) ok1(1) up] obtain pre post where
      p: "wlog s' = pre @ \<lparr>kc_rev = rvn, kc_key = k, kc_val = Some w\<rparr> # post" "prefix (wlog s1) pre" "last_revision k pre = r0"
      by (auto simp: committed_def)
    have "\<lparr>kc_rev = r0, kc_key = k, kc_val = Some v\<rparr> \<in> set (wlog s')"
      using assms(6) False set_mono_prefix[OF ok1(2)] set_mono_prefix[OF p(2)] p(1) by auto
    with last_revision_value[OF log_ok[OF \<open>ok s'\<close>] _ this p(3)] p(1) have "live_value k pre = Some v" by simp
    then show ?thesis
      unfolding committed_def using p(1) prefix_order.trans[OF ok1(2) p(2)] u w assms(4) by fastforce
  qed
qed

lemma attempt_steady:
  assumes "kv_bucket kv = B" "steady_update ok wlog updateFn"
    and "kv_attempt kv ctx k updateFn (s, c) = ((s', c'), e)"
  shows "steady ok wlog s s'"
proof -
  obtain s1 g where g: "kv_Get kv ctx k s = (s1, g)" by fastforce
  note 1 = kv_Get_steady[OF assms(1) g]
  show ?thesis
  proof (cases g)
    case (Inl err)
    obtain s2 w where w: "kv_write_attempt kv ctx k updateFn [] 0 s1 = (s2, w)" by fastforce
    have "s' = s1 \<or> s' = s2" using assms(3) by (auto simp: kv_attempt_def g Inl w split: if_splits sum.splits)
    with 1 steady_trans[OF 1 write_attempt_steady[OF assms(1,2) w]] show ?thesis by blast
  next
    case (Inr en)
    obtain s2 w where w: "kv_write_attempt kv ctx k updateFn (ke_Value en) (ke_Revision en) s1 = (s2, w)" by fastforce
    have "s' = s2" using assms(3) by (auto simp: kv_attempt_def g Inr w split: sum.splits)
    with steady_trans[OF 1 write_attempt_steady[OF assms(1,2) w]] show ?thesis by blast
  qed
qed

lemma attempt_commit:
  assumes "kv_bucket kv = B" "steady_update ok wlog updateFn"
    and "kv_attempt kv ctx k updateFn (s, c) = ((s', rvn), None)" "ok s"
  shows "\<exists>w. committed (wlog s) (wlog s') k rvn (Some w)
     (\<lambda>pre. \<exists>s1 s2. ok s1 \<and> updateFn (case live_value k pre of None \<Rightarrow> [] | Some x \<Rightarrow> x) s1 = (s2, Inr w))"
proof -
  obtain s1 g where g: "kv_Get kv ctx k s = (s1, g)" by fastforce
  note 1 = kv_Get_steady[OF assms(1) g]
  then have ok1: "ok s1" "prefix (wlog s) (wlog s1)" using assms(4) by (auto simp: steady_def)
  define v r0 where "v = (case g of Inl _ \<Rightarrow> [] | Inr en \<Rightarrow> ke_Value en)" and "r0 = (case g of Inl _ \<Rightarrow> 0 | Inr en \<Rightarrow> ke_Revision en)"
  have w: "kv_write_attempt kv ctx k updateFn v r0 s1 = (s', Inr rvn)"
    using assms(3) by (auto simp: kv_attempt_def g v_def r0_def split: sum.splits prod.splits if_splits)
  have "r0 = 0 \<longrightarrow> v = []" "r0 \<noteq> 0 \<longrightarrow> \<lparr>kc_rev = r0, kc_key = k, kc_val = Some v\<rparr> \<in> set (wlog s1)"
    using kv_Get_entry[OF assms(1,4), of ctx k s1] g by (auto simp: v_def r0_def split: sum.splits)
  from write_attempt_commit[OF assms(1,2) w ok1(1) this] show ?thesis
    by (elim ex_forward) (erule committed_mono[OF _ ok1(2)])
qed

lemma UpdateWithRetryRev_atomic:
  assumes kv: "kv_bucket kv = B" and fn: "steady_update ok wlog updateFn"
    and env: "steady_env ok wlog env"
    and run: "UpdateWithRetryRev env kv ctx k updateFn s = (s', Ok rvn)" and "ok s"
  shows "\<exists>w. committed (wlog s) (wlog s') k rvn (Some w)
     (\<lambda>pre. \<exists>s1 s2. ok s1 \<and> updateFn (case live_value k pre of None \<Rightarrow> [] | Some x \<Rightarrow> x) s1 = (s2, Inr w))"
proof -
  let ?c = "applyTimeout kv ctx" and ?I = "\<lambda>sc. ok (fst sc) \<and> prefix (wlog s) (wlog (fst sc))"
  have run': "retry_Do (with_capture (env ?c)) (getRetryConfig kv) (kv_attempt kv ?c k updateFn) (s, 0) = ((s', rvn), Ok ())"
    using run by (auto simp: UpdateWithRetryRev_def Let_def split: prod.splits go_res.splits)
  have keep: "?I s2" if "?I s1" "steady ok wlog (fst s1) (fst s2)" for s1 s2 :: "'s \<times> revision"
    using that prefix_order.trans[of "wlog s" "wlog (fst s1)" "wlog (fst s2)"] by (simp add: steady_def)
  have "\<exists>s0. ?I s0 \<and> kv_attempt kv ?c k updateFn s0 = ((s', rvn), None)"
  proof -
    have "case Ok () of Ok _ \<Rightarrow> \<exists>s0. ?I s0 \<and> kv_attempt kv ?c k updateFn s0 = ((s', rvn), None) | _ \<Rightarrow> ?I (s', rvn)"
    proof (rule retry_Do_rule[where I = ?I, OF _ _ _ _ run'])
      show "?I (s, 0)" using \<open>ok s\<close> by simp
    next
      fix s1 s2 err assume "?I s1" "kv_attempt kv ?c k updateFn s1 = (s2, Some err)"
      then show "?I s2" using keep[of s1 s2] attempt_steady[OF kv fn, of ?c k "fst s1" "snd s1" "fst s2" "snd s2"] by simp
    next
      fix s1 s2 d j assume "?I s1" "re_jitter (with_capture (env ?c)) d s1 = (s2, j)"
      then show "?I s2"
        using keep[of s1 s2] env by (auto simp: with_capture_def steady_env_def split: prod.splits) (metis fst_conv)+
    next
      fix s1 s2 d e assume "?I s1" "re_sleep (with_capture (env ?c)) d s1 = (s2, e)"
      then show "?I s2"
        using keep[of s1 s2] env by (auto simp: with_capture_def steady_env_def split: prod.splits) (metis fst_conv)+
    qed
    then show ?thesis by simp
  qed
  then obtain s0 c0 where s0: "ok s0" "prefix (wlog s) (wlog s0)" "kv_attempt kv ?c k updateFn (s0, c0) = ((s', rvn), None)"
    by auto
  from attempt_commit[OF kv fn s0(3,1)] show ?thesis
    by (elim ex_forward) (erule committed_mono[OF _ s0(2)])
qed

end

text \<open>C1. A revision returned by \<open>UpdateWithRetryRev\<close> belongs to an atomic read-modify-write: the sequence of
  committed writes contains, after the call's start, a write of this key with exactly that revision
  whose value is the update function's result for the value that was live immediately before it
  (the empty value for an absent key).  Nothing any other client writes meanwhile is lost, whatever
  reads, errors and retries happened on the way.\<close>

theorem kv_update_atomic:
  assumes "cas_bucket B ok wlog" "kv_bucket kv = B"
    and "steady_update ok wlog updateFn"
    and "steady_env ok wlog env"
    and "UpdateWithRetryRev env kv ctx k updateFn s = (s', Ok rvn)" "ok s"
  shows "\<exists>pre w post. wlog s' = pre @ \<lparr>kc_rev = rvn, kc_key = k, kc_val = Some w\<rparr> # post \<and> prefix (wlog s) pre \<and>
           (\<exists>s1 s2. updateFn (case live_value k pre of None \<Rightarrow> [] | Some v \<Rightarrow> v) s1 = (s2, Inr w))"
  using cas_bucket.UpdateWithRetryRev_atomic[OF assms(1,2,3,4,5,6)] unfolding committed_def by blast

subsection \<open>Bounded work\<close>

lemma write_attempt_cnt:
  assumes "\<And>v s. cnt (fst (updateFn v s)) = cnt s"
    and "\<And>c k v s. cnt (fst (js_Create (kv_bucket kv) c k v s)) = cnt s"
    and "\<And>c k v r s. cnt (fst (js_Update (kv_bucket kv) c k v r s)) = cnt s"
  shows "cnt (fst (kv_write_attempt kv ctx k updateFn v r0 s)) = cnt s"
proof -
  obtain s1 u where u: "updateFn v s = (s1, u)" by fastforce
  have 1: "cnt s1 = cnt s" using assms(1)[of v s] u by simp
  show ?thesis
  proof (cases u)
    case (Inr w)
    obtain sc c where c: "js_Create (kv_bucket kv) ctx k w s1 = (sc, c)" by fastforce
    obtain su d where d: "js_Update (kv_bucket kv) (applyTimeout kv ctx) k w r0 s1 = (su, d)" by fastforce
    have "cnt sc = cnt s" "cnt su = cnt s"
      using assms(2)[of ctx k w s1] assms(3)[of "applyTimeout kv ctx" k w r0 s1] c d 1 by auto
    then show ?thesis using 1 by (auto simp: kv_write_attempt_def kv_Update_def u Inr c d split: sum.splits)
  qed (simp add: kv_write_attempt_def u 1)
qed

lemma attempt_cnt:
  assumes "\<And>c k s. cnt (fst (js_Get (kv_bucket kv) c k s)) = Suc (cnt s)"
    and "\<And>v s. cnt (fst (updateFn v s)) = cnt s"
    and "\<And>c k v s. cnt (fst (js_Create (kv_bucket kv) c k v s)) = cnt s"
    and "\<And>c k v r s. cnt (fst (js_Update (kv_bucket kv) c k v r s)) = cnt s"
  shows "cnt (fst (fst (kv_attempt kv ctx k updateFn sc))) = Suc (cnt (fst sc))"
proof -
  obtain s c where sc: "sc = (s, c)" by fastforce
  obtain s1 g where g: "js_Get (kv_bucket kv) (applyTimeout kv ctx) k s = (s1, g)" by fastforce
  have 1: "cnt s1 = Suc (cnt s)" using assms(1)[of "applyTimeout kv ctx" k s] g by simp
  have w: "cnt (fst (kv_write_attempt kv ctx k updateFn v r s1)) = Suc (cnt s)" for v r
    unfolding 1[symmetric] by (rule write_attempt_cnt) (fact assms)+
  obtain s2 w where w': "kv_Get kv ctx k s = (s1, w)"
    by (cases g) (auto simp: kv_Get_def g split: prod.splits)
  show ?thesis
  proof (cases w)
    case (Inl e)
    then show ?thesis using w[of "[]" 0] 1 by (auto simp: kv_attempt_def sc w' split: prod.splits sum.splits)
  next
    case (Inr e)
    then show ?thesis using w[of "ke_Value e" "ke_Revision e"]
      by (auto simp: kv_attempt_def sc w' split: prod.splits sum.splits)
  qed
qed

lemma kv_update_reads:
  assumes get: "\<And>c k s. cnt (fst (js_Get (kv_bucket kv) c k s)) = Suc (cnt s)"
    and "\<And>v s. cnt (fst (updateFn v s)) = cnt s"
    and "\<And>c k v s. cnt (fst (js_Create (kv_bucket kv) c k v s)) = cnt s"
    and "\<And>c k v r s. cnt (fst (js_Update (kv_bucket kv) c k v r s)) = cnt s"
    and jit: "\<And>c d s. cnt (fst (re_jitter (env c) d s)) = cnt s"
    and slp: "\<And>c d s. cnt (fst (re_sleep (env c) d s)) = cnt s"
    and norm: "retry_normalize (getRetryConfig kv) = Inr cf"
  shows "cnt s + 1 \<le> cnt (fst (UpdateWithRetryRev env kv ctx k updateFn s)) \<and>
    cnt (fst (UpdateWithRetryRev env kv ctx k updateFn s)) \<le> cnt s + nat (max 1 (ko_MaxRetries (kv_options kv) + 1))"
proof -
  let ?c = "applyTimeout kv ctx" and ?cnt = "\<lambda>sc :: _ \<times> revision. cnt (fst sc)"
  let ?run = "retry_Do (with_capture (env ?c)) (getRetryConfig kv) (kv_attempt kv ?c k updateFn) (s, 0)"
  have loop: "Suc (?cnt (s, 0)) \<le> ?cnt (fst (retry_loop (with_capture (env ?c)) cf (kv_attempt kv ?c k updateFn) n 1 d (s, 0))) \<and>
      ?cnt (fst (retry_loop (with_capture (env ?c)) cf (kv_attempt kv ?c k updateFn) n 1 d (s, 0))) \<le> ?cnt (s, 0) + Suc n" for n d
  proof (rule retry_loop_calls[where cnt = ?cnt])
    show "?cnt (fst (kv_attempt kv ?c k updateFn sc)) = Suc (?cnt sc)" for sc
      by (rule attempt_cnt) (fact assms)+
    show "?cnt (fst (re_jitter (with_capture (env ?c)) d sc)) = ?cnt sc" for d sc
      using jit[of ?c d "fst sc"] by (cases sc) (auto simp: with_capture_def split: prod.splits)
    show "?cnt (fst (re_sleep (with_capture (env ?c)) d sc)) = ?cnt sc" for d sc
      using slp[of ?c d "fst sc"] by (cases sc) (auto simp: with_capture_def split: prod.splits)
  qed
  have n: "Suc (nat (rc_MaxAttempts cf - 1)) \<le> nat (max 1 (ko_MaxRetries (kv_options kv) + 1))"
    using retry_normalize_attempts[OF norm] by (auto simp: getRetryConfig_def int64_succ_def max_def)
  have "fst (UpdateWithRetryRev env kv ctx k updateFn s) = fst (fst ?run)"
    by (simp add: UpdateWithRetryRev_def Let_def split: prod.splits go_res.splits)
  then show ?thesis
    using loop[of "nat (rc_MaxAttempts cf - 1)" "rc_InitialDelay cf"] n by (simp add: retry_Do_def norm)
qed

text \<open>C16. The read-modify-write always ends: whatever the bucket, the other clients, the update function and
  the context do, the call returns after at least one and at most \<open>max 1 (MaxRetries + 1)\<close> reads of the
  bucket, and each read is followed by at most one update function call and one write.\<close>

theorem kv_update_terminates:
  assumes "\<And>c k s. cnt (fst (js_Get (kv_bucket kv) c k s)) = Suc (cnt s)"
    and "\<And>v s. cnt (fst (updateFn v s)) = cnt s"
    and "\<And>c k v s. cnt (fst (js_Create (kv_bucket kv) c k v s)) = cnt s"
    and "\<And>c k v r s. cnt (fst (js_Update (kv_bucket kv) c k v r s)) = cnt s"
    and "\<And>c d s. cnt (fst (re_jitter (env c) d s)) = cnt s"
    and "\<And>c d s. cnt (fst (re_sleep (env c) d s)) = cnt s"
    and "0 \<le> ko_RetryDelay (kv_options kv)" "ko_RetryDelay (kv_options kv) \<le> ko_MaxRetryDelay (kv_options kv)"
    and "0 < ko_RetryDelay (kv_options kv)"
  shows "cnt s + 1 \<le> cnt (fst (UpdateWithRetryRev env kv ctx k updateFn s)) \<and>
    cnt (fst (UpdateWithRetryRev env kv ctx k updateFn s)) \<le> cnt s + nat (max 1 (ko_MaxRetries (kv_options kv) + 1))"
proof -
  have "\<exists>cf. retry_normalize (getRetryConfig kv) = Inr cf"
    using assms(7-9) by (auto simp: retry_normalize_def getRetryConfig_def Let_def)
  then obtain cf where "retry_normalize (getRetryConfig kv) = Inr cf" ..
  show ?thesis by (rule kv_update_reads) (fact assms \<open>retry_normalize (getRetryConfig kv) = Inr cf\<close>)+
qed

subsection \<open>Definite acknowledgements\<close>

text \<open>When a failed write never takes effect, \<open>own\<close> counts the caller's writes in the sequence.\<close>

locale definite_bucket = cas_bucket B ok wlog for B :: "'s js_bucket" and ok wlog +
  fixes own :: "'s \<Rightarrow> nat"
  assumes own_get: "ok s \<Longrightarrow> own (fst (js_Get B ctx k s)) = own s"
    and own_create: "ok s \<Longrightarrow> js_Create B ctx k v s = (s', r) \<Longrightarrow> own s' = own s + (case r of Inr _ \<Rightarrow> 1 | Inl _ \<Rightarrow> 0)"
    and own_update: "ok s \<Longrightarrow> js_Update B ctx k v r0 s = (s', r) \<Longrightarrow> own s' = own s + (case r of Inr _ \<Rightarrow> 1 | Inl _ \<Rightarrow> 0)"
begin

lemma write_attempt_own:
  assumes "kv_bucket kv = B" "steady_update ok wlog updateFn" "\<And>v s. ok s \<Longrightarrow> own (fst (updateFn v s)) = own s"
    and "kv_write_attempt kv ctx k updateFn v r0 s = (s', r)" "ok s"
  shows "own s' = own s + (case r of Inr _ \<Rightarrow> 1 | Inl _ \<Rightarrow> 0)"
proof -
  obtain s1 u where u: "updateFn v s = (s1, u)" by fastforce
  have o1: "own s1 = own s" "ok s1"
    using assms(3)[OF assms(5), of v] u steady_updateD[OF assms(2) u] assms(5) by (auto simp: steady_def)
  show ?thesis
  proof (cases u)
    case (Inl e)
    with assms(4) u o1 show ?thesis by (auto simp: kv_write_attempt_def)
  next
    case (Inr w)
    obtain sc c where c: "js_Create B ctx k w s1 = (sc, c)" by fastforce
    obtain su d where d: "js_Update B (applyTimeout kv ctx) k w r0 s1 = (su, d)" by fastforce
    show ?thesis
      using assms(1,4) o1 own_create[OF o1(2) c] own_update[OF o1(2) d]
      by (auto simp: kv_write_attempt_def kv_Update_def u Inr c d split: if_splits sum.splits)
  qed
qed

lemma attempt_own:
  assumes "kv_bucket kv = B" "steady_update ok wlog updateFn" "\<And>v s. ok s \<Longrightarrow> own (fst (updateFn v s)) = own s"
    and "kv_attempt kv ctx k updateFn (s, c) = ((s', c'), e)" "ok s"
  shows "own s' = own s + (if e = None then 1 else 0)"
proof -
  obtain s1 g where g: "kv_Get kv ctx k s = (s1, g)" by fastforce
  have "s1 = fst (js_Get B (applyTimeout kv ctx) k s)"
    using g assms(1) by (auto simp: kv_Get_def split: prod.splits sum.splits)
  then have o1: "own s1 = own s" "ok s1"
    using own_get[OF assms(5)] kv_Get_steady[OF assms(1) g] assms(5) by (auto simp: steady_def)
  have wa: "own s2 = own s1 + (case w of Inr _ \<Rightarrow> 1 | Inl _ \<Rightarrow> 0)"
    if "kv_write_attempt kv ctx k updateFn v r0 s1 = (s2, w)" for v r0 s2 w
    using assms(1,2,3) that o1(2) by (rule write_attempt_own)
  show ?thesis
  proof (cases g)
    case (Inl err)
    obtain s2 w where w: "kv_write_attempt kv ctx k updateFn [] 0 s1 = (s2, w)" by fastforce
    show ?thesis
      using assms(4) o1 wa[OF w] by (auto simp: kv_attempt_def g Inl w split: if_splits sum.splits)
  next
    case (Inr en)
    obtain s2 w where w: "kv_write_attempt kv ctx k updateFn (ke_Value en) (ke_Revision en) s1 = (s2, w)" by fastforce
    show ?thesis
      using assms(4) o1 wa[OF w] by (auto simp: kv_attempt_def g Inr w split: sum.splits)
  qed
qed

lemma UpdateWithRetryRev_own:
  assumes kv: "kv_bucket kv = B" and fn: "steady_update ok wlog updateFn" and env: "steady_env ok wlog env"
    and fo: "\<And>v s. ok s \<Longrightarrow> own (fst (updateFn v s)) = own s"
    and eo: "\<And>c d s. ok s \<Longrightarrow> own (fst (re_jitter (env c) d s)) = own s \<and> own (fst (re_sleep (env c) d s)) = own s"
    and "ok s"
  shows "own (fst (UpdateWithRetryRev env kv ctx k updateFn s)) =
    own s + (case snd (UpdateWithRetryRev env kv ctx k updateFn s) of Ok _ \<Rightarrow> 1 | _ \<Rightarrow> 0)"
proof -
  let ?c = "applyTimeout kv ctx" and ?I = "\<lambda>sc. ok (fst sc) \<and> own (fst sc) = own s"
  obtain s' c' r where run: "retry_Do (with_capture (env ?c)) (getRetryConfig kv) (kv_attempt kv ?c k updateFn) (s, 0) = ((s', c'), r)"
    by (metis prod.exhaust)
  have at: "ok s2 \<and> own s2 = own s1 + (if e = None then 1 else 0)"
    if "kv_attempt kv ?c k updateFn (s1, c1) = ((s2, c2), e)" "ok s1" for s1 c1 s2 c2 e
    using attempt_steady[OF kv fn that(1)] that(2) attempt_own[OF kv fn fo that] by (simp add: steady_def)
  have "case r of Ok _ \<Rightarrow> \<exists>s0. ?I s0 \<and> kv_attempt kv ?c k updateFn s0 = ((s', c'), None) | _ \<Rightarrow> ?I (s', c')"
  proof (rule retry_Do_rule[where I = ?I, OF _ _ _ _ run])
    show "?I (s, 0)" using \<open>ok s\<close> by simp
  next
    fix s1 s2 err assume "?I s1" "kv_attempt kv ?c k updateFn s1 = (s2, Some err)"
    then show "?I s2" using at[of "fst s1" "snd s1" "fst s2" "snd s2"] by simp
  next
    fix s1 s2 d j assume "?I s1" "re_jitter (with_capture (env ?c)) d s1 = (s2, j)"
    then show "?I s2" using eo[of "fst s1" ?c d] env
      by (auto simp: with_capture_def steady_env_def steady_def split: prod.splits) (metis fst_conv)+
  next
    fix s1 s2 d e assume "?I s1" "re_sleep (with_capture (env ?c)) d s1 = (s2, e)"
    then show "?I s2" using eo[of "fst s1" ?c d] env
      by (auto simp: with_capture_def steady_env_def steady_def split: prod.splits) (metis fst_conv)+
  qed
  then have "own s' = own s + (case r of Ok _ \<Rightarrow> 1 | _ \<Rightarrow> 0)"
    using at[of _ _ s' c' None] by (cases r) auto
  then show ?thesis using run by (cases r) (auto simp: UpdateWithRetryRev_def)
qed

end

text \<open>C15. With definite acknowledgements (a write that reports an error did not take effect) the caller's
  write is applied exactly once when a revision is returned and not at all when the call fails or
  panics, whatever conflicts and lost reads happened on the way.\<close>

theorem kv_update_exactly_once:
  assumes "definite_bucket B ok wlog own" "kv_bucket kv = B"
    and "steady_update ok wlog updateFn" "steady_env ok wlog env"
    and "\<And>v s. ok s \<Longrightarrow> own (fst (updateFn v s)) = own s"
    and "\<And>c d s. ok s \<Longrightarrow> own (fst (re_jitter (env c) d s)) = own s \<and> own (fst (re_sleep (env c) d s)) = own s"
    and "ok s"
  shows "own (fst (UpdateWithRetryRev env kv ctx k updateFn s)) =
    own s + (case snd (UpdateWithRetryRev env kv ctx k updateFn s) of Ok _ \<Rightarrow> 1 | _ \<Rightarrow> 0)"
  using assms by (rule definite_bucket.UpdateWithRetryRev_own)

subsection \<open>A bucket in memory, with other clients and faults\<close>

text \<open>The sequence of writes is kept in memory.  A script says what happens at every operation: the writes
  of other clients that come first, and whether the request or the acknowledgement is lost.\<close>

datatype net_fault = Delivered | RequestLost | AckLost

record mem_world =
  mw_log :: "kv_commit list"
  mw_script :: "((string \<times> bytes option) list \<times> net_fault) list"
  mw_own :: nat

definition mem_last :: "kv_commit list \<Rightarrow> revision" where
  "mem_last l = (if l = [] then 0 else kc_rev (last l))"

definition mem_append :: "string \<Rightarrow> bytes option \<Rightarrow> kv_commit list \<Rightarrow> kv_commit list option" where
  "mem_append k v l =
     (if mem_last l + 1 = 0 then None
      else Some (l @ [\<lparr>kc_rev = mem_last l + 1, kc_key = k, kc_val = v\<rparr>]))"

fun mem_foreign :: "(string \<times> bytes option) list \<Rightarrow> kv_commit list \<Rightarrow> kv_commit list" where
  "mem_foreign [] l = l"
| "mem_foreign ((k, v) # ws) l = mem_foreign ws (case mem_append k v l of None \<Rightarrow> l | Some l' \<Rightarrow> l')"

definition mem_turn :: "mem_world \<Rightarrow> mem_world \<times> net_fault" where
  "mem_turn s = (case mw_script s of
     [] \<Rightarrow> (s, Delivered)
   | (ws, f) # rest \<Rightarrow> (s\<lparr>mw_log := mem_foreign ws (mw_log s), mw_script := rest\<rparr>, f))"

definition mem_timeout :: go_error where
  "mem_timeout = Sentinel ''nats: timeout''"

definition mem_conflict :: go_error where
  "mem_conflict = ErrText ''nats: wrong last sequence''"

definition mem_Get :: "go_ctx \<Rightarrow> string \<Rightarrow> mem_world \<Rightarrow> mem_world \<times> (go_error + bytes \<times> revision)" where
  "mem_Get ctx k s =
     (let (s, f) = mem_turn s in
      if f \<noteq> Delivered then (s, Inl mem_timeout)
      else case last_commit k (mw_log s) of
        Some c \<Rightarrow> (case kc_val c of Some v \<Rightarrow> (s, Inr (v, kc_rev c)) | None \<Rightarrow> (s, Inl (Sentinel ''nats: key not found'')))
      | None \<Rightarrow> (s, Inl (Sentinel ''nats: key not found'')))"

definition mem_write ::
  "(kv_commit list \<Rightarrow> bool) \<Rightarrow> string \<Rightarrow> bytes option \<Rightarrow> mem_world \<Rightarrow> mem_world \<times> (go_error + revision)" where
  "mem_write P k v s =
     (let (s, f) = mem_turn s in
      if f = RequestLost then (s, Inl mem_timeout)
      else if \<not> P (mw_log s) then (s, Inl mem_conflict)
      else case mem_append k v (mw_log s) of
        None \<Rightarrow> (s, Inl (ErrText ''nats: maximum messages exceeded''))
      | Some l \<Rightarrow>
          (s\<lparr>mw_log := l, mw_own := Suc (mw_own s)\<rparr>, if f = AckLost then Inl mem_timeout else Inr (mem_last l)))"

definition mem_bucket :: "mem_world js_bucket" where
  "mem_bucket =
     \<lparr>js_ErrKeyNotFound = Sentinel ''nats: key not found'', js_ErrKeyDeleted = Sentinel ''nats: key was deleted'',
      js_ErrNoKeysFound = Sentinel ''nats: no keys found'',
      js_Get = mem_Get,
      js_Put = (\<lambda>ctx k v. mem_write (\<lambda>_. True) k (Some v)),
      js_Create = (\<lambda>ctx k v. mem_write (\<lambda>l. live_value k l = None) k (Some v)),
      js_Update = (\<lambda>ctx k v r0. mem_write (\<lambda>l. last_revision k l = r0) k (Some v)),
      js_Delete = (\<lambda>ctx k r1 s.
        let (s, r) = mem_write (\<lambda>l. case r1 of None \<Rightarrow> True | Some r0 \<Rightarrow> last_revision k l = r0) k None s
        in (s, case r of Inl e \<Rightarrow> Some e | Inr _ \<Rightarrow> None)),
      js_Keys = (\<lambda>ctx s. (s, Inr (remdups (map kc_key (filter (\<lambda>c. live_value (kc_key c) (mw_log s) \<noteq> None) (mw_log s)))))),
      js_Status = (\<lambda>ctx s. (s, Inr (Some (Some \<lparr>si_LastSeq = mem_last (mw_log s), si_MaxAge = 0, si_MaxBytes = -1\<rparr>))))\<rparr>"

definition mem_ok :: "mem_world \<Rightarrow> bool" where
  "mem_ok s \<longleftrightarrow> log_ok (mw_log s)"

definition mem_definite :: "mem_world \<Rightarrow> bool" where
  "mem_definite s \<longleftrightarrow> log_ok (mw_log s) \<and> list_all (\<lambda>w. snd w \<noteq> AckLost) (mw_script s)"

lemma succ_greater: "(r :: revision) + 1 \<noteq> 0 \<Longrightarrow> r < r + 1"
  using unatSuc[of r] by (simp add: word_less_nat_alt add.commute)

lemma mem_last_max: "log_ok l \<Longrightarrow> c \<in> set l \<Longrightarrow> kc_rev c \<le> mem_last l"
  by (induction l rule: rev_induct) (auto simp: mem_last_def log_ok_def sorted_wrt_append)

lemma mem_append_ok:
  assumes "mem_append k v l = Some l'" "log_ok l"
  shows "l' = l @ [\<lparr>kc_rev = mem_last l', kc_key = k, kc_val = v\<rparr>] \<and> log_ok l' \<and> prefix l l'"
proof -
  have n: "mem_last l + 1 \<noteq> 0" and l': "l' = l @ [\<lparr>kc_rev = mem_last l + 1, kc_key = k, kc_val = v\<rparr>]"
    using assms(1) by (auto simp: mem_append_def split: if_splits)
  have "mem_last l < mem_last l + 1" using succ_greater[OF n] .
  then have "\<forall>c\<in>set l. kc_rev c < mem_last l + 1" "0 < mem_last l + 1"
    using mem_last_max[OF assms(2)] n by (auto intro: le_less_trans simp: word_gt_0)
  then show ?thesis using assms(2) by (auto simp: l' mem_last_def log_ok_def sorted_wrt_append)
qed

lemma mem_foreign_ok: "log_ok l \<Longrightarrow> log_ok (mem_foreign ws l) \<and> prefix l (mem_foreign ws l)"
proof (induction ws l rule: mem_foreign.induct)
  case (2 k v ws l)
  show ?case
  proof (cases "mem_append k v l")
    case None
    then show ?thesis using 2 by simp
  next
    case (Some l')
    note l' = mem_append_ok[OF Some 2(2)]
    then have "log_ok (mem_foreign ws l') \<and> prefix l' (mem_foreign ws l')" using 2(1) Some by simp
    then show ?thesis using l' prefix_order.trans[of l l'] Some by simp
  qed
qed simp

lemma mem_turn_ok:
  assumes "mem_turn s = (s', f)" "log_ok (mw_log s)"
  shows "log_ok (mw_log s')" "prefix (mw_log s) (mw_log s')" "mw_own s' = mw_own s"
    "list_all (\<lambda>w. snd w \<noteq> AckLost) (mw_script s) \<Longrightarrow> f \<noteq> AckLost \<and> list_all (\<lambda>w. snd w \<noteq> AckLost) (mw_script s')"
  using assms mem_foreign_ok[OF assms(2)] by (auto simp: mem_turn_def split: list.splits)

lemma mem_write_ok:
  assumes "mem_write P k v s = (s', r)" "log_ok (mw_log s)"
  shows "log_ok (mw_log s')" "prefix (mw_log s) (mw_log s')"
    "\<And>rvn. r = Inr rvn \<Longrightarrow> committed (mw_log s) (mw_log s') k rvn v P"
    "list_all (\<lambda>w. snd w \<noteq> AckLost) (mw_script s) \<Longrightarrow>
       mw_own s' = mw_own s + (case r of Inr _ \<Rightarrow> 1 | Inl _ \<Rightarrow> 0) \<and> list_all (\<lambda>w. snd w \<noteq> AckLost) (mw_script s')"
proof -
  obtain s1 f where t: "mem_turn s = (s1, f)" by fastforce
  note t' = mem_turn_ok[OF t assms(2)]
  show "log_ok (mw_log s')" "prefix (mw_log s) (mw_log s')"
    using assms(1) t'(1,2) mem_append_ok[OF _ t'(1)] prefix_order.trans[OF t'(2)]
    by (auto simp: mem_write_def t split: if_splits option.splits)
  show "committed (mw_log s) (mw_log s') k rvn v P" if "r = Inr rvn" for rvn
    using assms(1) that t'(2) mem_append_ok[OF _ t'(1)]
    by (fastforce simp: mem_write_def t committed_def split: if_splits option.splits)
  show "mw_own s' = mw_own s + (case r of Inr _ \<Rightarrow> 1 | Inl _ \<Rightarrow> 0) \<and> list_all (\<lambda>w. snd w \<noteq> AckLost) (mw_script s')"
    if "list_all (\<lambda>w. snd w \<noteq> AckLost) (mw_script s)"
    using assms(1) t'(3) t'(4)[OF that] by (auto simp: mem_write_def t split: if_splits option.splits)
qed

lemma mem_get_ok:
  assumes "mem_Get ctx k s = (s', r)" "log_ok (mw_log s)"
  shows "log_ok (mw_log s')" "prefix (mw_log s) (mw_log s')" "mw_own s' = mw_own s"
    "list_all (\<lambda>w. snd w \<noteq> AckLost) (mw_script s) \<Longrightarrow> list_all (\<lambda>w. snd w \<noteq> AckLost) (mw_script s')"
    "\<And>v rvn. r = Inr (v, rvn) \<Longrightarrow> \<lparr>kc_rev = rvn, kc_key = k, kc_val = Some v\<rparr> \<in> set (mw_log s')"
proof -
  obtain s1 f where t: "mem_turn s = (s1, f)" by fastforce
  note t' = mem_turn_ok[OF t assms(2)]
  have s': "s' = s1" using assms(1) by (auto simp: mem_Get_def t split: if_splits option.splits)
  show "log_ok (mw_log s')" "prefix (mw_log s) (mw_log s')" "mw_own s' = mw_own s"
    "list_all (\<lambda>w. snd w \<noteq> AckLost) (mw_script s) \<Longrightarrow> list_all (\<lambda>w. snd w \<noteq> AckLost) (mw_script s')"
    using t' s' by auto
  fix v rvn assume "r = Inr (v, rvn)"
  then obtain c where c: "last_commit k (mw_log s1) = Some c" "kc_val c = Some v" "kc_rev c = rvn"
    using assms(1) by (auto simp: mem_Get_def t split: if_splits option.splits)
  then show "\<lparr>kc_rev = rvn, kc_key = k, kc_val = Some v\<rparr> \<in> set (mw_log s')"
    using last_commit_in[OF c(1)] s' by (cases c) auto
qed

lemmas mem_bucket_sel = mem_bucket_def js_bucket.simps

lemma mem_cas_bucket:
  assumes imp: "\<And>s. ok s \<Longrightarrow> log_ok (mw_log s)"
    and get: "\<And>ctx k s. ok s \<Longrightarrow> ok (fst (mem_Get ctx k s))"
    and wr: "\<And>P k v s. ok s \<Longrightarrow> ok (fst (mem_write P k v s))"
  shows "cas_bucket mem_bucket ok mw_log"
proof
  fix s s' ctx k v r0 and r :: "go_error + revision"
  show "ok s \<Longrightarrow> log_ok (mw_log s)" by (rule imp)
  have g: "steady ok mw_log s (fst (mem_Get ctx k s))"
    using get[of s ctx k] mem_get_ok(2)[OF prod.collapse[symmetric], where ctx = ctx and k = k and s = s] imp[of s] by (simp add: steady_def)
  have w: "steady ok mw_log s (fst (mem_write P k v s))" for P v
    using wr[of s P k v] mem_write_ok(2)[OF prod.collapse[symmetric], where P = P and k = k and v = v and s = s] imp[of s] by (simp add: steady_def)
  show "steady ok mw_log s s'" if "js_Get mem_bucket ctx k s = (s', g)" for g
    using that g by (simp add: mem_bucket_sel)
  show "\<lparr>kc_rev = rvn, kc_key = k, kc_val = Some v\<rparr> \<in> set (mw_log s')"
    if "ok s" "js_Get mem_bucket ctx k s = (s', Inr (v, rvn))" for rvn
    using that mem_get_ok(5)[of ctx k s] imp by (simp add: mem_bucket_sel)
  show "steady ok mw_log s s'" if "js_Create mem_bucket ctx k v s = (s', r)"
    using that w[of "\<lambda>l. live_value k l = None" "Some v"] by (simp add: mem_bucket_sel)
  show "committed (mw_log s) (mw_log s') k rvn (Some v) (\<lambda>pre. live_value k pre = None)"
    if "ok s" "js_Create mem_bucket ctx k v s = (s', Inr rvn)" for rvn
    using that mem_write_ok(3)[of "\<lambda>l. live_value k l = None" k "Some v" s] imp by (simp add: mem_bucket_sel)
  show "steady ok mw_log s s'" if "js_Update mem_bucket ctx k v r0 s = (s', r)"
    using that w[of "\<lambda>l. last_revision k l = r0" "Some v"] by (simp add: mem_bucket_sel)
  show "committed (mw_log s) (mw_log s') k rvn (Some v) (\<lambda>pre. last_revision k pre = r0)"
    if "ok s" "js_Update mem_bucket ctx k v r0 s = (s', Inr rvn)" for rvn
    using that mem_write_ok(3)[of "\<lambda>l. last_revision k l = r0" k "Some v" s] imp by (simp add: mem_bucket_sel)
  show "steady ok mw_log s s'" if "js_Delete mem_bucket ctx k r1 s = (s', e)" for r1 e
    using that w[of "\<lambda>l. case r1 of None \<Rightarrow> True | Some r0 \<Rightarrow> last_revision k l = r0" None]
    by (auto simp: mem_bucket_sel split: prod.splits)
  show "\<exists>rvn. committed (mw_log s) (mw_log s') k rvn None (\<lambda>pre. last_revision k pre = r0)"
    if "ok s" "js_Delete mem_bucket ctx k (Some r0) s = (s', None)"
    using that mem_write_ok(3)[of "\<lambda>l. last_revision k l = r0" k None s] imp
    by (auto simp: mem_bucket_sel split: prod.splits sum.splits)
qed

interpretation mem: cas_bucket mem_bucket mem_ok mw_log
  by (rule mem_cas_bucket; unfold mem_ok_def)
    (simp, rule mem_get_ok(1)[OF prod.collapse[symmetric]], assumption,
     rule mem_write_ok(1)[OF prod.collapse[symmetric]], assumption)

interpretation mem_def: definite_bucket mem_bucket mem_definite mw_log mw_own
proof (intro definite_bucket.intro mem_cas_bucket definite_bucket_axioms.intro)
  fix s s' ctx k v r0 P and u :: "bytes option" and r :: "go_error + revision"
  show "mem_definite s \<Longrightarrow> log_ok (mw_log s)" by (simp add: mem_definite_def)
  show "mem_definite (fst (mem_Get ctx k s))" if "mem_definite s"
    using that mem_get_ok(1,4)[OF prod.collapse[symmetric], where ctx = ctx and k = k and s = s] by (simp add: mem_definite_def)
  show "mem_definite (fst (mem_write P k u s))" if "mem_definite s"
    using that mem_write_ok(1,4)[OF prod.collapse[symmetric], where P = P and k = k and v = u and s = s] by (simp add: mem_definite_def)
  show "mw_own (fst (js_Get mem_bucket ctx k s)) = mw_own s" if "mem_definite s"
    using that mem_get_ok(3)[OF prod.collapse[symmetric], where ctx = ctx and k = k and s = s] by (simp add: mem_definite_def mem_bucket_sel)
  show "mw_own s' = mw_own s + (case r of Inr _ \<Rightarrow> 1 | Inl _ \<Rightarrow> 0)"
    if "mem_definite s" "js_Create mem_bucket ctx k v s = (s', r)"
    using that mem_write_ok(4)[of "\<lambda>l. live_value k l = None" k "Some v" s s' r]
    by (simp add: mem_bucket_sel mem_definite_def)
  show "mw_own s' = mw_own s + (case r of Inr _ \<Rightarrow> 1 | Inl _ \<Rightarrow> 0)"
    if "mem_definite s" "js_Update mem_bucket ctx k v r0 s = (s', r)"
    using that mem_write_ok(4)[of "\<lambda>l. last_revision k l = r0" k "Some v" s s' r]
    by (simp add: mem_bucket_sel mem_definite_def)
qed

subsection \<open>Runs\<close>

definition wit_kv :: "mem_world kv_store" where
  "wit_kv = \<lparr>kv_bucket = mem_bucket,
     kv_options = DefaultKVOptions\<lparr>ko_RetryDelay := 100, ko_MaxRetryDelay := 1000, ko_UseExponentialBackoff := False\<rparr>\<rparr>"

definition wit_env :: "go_ctx \<Rightarrow> mem_world retry_env" where
  "wit_env c = \<lparr>re_ctx_err = (\<lambda>_. None), re_jitter = (\<lambda>d s. (s, 0)), re_sleep = (\<lambda>d s. (s, None))\<rparr>"

definition wit_append :: "mem_world update_fn" where
  "wit_append v s = (s, Inr (v @ ''!''))"

text \<open>Another client creates the key between the read and the write.\<close>

definition wit_world :: mem_world where
  "wit_world = \<lparr>mw_log = [], mw_script = [([], Delivered), ([(''k'', Some ''x'')], Delivered)], mw_own = 0\<rparr>"

definition wit_world1 :: mem_world where
  "wit_world1 = \<lparr>mw_log = [\<lparr>kc_rev = 1, kc_key = ''k'', kc_val = Some ''x''\<rparr>], mw_script = [], mw_own = 0\<rparr>"

definition wit_world2 :: mem_world where
  "wit_world2 = \<lparr>mw_log = [\<lparr>kc_rev = 1, kc_key = ''k'', kc_val = Some ''x''\<rparr>,
     \<lparr>kc_rev = 2, kc_key = ''k'', kc_val = Some ''x!''\<rparr>], mw_script = [], mw_own = 1\<rparr>"

lemma wit_attempts:
  "kv_attempt wit_kv (WithTimeout (Ctx 0) 5000000000) ''k'' wit_append (wit_world, 0) = ((wit_world1, 0), Some mem_conflict)"
  "kv_attempt wit_kv (WithTimeout (Ctx 0) 5000000000) ''k'' wit_append (wit_world1, 0) = ((wit_world2, 2), None)"
  "IsNonRetryable mem_conflict = False"
  by code_simp+

lemma wit_config: "retry_normalize (getRetryConfig wit_kv) = Inr (getRetryConfig wit_kv)"
  by code_simp

lemma wit_run: "UpdateWithRetryRev wit_env wit_kv (Ctx 0) ''k'' wit_append wit_world = (wit_world2, Ok 2)"
proof -
  have c: "applyTimeout wit_kv (Ctx 0) = WithTimeout (Ctx 0) 5000000000" by code_simp
  have b: "retry_backoff (with_capture (wit_env (WithTimeout (Ctx 0) 5000000000))) (getRetryConfig wit_kv)
      (rc_InitialDelay (getRetryConfig wit_kv)) (wit_world1, 0) = ((wit_world1, 0), Ok None)"
    by (simp add: retry_backoff_def with_capture_def wit_env_def getRetryConfig_def wit_kv_def DefaultKVOptions_def)
  have n: "nat (rc_MaxAttempts (getRetryConfig wit_kv) - 1) = Suc 9"
    by (simp add: int64_succ_def getRetryConfig_def wit_kv_def DefaultKVOptions_def)
  have e: "re_ctx_err (with_capture (wit_env c)) s = None" for c s
    by (simp add: with_capture_def wit_env_def split: prod.splits)
  show ?thesis
    by (simp add: UpdateWithRetryRev_def c retry_Do_def wit_config n,
        subst retry_loop.simps, simp add: wit_attempts b e, subst retry_loop.simps, simp add: wit_attempts)
qed

lemma wit_steady: "steady_update ok wl wit_append" "steady_env ok wl wit_env"
  by (simp_all add: steady_update_def steady_env_def wit_append_def wit_env_def)

theorem kv_update_atomic_witness:
  "\<exists>pre w post. mw_log wit_world2 = pre @ \<lparr>kc_rev = 2, kc_key = ''k'', kc_val = Some w\<rparr> # post \<and> prefix (mw_log wit_world) pre \<and>
     (\<exists>s1 s2. wit_append (case live_value ''k'' pre of None \<Rightarrow> [] | Some v \<Rightarrow> v) s1 = (s2, Inr w))"
proof -
  have "kv_bucket wit_kv = mem_bucket" "mem_ok wit_world"
    by (simp_all add: wit_kv_def mem_ok_def wit_world_def log_ok_def)
  from kv_update_atomic[OF mem.cas_bucket_axioms this(1) wit_steady wit_run this(2)] show ?thesis .
qed

theorem kv_update_exactly_once_witness:
  "mw_own (fst (UpdateWithRetryRev wit_env wit_kv (Ctx 0) ''k'' wit_append wit_world)) = 1"
proof -
  have "kv_bucket wit_kv = mem_bucket" "mem_definite wit_world"
    by (simp_all add: wit_kv_def mem_definite_def wit_world_def log_ok_def)
  from kv_update_exactly_once[OF mem_def.definite_bucket_axioms this(1) wit_steady _ _ this(2), of "Ctx 0" "''k''"]
  show ?thesis by (simp add: wit_run wit_append_def wit_env_def) (simp add: wit_world_def)
qed

text \<open>A bucket that only counts its reads and fails every write.\<close>

definition busy_bucket :: "nat js_bucket" where
  "busy_bucket =
     \<lparr>js_ErrKeyNotFound = Sentinel ''nats: key not found'', js_ErrKeyDeleted = Sentinel ''nats: key was deleted'',
      js_ErrNoKeysFound = Sentinel ''nats: no keys found'',
      js_Get = (\<lambda>c k n. (Suc n, Inr (''v'', 1))), js_Put = (\<lambda>c k v n. (n, Inl mem_timeout)),
      js_Create = (\<lambda>c k v n. (n, Inl mem_conflict)), js_Update = (\<lambda>c k v r n. (n, Inl mem_conflict)),
      js_Delete = (\<lambda>c k r n. (n, Some mem_conflict)), js_Keys = (\<lambda>c n. (n, Inr [])), js_Status = (\<lambda>c n. (n, Inr None))\<rparr>"

theorem kv_update_terminates_witness:
  "fst (UpdateWithRetryRev (\<lambda>c. wit_retry_env) \<lparr>kv_bucket = busy_bucket, kv_options = DefaultKVOptions\<rparr> (Ctx 0) ''k''
     (\<lambda>v n. (n, Inr v)) 0) \<le> 11"
  using kv_update_terminates[of "\<lambda>n. n" "\<lparr>kv_bucket = busy_bucket, kv_options = DefaultKVOptions\<rparr>" "\<lambda>v n. (n, Inr v)"
      "\<lambda>c. wit_retry_env" 0 "Ctx 0" "''k''"]
  by (simp add: busy_bucket_def DefaultKVOptions_def wit_retry_env_def)

text \<open>Without definite acknowledgements the error does not mean that nothing was committed: the write below
  took effect and the call fails.\<close>

definition ack_lost_world :: mem_world where
  "ack_lost_world = \<lparr>mw_log = [], mw_script = [([], Delivered), ([], AckLost)], mw_own = 0\<rparr>"

lemma update_error_after_commit:
  "\<exists>s e. kv_attempt wit_kv (WithTimeout (Ctx 0) 5000000000) ''k'' wit_append (ack_lost_world, 0) = ((s, 0), Some e) \<and>
     live_value ''k'' (mw_log s) = Some ''!''"
  by (intro exI conjI) (code_simp, code_simp)

text \<open>Substring tests on error texts that contain the key: an unrelated failure of a key with the digits of
  an error code is taken for a conflict or for an absent key.\<close>

lemma conflict_by_key_text:
  "IsKVConflictError (ErrWrap (''kv update unit-10071.a: '') mem_timeout []) \<and>
   IsKVNotFoundError mem_bucket (ErrWrap (''kv get unit-10037.a: '') mem_timeout [])"
  by code_simp

end
