(* ===== verification/Entity_State.thy ===== *)
theory Entity_State
  imports Triples Predicate_Contract Go_Errors Kv_Store
begin

text \<open>
  The authoritative state of an entity (\<open>graph/types.go\<close>) and its contract
  (\<open>graph/entity_predicate_contract.go\<close>, \<open>graph/state_contract.go\<close>): one validator for identity,
  subjects, references and predicates, a write gate that refuses an invalid state, and a read gate
  that classifies an unreadable or invalid stored value as fatal.  The encoding of the struct by
  \<open>encoding/json\<close> is the parameter \<open>entity_codec\<close>; the locale \<open>entity_json\<close> says what is used of it.
  The lemmas show that the two gates agree: what one writes the other reads back unchanged.
\<close>

record StorageReference =
  sr_StorageInstance :: string
  sr_Key :: string
  sr_ContentType :: string
  sr_Size :: int

record EntityState =
  es_ID :: string
  es_Triples :: "Triple list"
  es_StorageRef :: "StorageReference option"
  es_MessageType :: MsgType
  es_Version :: "64 word"
  es_UpdatedAt :: time

definition GetTriple :: "EntityState \<Rightarrow> string \<Rightarrow> Triple option" where
  "GetTriple es predicate = find (\<lambda>t. tr_Predicate t = predicate) (es_Triples es)"

definition GetPropertyValue :: "EntityState \<Rightarrow> string \<Rightarrow> gval option" where
  "GetPropertyValue es predicate = map_option tr_Object (GetTriple es predicate)"

definition IsValidPredicate :: "string \<Rightarrow> bool" where
  "IsValidPredicate predicate = (case parse_predicate_cold predicate of Inl _ \<Rightarrow> False | Inr _ \<Rightarrow> True)"

subsection \<open>The contract\<close>

text \<open>The violations of all triples, without repetition, ordered by predicate and reason.\<close>

definition predicate_violations :: "Triple list \<Rightarrow> (string \<times> string) list" where
  "predicate_violations ts =
     concat (map (\<lambda>t. case parse_predicate_cold (tr_Predicate t) of
        Inl err \<Rightarrow> [(tr_Predicate t, reason_string (pve_Reason err))] | Inr _ \<Rightarrow> []) ts)"

definition ValidateEntityPredicates :: "EntityState option \<Rightarrow> go_error option" where
  "ValidateEntityPredicates entity =
     (case entity of
        None \<Rightarrow> None
      | Some es \<Rightarrow>
          let unique = remdups (predicate_violations (es_Triples es)) in
          if unique = [] then None else Some (ErrPredicates (sort unique)))"

definition errEntityReferenceObjectType :: go_error where
  "errEntityReferenceObjectType = Sentinel ''explicit entity reference object must be a string''"

definition ErrInvalidData :: go_error where
  "ErrInvalidData = Sentinel ''invalid data format''"

fun subjectLoop :: "string \<Rightarrow> int \<Rightarrow> Triple list \<Rightarrow> go_error option" where
  "subjectLoop rootID index [] = None"
| "subjectLoop rootID index (t # ts) =
     (if tr_Subject t = rootID then subjectLoop rootID (index + 1) ts
      else case ValidateEntityID (tr_Subject t) of
        Some err \<Rightarrow> Some (ErrEntityField ''subject'' index (entity_id_error err))
      | None \<Rightarrow> subjectLoop rootID (index + 1) ts)"

fun referenceLoop :: "int \<Rightarrow> Triple list \<Rightarrow> go_error option" where
  "referenceLoop index [] = None"
| "referenceLoop index (t # ts) =
     (if tr_Datatype t \<noteq> EntityReferenceDatatype then referenceLoop (index + 1) ts
      else case tr_Object t of
        GString object \<Rightarrow>
          (case ValidateEntityID object of
             Some err \<Rightarrow> Some (ErrEntityField ''reference'' index (entity_id_error err))
           | None \<Rightarrow> referenceLoop (index + 1) ts)
      | _ \<Rightarrow> Some (ErrEntityField ''reference'' index errEntityReferenceObjectType))"

definition ValidateEntityStateContract :: "EntityState option \<Rightarrow> go_error option" where
  "ValidateEntityStateContract entity =
     (case entity of
        None \<Rightarrow> Some (ErrEntityField ''id'' (-1) ErrInvalidData)
      | Some es \<Rightarrow>
          (case ValidateEntityID (es_ID es) of
             Some err \<Rightarrow> Some (ErrEntityField ''id'' (-1) (entity_id_error err))
           | None \<Rightarrow>
               (case subjectLoop (es_ID es) 0 (es_Triples es) of
                  Some err \<Rightarrow> Some err
                | None \<Rightarrow>
                    (case referenceLoop 0 (es_Triples es) of
                       Some err \<Rightarrow> Some err
                     | None \<Rightarrow> ValidateEntityPredicates (Some es)))))"

subsection \<open>Classification of stored-state errors\<close>

fun as_state_contract :: "go_error \<Rightarrow> (StateResetReason \<times> string \<times> go_error option) option" where
  "as_state_contract (ErrStateContract r i c) = Some (r, i, c)"
| "as_state_contract _ = None"

definition errors_as_state :: "go_error \<Rightarrow> (StateResetReason \<times> string \<times> go_error option) option" where
  "errors_as_state err = first_some as_state_contract (chain err)"

fun is_predicates_error :: "go_error \<Rightarrow> bool" where
  "is_predicates_error (ErrPredicates vs) = True"
| "is_predicates_error _ = False"

definition ErrorCodeGraphStateResetRequired :: string where
  "ErrorCodeGraphStateResetRequired = ''graph_state_reset_required''"

definition IsStateContractError :: "go_error option \<Rightarrow> bool" where
  "IsStateContractError oerr =
     (case oerr of
        None \<Rightarrow> False
      | Some err \<Rightarrow>
          if errors_as_state err \<noteq> None then True
          else case errors_as_classified err of
            Some (ce, _) \<Rightarrow> em_Code ce = ErrorCodeGraphStateResetRequired
          | None \<Rightarrow> False)"

definition ClassifyStateContractError :: "go_error \<Rightarrow> go_error" where
  "ClassifyStateContractError err =
     (if \<not> IsStateContractError (Some err) then err
      else case errors_as_classified err of
        Some (ce, _) \<Rightarrow>
          if em_Class ce = ErrorFatal \<and> em_Code ce = ErrorCodeGraphStateResetRequired then err
          else ClassifiedCode ErrorFatal ErrorCodeGraphStateResetRequired err
      | None \<Rightarrow> ClassifiedCode ErrorFatal ErrorCodeGraphStateResetRequired err)"

definition classifyDecodedEntityStateError :: "go_error \<Rightarrow> go_error" where
  "classifyDecodedEntityStateError err =
     (let reason = (if list_ex is_predicates_error (chain err) then GraphStateReasonNoncanonicalPredicate
                    else GraphStateReasonNoncanonicalEntityID)
      in ClassifyStateContractError (the (WrapFatal (Some (ErrStateContract reason [] (Some err)))
           ''graph'' ''ValidateDecodedEntityState'' ''validate authoritative entity state'')))"

definition ValidateDecodedEntityState :: "EntityState option \<Rightarrow> go_error option" where
  "ValidateDecodedEntityState entity = map_option classifyDecodedEntityStateError (ValidateEntityStateContract entity)"

fun decodedStatesLoop :: "string \<Rightarrow> nat \<Rightarrow> EntityState option list \<Rightarrow> go_error option" where
  "decodedStatesLoop what index [] = None"
| "decodedStatesLoop what index (es # rest) =
     (case ValidateDecodedEntityState es of
        Some err \<Rightarrow> Some (ErrWrap (what @ ''['' @ itoa index @ '']: '') err [])
      | None \<Rightarrow> decodedStatesLoop what (Suc index) rest)"

definition ValidateDecodedEntityStates :: "EntityState list \<Rightarrow> go_error option" where
  "ValidateDecodedEntityStates entities = decodedStatesLoop ''entity'' 0 (map Some entities)"

definition ValidateDecodedEntityStatePointers :: "EntityState option list \<Rightarrow> go_error option" where
  "ValidateDecodedEntityStatePointers entities = decodedStatesLoop ''entity'' 0 entities"

definition zero_entity :: "string \<Rightarrow> Triple list \<Rightarrow> EntityState" where
  "zero_entity i ts =
     \<lparr>es_ID = i, es_Triples = ts, es_StorageRef = None, es_MessageType = \<lparr>mt_Domain = [], mt_Category = [], mt_Version = []\<rparr>,
      es_Version = 0, es_UpdatedAt = 0\<rparr>"

definition ValidateDecodedEntityIDs :: "string list \<Rightarrow> go_error option" where
  "ValidateDecodedEntityIDs entityIDs = decodedStatesLoop ''entity_id'' 0 (map (\<lambda>i. Some (zero_entity i [])) entityIDs)"

subsection \<open>The write gate and the read gate\<close>

record entity_codec =
  ec_encode :: "EntityState \<Rightarrow> go_error + bytes" \<comment> \<open>\<open>json.Marshal\<close>\<close>
  ec_decode :: "bytes \<Rightarrow> go_error + EntityState" \<comment> \<open>\<open>json.Unmarshal\<close> into a zero value\<close>

definition MarshalEntityState :: "entity_codec \<Rightarrow> EntityState \<Rightarrow> go_error + bytes" where
  "MarshalEntityState J entity =
     (case ValidateEntityStateContract (Some entity) of
        Some err \<Rightarrow>
          Inl (the (WrapInvalid (Some err) ''graph'' ''MarshalEntityState'' ''validate entity state contract''))
      | None \<Rightarrow> ec_encode J entity)"

definition UnmarshalEntityState :: "entity_codec \<Rightarrow> bytes \<Rightarrow> go_error + EntityState" where
  "UnmarshalEntityState J data =
     (case ec_decode J data of
        Inl err \<Rightarrow>
          Inl (ClassifyStateContractError (the (WrapFatal
            (Some (ErrStateContract GraphStateReasonUnreadableEntity [] (Some err)))
            ''graph'' ''UnmarshalEntityState'' ''decode authoritative entity state'')))
      | Inr entity \<Rightarrow>
          (case ValidateDecodedEntityState (Some entity) of
             Some err \<Rightarrow> Inl err
           | None \<Rightarrow> Inr entity))"

definition UnmarshalEntityStateTrusted :: "entity_codec \<Rightarrow> bytes \<Rightarrow> go_error + EntityState" where
  "UnmarshalEntityStateTrusted J data =
     (case ec_decode J data of
        Inl err \<Rightarrow> Inl (ErrWrap ''decode entity state: '' err [])
      | Inr entity \<Rightarrow> Inr entity)"

text \<open>A state as it is after decoding: valid strings, decoded objects, times with a text.\<close>

definition native_triple :: "Triple \<Rightarrow> bool" where
  "native_triple t \<longleftrightarrow>
     valid_utf8 (tr_Subject t) \<and> valid_utf8 (tr_Predicate t) \<and> native (tr_Object t) \<and> valid_utf8 (tr_Source t) \<and>
     json_time_ok (tr_Timestamp t) \<and> f64_round (tr_Confidence t) = Some (tr_Confidence t) \<and>
     valid_utf8 (tr_Context t) \<and> valid_utf8 (tr_Datatype t) \<and>
     (case tr_ExpiresAt t of None \<Rightarrow> True | Some x \<Rightarrow> json_time_ok x)"

definition native_entity :: "EntityState \<Rightarrow> bool" where
  "native_entity e \<longleftrightarrow>
     valid_utf8 (es_ID e) \<and> list_all native_triple (es_Triples e) \<and>
     (case es_StorageRef e of None \<Rightarrow> True
      | Some r \<Rightarrow> valid_utf8 (sr_StorageInstance r) \<and> valid_utf8 (sr_Key r) \<and> valid_utf8 (sr_ContentType r)) \<and>
     valid_utf8 (mt_Domain (es_MessageType e)) \<and> valid_utf8 (mt_Category (es_MessageType e)) \<and>
     valid_utf8 (mt_Version (es_MessageType e)) \<and> json_time_ok (es_UpdatedAt e)"

text \<open>What the program uses of \<open>encoding/json\<close>: a decoded state is native, and a native state is read
  back as it was written, from a text that is not empty.\<close>

locale entity_json =
  fixes J :: entity_codec
  assumes decode_native: "ec_decode J b = Inr e \<Longrightarrow> native_entity e"
    and decode_encode: "native_entity e \<Longrightarrow> ec_encode J e = Inr b \<Longrightarrow> ec_decode J b = Inr e"
    and encode_nonempty: "ec_encode J e = Inr b \<Longrightarrow> b \<noteq> []"

lemma subjectLoop_None:
  "subjectLoop rootID i ts = None \<longleftrightarrow> (\<forall>t\<in>set ts. tr_Subject t = rootID \<or> IsValidEntityID (tr_Subject t))"
  by (induction rootID i ts rule: subjectLoop.induct) (auto simp: IsValidEntityID_def split: option.splits)

definition reference_ok :: "Triple \<Rightarrow> bool" where
  "reference_ok t \<longleftrightarrow>
     tr_Datatype t = EntityReferenceDatatype \<longrightarrow> (case tr_Object t of GString v \<Rightarrow> IsValidEntityID v | _ \<Rightarrow> False)"

lemma referenceLoop_None: "referenceLoop i ts = None \<longleftrightarrow> (\<forall>t\<in>set ts. reference_ok t)"
  by (induction i ts rule: referenceLoop.induct)
    (auto simp: IsValidEntityID_def reference_ok_def split: option.splits gval.splits)

lemma predicate_violations_Nil: "predicate_violations ts = [] \<longleftrightarrow> (\<forall>t\<in>set ts. IsValidPredicate (tr_Predicate t))"
  by (auto simp: predicate_violations_def IsValidPredicate_def split: sum.splits)

definition contract_ok :: "EntityState \<Rightarrow> bool" where
  "contract_ok es \<longleftrightarrow>
     IsValidEntityID (es_ID es) \<and>
     (\<forall>t\<in>set (es_Triples es). (tr_Subject t = es_ID es \<or> IsValidEntityID (tr_Subject t)) \<and> reference_ok t \<and>
        IsValidPredicate (tr_Predicate t))"

lemma contract_None: "ValidateEntityStateContract (Some es) = None \<longleftrightarrow> contract_ok es"
proof (cases "subjectLoop (es_ID es) 0 (es_Triples es) = None \<and> referenceLoop 0 (es_Triples es) = None")
  case True
  then have "contract_ok es \<longleftrightarrow> IsValidEntityID (es_ID es) \<and> predicate_violations (es_Triples es) = []"
    unfolding subjectLoop_None referenceLoop_None contract_ok_def predicate_violations_Nil by auto
  then show ?thesis
    by (simp add: True ValidateEntityStateContract_def ValidateEntityPredicates_def IsValidEntityID_def Let_def split: option.splits)
next
  case False
  then have "\<not> contract_ok es" by (auto simp: contract_ok_def subjectLoop_None referenceLoop_None)
  then show ?thesis
    using False by (auto simp: ValidateEntityStateContract_def split: option.splits)
qed

lemma Marshal_Inr: "MarshalEntityState J e = Inr b \<longleftrightarrow> contract_ok e \<and> ec_encode J e = Inr b"
  using contract_None[of e] by (auto simp: MarshalEntityState_def split: option.splits)

lemma Unmarshal_Inr: "UnmarshalEntityState J b = Inr e \<longleftrightarrow> ec_decode J b = Inr e \<and> contract_ok e"
  using contract_None[of e]
  by (auto simp: UnmarshalEntityState_def ValidateDecodedEntityState_def split: option.splits sum.splits)

lemma Trusted_Inr: "UnmarshalEntityStateTrusted J b = Inr e \<longleftrightarrow> ec_decode J b = Inr e"
  by (auto simp: UnmarshalEntityStateTrusted_def split: sum.splits)

lemma first_some_Cons_hit: "f x = Some y \<Longrightarrow> first_some f (x # xs) = Some y"
  by simp

lemma state_in_wrapFatal:
  "errors_as_state (the (WrapFatal (Some (ErrStateContract r i c)) a b d)) = Some (r, i, c)"
  by (cases c) (simp_all add: errors_as_state_def WrapFatal_def wrapClass_def Wrap_def Let_def)

lemma Classify_state_error:
  assumes "errors_as_state e = Some x"
  shows "\<exists>m c. errors_as_classified (ClassifyStateContractError e) = Some (m, c) \<and> em_Class m = ErrorFatal \<and>
    em_Code m = ErrorCodeGraphStateResetRequired"
    "errors_as_state (ClassifyStateContractError e) = Some x"
proof -
  have i: "IsStateContractError (Some e)" using assms by (simp add: IsStateContractError_def)
  show "\<exists>m c. errors_as_classified (ClassifyStateContractError e) = Some (m, c) \<and> em_Class m = ErrorFatal \<and>
    em_Code m = ErrorCodeGraphStateResetRequired"
    using i by (auto simp: ClassifyStateContractError_def ClassifiedCode_def split: option.splits)
  show "errors_as_state (ClassifyStateContractError e) = Some x"
    using i assms by (auto simp: ClassifyStateContractError_def ClassifiedCode_def errors_as_state_def split: option.splits)
qed

lemma Unmarshal_error:
  assumes "UnmarshalEntityState J b = Inl err"
  shows "\<exists>m c. errors_as_classified err = Some (m, c) \<and> em_Class m = ErrorFatal \<and> em_Code m = ErrorCodeGraphStateResetRequired"
    "errors_as_state err \<noteq> None"
proof -
  consider e where "err = ClassifyStateContractError e" "errors_as_state e \<noteq> None"
    using assms state_in_wrapFatal
    by (auto simp: UnmarshalEntityState_def ValidateDecodedEntityState_def classifyDecodedEntityStateError_def Let_def
        split: sum.splits option.splits)
  then show "\<exists>m c. errors_as_classified err = Some (m, c) \<and> em_Class m = ErrorFatal \<and> em_Code m = ErrorCodeGraphStateResetRequired"
    "errors_as_state err \<noteq> None"
    using Classify_state_error by (metis option.exhaust option.distinct(1))+
qed

context entity_json
begin

lemma Unmarshal_Marshal:
  "native_entity e \<Longrightarrow> MarshalEntityState J e = Inr b \<Longrightarrow> UnmarshalEntityState J b = Inr e \<and> b \<noteq> []"
  using decode_encode encode_nonempty by (auto simp: Marshal_Inr Unmarshal_Inr)

lemma Unmarshal_native: "UnmarshalEntityState J b = Inr e \<Longrightarrow> native_entity e \<and> contract_ok e"
  using decode_native by (auto simp: Unmarshal_Inr)

end

text \<open>C18. The write gate and the read gates are one contract.  A state with the shape decoding gives
  that the write gate encodes is read back unchanged by the validating and by the trusted read gate.
  The validating gate accepts exactly what the trusted gate decodes to a state of the contract, and a
  state only the trusted gate lets through is refused by the write gate, so it cannot be stored again.
  Whatever the validating gate refuses is classified as a fatal stored-state error with the reset code, so that a
  caller never takes stored poison for its own mistake or for a transient failure.\<close>

theorem entity_gates_agree:
  assumes "entity_json J"
  shows "(native_entity e \<and> MarshalEntityState J e = Inr b \<longrightarrow>
       UnmarshalEntityState J b = Inr e \<and> UnmarshalEntityStateTrusted J b = Inr e) \<and>
    (UnmarshalEntityState J b' = Inr e' \<longleftrightarrow>
       UnmarshalEntityStateTrusted J b' = Inr e' \<and> ValidateEntityStateContract (Some e') = None) \<and>
    (UnmarshalEntityStateTrusted J b' = Inr e' \<and> UnmarshalEntityState J b' = Inl err \<longrightarrow>
       (\<exists>err'. MarshalEntityState J e' = Inl err')) \<and>
    (UnmarshalEntityState J b' = Inl err \<longrightarrow>
       IsStateContractError (Some err) \<and> Classify (Some err) = ErrorFatal \<and> machine_code err = ErrorCodeGraphStateResetRequired)"
proof (intro conjI impI)
  show "UnmarshalEntityState J b = Inr e" "UnmarshalEntityStateTrusted J b = Inr e"
    if "native_entity e \<and> MarshalEntityState J e = Inr b"
    using entity_json.Unmarshal_Marshal[OF assms] that by (auto simp: Unmarshal_Inr Trusted_Inr)
  show gates: "UnmarshalEntityState J b' = Inr e' \<longleftrightarrow>
      UnmarshalEntityStateTrusted J b' = Inr e' \<and> ValidateEntityStateContract (Some e') = None"
    by (simp add: Unmarshal_Inr Trusted_Inr contract_None)
  show "\<exists>err'. MarshalEntityState J e' = Inl err'"
    if "UnmarshalEntityStateTrusted J b' = Inr e' \<and> UnmarshalEntityState J b' = Inl err"
    using that gates by (auto simp: MarshalEntityState_def split: option.splits)
  assume u: "UnmarshalEntityState J b' = Inl err"
  show "IsStateContractError (Some err)" using Unmarshal_error(2)[OF u] by (simp add: IsStateContractError_def)
  show "machine_code err = ErrorCodeGraphStateResetRequired"
    using Unmarshal_error(1)[OF u] by (auto simp: machine_code_def)
  show "Classify (Some err) = ErrorFatal"
    using Unmarshal_error(1)[OF u] by (auto simp: Classify_def IsTransient_def IsFatal_def)
qed

subsection \<open>A codec given by a table\<close>

definition table_codec :: "(EntityState \<times> bytes) list \<Rightarrow> entity_codec" where
  "table_codec T =
     \<lparr>ec_encode = (\<lambda>e. case map_of T e of Some b \<Rightarrow> Inr b | None \<Rightarrow> Inl (ErrText ''json: unsupported value'')),
      ec_decode = (\<lambda>b. case map_of (map prod.swap T) b of
         Some e \<Rightarrow> Inr e | None \<Rightarrow> Inl (ErrText ''json: unexpected end of JSON input''))\<rparr>"

lemma table_codec_json:
  assumes "\<forall>(e, b)\<in>set T. native_entity e \<and> b \<noteq> []" "distinct (map fst T)" "distinct (map snd T)"
  shows "entity_json (table_codec T)"
proof
  fix e b
  have d: "distinct (map fst (map prod.swap T))" using assms(3) by (simp add: comp_def)
  show "native_entity e" if "ec_decode (table_codec T) b = Inr e"
    using that assms(1) map_of_SomeD by (fastforce simp: table_codec_def split: option.splits)
  show "b \<noteq> []" if "ec_encode (table_codec T) e = Inr b"
    using that assms(1) map_of_SomeD by (fastforce simp: table_codec_def split: option.splits)
  show "ec_decode (table_codec T) b = Inr e" if "ec_encode (table_codec T) e = Inr b"
  proof -
    have "(e, b) \<in> set T" using that map_of_SomeD by (fastforce simp: table_codec_def split: option.splits)
    then have "(b, e) \<in> set (map prod.swap T)" by force
    then have "map_of (map prod.swap T) b = Some e" using d by (simp add: map_of_eq_Some_iff)
    then show ?thesis by (simp add: table_codec_def)
  qed
qed

definition wit_triple :: "string \<Rightarrow> string \<Rightarrow> time \<Rightarrow> Triple" where
  "wit_triple predicate object at_time =
     \<lparr>tr_Subject = ''acme.prod.ops.fleet.drone.d1'', tr_Predicate = predicate, tr_Object = GString object, tr_Source = ''test'',
      tr_Timestamp = at_time, tr_Confidence = 1, tr_Context = [], tr_Datatype = [], tr_ExpiresAt = None\<rparr>"

definition wit_entity :: EntityState where
  "wit_entity = (zero_entity ''acme.prod.ops.fleet.drone.d1'' [wit_triple ''drone.state.phase'' ''idle'' 0])
     \<lparr>es_Version := 1\<rparr>"

lemma valid_utf8_ascii: "list_all (\<lambda>c. of_char c < (128 :: nat)) s \<Longrightarrow> valid_utf8 s"
proof (induction s)
  case (Cons c cs)
  then have "utf8_lead c = Some (0, 0, 0)" by (simp add: utf8_lead_def byte_in_def)
  then have "utf8_size (c # cs) = Suc 0" by simp
  then show ?case using Cons by (simp del: utf8_size.simps)
qed simp

lemma f64_round_1: "f64_round 1 = Some 1"
  by code_simp

lemma wit_entity_ok: "native_entity wit_entity" "contract_ok wit_entity"
proof -
  have "valid_utf8 ''acme.prod.ops.fleet.drone.d1''" "valid_utf8 ''drone.state.phase''" "valid_utf8 ''idle''" "valid_utf8 ''test''"
    by code_simp+
  then show "native_entity wit_entity"
    by (simp add: native_entity_def wit_entity_def zero_entity_def native_triple_def wit_triple_def json_time_ok_def
        f64_round_1 del: valid_utf8.simps(2))
  have "IsValidEntityID ''acme.prod.ops.fleet.drone.d1''" "IsValidPredicate ''drone.state.phase''" by code_simp+
  then show "contract_ok wit_entity"
    by (simp add: contract_ok_def wit_entity_def zero_entity_def wit_triple_def reference_ok_def EntityReferenceDatatype_def)
qed

interpretation wit_codec: entity_json "table_codec [(wit_entity, ''entity'')]"
  by (rule table_codec_json) (use wit_entity_ok in auto)

text \<open>The stored state of a drone is read back by both gates, and bytes that are no state are refused with
  the reset code.\<close>

theorem entity_gates_agree_witness:
  "UnmarshalEntityState (table_codec [(wit_entity, ''entity'')]) ''entity'' = Inr wit_entity \<and>
   UnmarshalEntityStateTrusted (table_codec [(wit_entity, ''entity'')]) ''entity'' = Inr wit_entity \<and>
   (\<exists>err. UnmarshalEntityState (table_codec [(wit_entity, ''entity'')]) ''{'' = Inl err \<and>
      Classify (Some err) = ErrorFatal \<and> machine_code err = ErrorCodeGraphStateResetRequired)"
proof -
  let ?J = "table_codec [(wit_entity, ''entity'')]"
  have "MarshalEntityState ?J wit_entity = Inr ''entity''"
    using wit_entity_ok(2) by (simp add: Marshal_Inr table_codec_def)
  moreover obtain err where "UnmarshalEntityState ?J ''{'' = Inl err"
    by (simp add: UnmarshalEntityState_def table_codec_def)
  ultimately show ?thesis
    using entity_gates_agree[OF wit_codec.entity_json_axioms] wit_entity_ok(1) by blast
qed

end
