(* ===== verification/Ingest_State.thy ===== *)
theory Ingest_State
  imports Entity_State
begin

text \<open>
  The state of the graph-ingest component that its write paths share
  (\<open>processor/graph-ingest/component.go\<close>): the entity-query cache with its invalidation generations,
  the suffix index, the counters, and the per-entity poison inventory
  (\<open>processor/graph-ingest/poison_inventory.go\<close>).  The authority bucket and the suffix bucket live in
  the world \<open>'s\<close>.  Metrics and logs are left out.  The lemmas are about the inventory: proof of a valid
  revision removes exactly the records it covers, and the size mirror is exact.
\<close>

record state_contract_error =
  sc_Reason :: StateResetReason
  sc_EntityID :: string
  sc_Err :: "go_error option"

record poison_record =
  ep_contractErr :: state_contract_error
  ep_revision :: revision

text \<open>The collaborators of the component.\<close>

record 's ingest_env =
  gi_bucket :: "'s kv_store" \<comment> \<open>\<open>ENTITY_STATES\<close>, opened before the handlers are registered\<close>
  gi_suffixBucket :: "'s kv_store option"
  gi_codec :: entity_codec
  gi_text :: go_text
  gi_org :: string
  gi_platform :: string
  gi_registry :: "(string \<Rightarrow> string option) option" \<comment> \<open>the floor registered with a message type\<close>
  gi_now :: "'s \<Rightarrow> 's \<times> time"
  gi_retry :: "go_ctx \<Rightarrow> 's retry_env"
  gi_ctx_err :: "go_ctx \<Rightarrow> 's \<Rightarrow> go_error option"

record 's ingest =
  in_world :: 's
  in_entityPoison :: "(string \<times> poison_record) list"
  in_entityPoisonSize :: nat
  in_entityCache :: "(string \<times> EntityState) list option"
  in_cacheGen :: "string \<Rightarrow> 64 word"
  in_suffixCache :: "(string \<times> string) list option"
  in_errors :: "64 word"
  in_messagesProcessed :: "64 word"
  in_bytesProcessed :: "64 word"
  in_lastActivity :: "time option"

text \<open>An operation of the world, run on the component's state.\<close>

definition on_world :: "('s \<Rightarrow> 's \<times> 'a) \<Rightarrow> 's ingest \<Rightarrow> 's ingest \<times> 'a" where
  "on_world f st = (let (s, a) = f (in_world st) in (st\<lparr>in_world := s\<rparr>, a))"

definition map_put :: "'k \<Rightarrow> 'v \<Rightarrow> ('k \<times> 'v) list \<Rightarrow> ('k \<times> 'v) list" where
  "map_put k v m = (k, v) # filter (\<lambda>e. fst e \<noteq> k) m"

definition map_del :: "'k \<Rightarrow> ('k \<times> 'v) list \<Rightarrow> ('k \<times> 'v) list" where
  "map_del k m = filter (\<lambda>e. fst e \<noteq> k) m"

subsection \<open>The query cache\<close>

definition invalidateEntityCacheEntry :: "string \<Rightarrow> 's ingest \<Rightarrow> 's ingest" where
  "invalidateEntityCacheEntry i st =
     (case in_entityCache st of
        None \<Rightarrow> st
      | Some m \<Rightarrow> st\<lparr>in_cacheGen := (in_cacheGen st)(i := in_cacheGen st i + 1), in_entityCache := Some (map_del i m)\<rparr>)"

definition loadEntityCacheGen :: "string \<Rightarrow> 's ingest \<Rightarrow> 64 word" where
  "loadEntityCacheGen i st = in_cacheGen st i"

definition repopulateEntityCacheEntry :: "string \<Rightarrow> EntityState \<Rightarrow> 64 word \<Rightarrow> 's ingest \<Rightarrow> 's ingest" where
  "repopulateEntityCacheEntry i entity gen0 st =
     (case in_entityCache st of
        None \<Rightarrow> st
      | Some m \<Rightarrow> if in_cacheGen st i = gen0 then st\<lparr>in_entityCache := Some (map_put i entity m)\<rparr> else st)"

subsection \<open>The suffix index\<close>

definition entitySuffixKeys :: "string \<Rightarrow> string \<times> string" where
  "entitySuffixKeys entityID =
     (let parts = go_split (CHR ''.'') entityID in
      if length parts < 2 then (entityID, [])
      else (last parts, parts ! (length parts - 2) @ ''.'' @ last parts))"

definition updateSuffixIndex :: "'s ingest_env \<Rightarrow> go_ctx \<Rightarrow> string \<Rightarrow> 's ingest \<Rightarrow> 's ingest" where
  "updateSuffixIndex G ctx entityID st =
     (case gi_suffixBucket G of
        None \<Rightarrow> st
      | Some kv \<Rightarrow>
          let (inst, typeInstance) = entitySuffixKeys entityID;
              indexValue = [CHR 0x7B, CHR 0x22] @ ''id'' @ [CHR 0x22] @ '':'' @ quoted entityID @ [CHR 0x7D];
              st = (if inst \<noteq> [] then fst (on_world (kv_Put kv ctx inst indexValue) st) else st);
              st = (if typeInstance \<noteq> [] then fst (on_world (kv_Put kv ctx typeInstance indexValue) st) else st)
          in st)"

definition removeSuffix :: "'s kv_store \<Rightarrow> go_ctx \<Rightarrow> string \<Rightarrow> 's ingest \<Rightarrow> 's ingest" where
  "removeSuffix kv ctx key st =
     (if key = [] then st
      else let st = fst (on_world (kv_Delete kv ctx key) st)
           in st\<lparr>in_suffixCache := map_option (map_del key) (in_suffixCache st)\<rparr>)"

definition removeSuffixIndex :: "'s ingest_env \<Rightarrow> go_ctx \<Rightarrow> string \<Rightarrow> 's ingest \<Rightarrow> 's ingest" where
  "removeSuffixIndex G ctx entityID st =
     (case gi_suffixBucket G of
        None \<Rightarrow> st
      | Some kv \<Rightarrow>
          let (inst, typeInstance) = entitySuffixKeys entityID
          in removeSuffix kv ctx typeInstance (removeSuffix kv ctx inst st))"

subsection \<open>The poison inventory\<close>

text \<open>The second component is true when the entity was newly inventoried.\<close>

definition recordEntityPoison :: "state_contract_error option \<Rightarrow> revision \<Rightarrow> 's ingest \<Rightarrow> 's ingest \<times> bool" where
  "recordEntityPoison contractErr revision st =
     (case contractErr of
        None \<Rightarrow> (st, False)
      | Some ce \<Rightarrow>
          if sc_EntityID ce = [] then (st, False)
          else let i = sc_EntityID ce; rc = \<lparr>ep_contractErr = ce, ep_revision = revision\<rparr> in
            (case map_of (in_entityPoison st) i of
               Some existing \<Rightarrow>
                 (if revision \<ge> ep_revision existing
                  then st\<lparr>in_entityPoison := map_put i rc (in_entityPoison st)\<rparr> else st, False)
             | None \<Rightarrow>
                 let m = map_put i rc (in_entityPoison st);
                     st = st\<lparr>in_entityPoison := m, in_entityPoisonSize := length m\<rparr>
                 in (invalidateEntityCacheEntry i st, True)))"

definition dropEntityPoisonRecord :: "string \<Rightarrow> revision \<Rightarrow> 's ingest \<Rightarrow> 's ingest" where
  "dropEntityPoisonRecord entityID proofRev st =
     (case map_of (in_entityPoison st) entityID of
        None \<Rightarrow> st
      | Some rc \<Rightarrow>
          if proofRev \<noteq> 0 \<and> ep_revision rc > proofRev then st
          else let m = map_del entityID (in_entityPoison st)
               in st\<lparr>in_entityPoison := m, in_entityPoisonSize := length m\<rparr>)"

definition verifyEntityPoisonRecord :: "'s ingest_env \<Rightarrow> go_ctx \<Rightarrow> string \<Rightarrow> 's ingest \<Rightarrow> 's ingest" where
  "verifyEntityPoisonRecord G ctx entityID st =
     (case on_world (kv_Get (gi_bucket G) ctx entityID) st of
        (st, Inl err) \<Rightarrow>
          if IsKVNotFoundError (kv_bucket (gi_bucket G)) err then dropEntityPoisonRecord entityID 0 st else st
      | (st, Inr entry) \<Rightarrow>
          (case UnmarshalEntityState (gi_codec G) (ke_Value entry) of
             Inr _ \<Rightarrow> dropEntityPoisonRecord entityID (ke_Revision entry) st
           | Inl _ \<Rightarrow> st))"

definition inventoryEntityPoison ::
  "'s ingest_env \<Rightarrow> go_ctx \<Rightarrow> state_contract_error option \<Rightarrow> revision \<Rightarrow> 's ingest \<Rightarrow> 's ingest" where
  "inventoryEntityPoison G ctx contractErr revision st =
     (case recordEntityPoison contractErr revision st of
        (st, True) \<Rightarrow> verifyEntityPoisonRecord G ctx (sc_EntityID (the contractErr)) st
      | (st, False) \<Rightarrow> st)"

definition inventoryEntityPoisonAtCurrentRevision ::
  "'s ingest_env \<Rightarrow> go_ctx \<Rightarrow> state_contract_error option \<Rightarrow> 's ingest \<Rightarrow> 's ingest" where
  "inventoryEntityPoisonAtCurrentRevision G ctx contractErr st =
     (case contractErr of
        None \<Rightarrow> st
      | Some ce \<Rightarrow>
          if sc_EntityID ce = [] then st
          else (case on_world (kv_Get (gi_bucket G) ctx (sc_EntityID ce)) st of
             (st, Inl err) \<Rightarrow> st
           | (st, Inr entry) \<Rightarrow>
               (case UnmarshalEntityState (gi_codec G) (ke_Value entry) of
                  Inr _ \<Rightarrow> dropEntityPoisonRecord (sc_EntityID ce) (ke_Revision entry) st
                | Inl _ \<Rightarrow> inventoryEntityPoison G ctx contractErr (ke_Revision entry) st)))"

definition clearEntityPoisonOnDelete :: "string \<Rightarrow> 's ingest \<Rightarrow> 's ingest" where
  "clearEntityPoisonOnDelete entityID st =
     (if in_entityPoisonSize st = 0 then st else dropEntityPoisonRecord entityID 0 st)"

definition clearEntityPoisonOnCommit :: "'s ingest_env \<Rightarrow> go_ctx \<Rightarrow> string \<Rightarrow> revision \<Rightarrow> 's ingest \<Rightarrow> 's ingest" where
  "clearEntityPoisonOnCommit G ctx entityID committedRev st =
     (if in_entityPoisonSize st = 0 then st
      else if map_of (in_entityPoison st) entityID = None then st
      else if committedRev = 0 then
        (case on_world (kv_Get (gi_bucket G) ctx entityID) st of
           (st, Inl err) \<Rightarrow> st
         | (st, Inr entry) \<Rightarrow>
             (case UnmarshalEntityState (gi_codec G) (ke_Value entry) of
                Inl _ \<Rightarrow> st
              | Inr _ \<Rightarrow> dropEntityPoisonRecord entityID (ke_Revision entry) st))
      else dropEntityPoisonRecord entityID committedRev st)"

definition clearEntityPoisonOnValidRead :: "string \<Rightarrow> revision \<Rightarrow> 's ingest \<Rightarrow> 's ingest" where
  "clearEntityPoisonOnValidRead entityID readRev st =
     (if in_entityPoisonSize st = 0 then st else dropEntityPoisonRecord entityID readRev st)"

definition entityPoisonHealthMessage :: "'s ingest \<Rightarrow> string" where
  "entityPoisonHealthMessage st =
     (let total_count = length (in_entityPoison st);
          ids = sort (map fst (in_entityPoison st));
          sample = take 10 ids;
          parts = map (\<lambda>i. i @ '' ('' @ reset_reason_string (sc_Reason (ep_contractErr (the (map_of (in_entityPoison st) i)))) @ '')'') sample;
          noun = (if total_count = 1 then ''entity'' else ''entities'');
          msg = ErrorCodeGraphStateResetRequired @ '': '' @ itoa total_count @ '' poisoned '' @ noun @
            '' (per-entity refusal; repair = delete + recreate): '' @ string_join '', '' parts
      in if total_count > length sample
         then msg @ '' (+'' @ itoa (total_count - length sample) @ '' more; enumerate via debug status)'' else msg)"

record poison_debug_entry =
  pd_EntityID :: string
  pd_Reason :: string
  pd_Revision :: revision
  pd_Error :: string

definition DebugStatus :: "'s ingest \<Rightarrow> nat \<times> poison_debug_entry list" where
  "DebugStatus st =
     (let entries = map (\<lambda>(i, rc). \<lparr>pd_EntityID = i,
            pd_Reason = reset_reason_string (sc_Reason (ep_contractErr rc)), pd_Revision = ep_revision rc,
            pd_Error = Error (ErrStateContract (sc_Reason (ep_contractErr rc)) (sc_EntityID (ep_contractErr rc)) (sc_Err (ep_contractErr rc)))\<rparr>)
          (sort_key fst (in_entityPoison st))
      in (length entries, entries))"

subsection \<open>Stored-state errors of a read-modify-write\<close>

text \<open>\<open>contractErr.EntityID = entityID\<close> on the error found in the chain.\<close>

fun stamp_entity :: "string \<Rightarrow> go_error \<Rightarrow> go_error" where
  "stamp_entity i (ErrStateContract r j c) = ErrStateContract r i c"
| "stamp_entity i (ErrWrap a e b) = ErrWrap a (stamp_entity i e) b"
| "stamp_entity i (ErrClassified m c) = ErrClassified m (map_option (stamp_entity i) c)"
| "stamp_entity i (ErrNonRetryable e) = ErrNonRetryable (stamp_entity i e)"
| "stamp_entity i (ErrEntityField f n e) = ErrEntityField f n (stamp_entity i e)"
| "stamp_entity i (ErrShutdown ow p e) = ErrShutdown ow p (stamp_entity i e)"
| "stamp_entity i e = e"

definition classifyStoredStateRMWError ::
  "'s ingest_env \<Rightarrow> go_ctx \<Rightarrow> string \<Rightarrow> bytes \<Rightarrow> go_error \<Rightarrow> 's ingest \<Rightarrow> 's ingest \<times> go_error" where
  "classifyStoredStateRMWError G ctx entityID current cycleErr st =
     (case UnmarshalEntityState (gi_codec G) current of
        Inr _ \<Rightarrow> (st, cycleErr)
      | Inl err \<Rightarrow>
          (case errors_as_state err of
             Some (r, _, c) \<Rightarrow>
               (inventoryEntityPoisonAtCurrentRevision G ctx
                  (Some \<lparr>sc_Reason = r, sc_EntityID = entityID, sc_Err = c\<rparr>) st, stamp_entity entityID err)
           | None \<Rightarrow> (st, err)))"

subsection \<open>Invariant of the inventory\<close>

text \<open>Every record is filed under its entity, once, and the size mirror that the fast paths read is exact.\<close>

definition poison_ok :: "'s ingest \<Rightarrow> bool" where
  "poison_ok st \<longleftrightarrow>
     distinct (map fst (in_entityPoison st)) \<and> in_entityPoisonSize st = length (in_entityPoison st) \<and>
     (\<forall>(i, rc)\<in>set (in_entityPoison st). i \<noteq> [] \<and> sc_EntityID (ep_contractErr rc) = i)"

lemma distinct_fst_filter: "distinct (map fst m) \<Longrightarrow> distinct (map fst (filter P m))"
  by (induction m) auto

lemma map_of_put [simp]: "map_of (map_put k v m) = (map_of m)(k \<mapsto> v)"
  by (auto simp: map_put_def fun_eq_iff map_of_filter_key)

lemma map_of_del [simp]: "map_of (map_del k m) = (map_of m)(k := None)"
  by (auto simp: map_del_def fun_eq_iff map_of_filter_key)

lemma map_put_ok: "distinct (map fst m) \<Longrightarrow> distinct (map fst (map_put k v m))"
  by (auto simp: map_put_def intro: distinct_fst_filter)

lemma length_map_put: "distinct (map fst m) \<Longrightarrow> map_of m k = Some w \<Longrightarrow> length (map_put k v m) = length m"
proof (induction m)
  case (Cons a m)
  show ?case
  proof (cases "fst a = k")
    case True
    then have "filter (\<lambda>e. fst e \<noteq> k) m = m" using Cons.prems(1) by (auto simp: filter_id_conv image_iff)
    then show ?thesis using True by (simp add: map_put_def)
  next
    case False
    then show ?thesis using Cons by (cases a) (auto simp: map_put_def)
  qed
qed simp

lemma poison_ok_cache [simp]: "poison_ok (invalidateEntityCacheEntry i st) = poison_ok st"
  by (simp add: poison_ok_def invalidateEntityCacheEntry_def split: option.splits)

lemma poison_ok_world [simp]: "poison_ok (st\<lparr>in_world := s\<rparr>) = poison_ok st"
  by (simp add: poison_ok_def)

lemma poison_ok_on_world [simp]: "poison_ok (fst (on_world f st)) = poison_ok st"
  by (simp add: on_world_def split: prod.splits)

lemma record_poison_ok: "poison_ok st \<Longrightarrow> poison_ok (fst (recordEntityPoison ce r st))"
  using length_map_put[of "in_entityPoison st"]
  by (auto simp: recordEntityPoison_def poison_ok_def Let_def map_put_ok invalidateEntityCacheEntry_def split: option.splits)
     (auto simp: map_put_def)

lemma drop_poison_ok: "poison_ok st \<Longrightarrow> poison_ok (dropEntityPoisonRecord i r st)"
  by (auto simp: dropEntityPoisonRecord_def poison_ok_def Let_def map_del_def intro: distinct_fst_filter split: option.splits)

lemma verify_poison_ok: "poison_ok st \<Longrightarrow> poison_ok (verifyEntityPoisonRecord G ctx i st)"
  by (auto simp: verifyEntityPoisonRecord_def on_world_def intro: drop_poison_ok split: prod.splits sum.splits)

lemma inventory_poison_ok: "poison_ok st \<Longrightarrow> poison_ok (inventoryEntityPoison G ctx ce r st)"
  using record_poison_ok[of st ce r]
  by (auto simp: inventoryEntityPoison_def intro: verify_poison_ok split: prod.splits bool.splits)

lemma poison_ops_ok:
  assumes "poison_ok st"
  shows "poison_ok (inventoryEntityPoisonAtCurrentRevision G ctx ce st)"
    "poison_ok (clearEntityPoisonOnDelete i st)"
    "poison_ok (clearEntityPoisonOnCommit G ctx i r st)"
    "poison_ok (clearEntityPoisonOnValidRead i r st)"
    "poison_ok (fst (classifyStoredStateRMWError G ctx i cur err st))"
  using assms
  by (auto simp: inventoryEntityPoisonAtCurrentRevision_def clearEntityPoisonOnDelete_def clearEntityPoisonOnCommit_def
      clearEntityPoisonOnValidRead_def classifyStoredStateRMWError_def on_world_def
      intro: drop_poison_ok inventory_poison_ok split: prod.splits sum.splits option.splits)

text \<open>A proof of validity at a revision removes the record it covers and keeps a newer one.\<close>

lemma drop_poison_exact:
  "map_of (in_entityPoison (dropEntityPoisonRecord i p st)) j =
     (if j = i \<and> (case map_of (in_entityPoison st) i of Some rc \<Rightarrow> p = 0 \<or> ep_revision rc \<le> p | None \<Rightarrow> True)
      then None else map_of (in_entityPoison st) j)"
  by (auto simp: dropEntityPoisonRecord_def Let_def split: option.splits)

lemma fast_path_exact: "poison_ok st \<Longrightarrow> in_entityPoisonSize st = 0 \<Longrightarrow> dropEntityPoisonRecord i p st = st"
  by (auto simp: poison_ok_def dropEntityPoisonRecord_def)

subsection \<open>The world seen by the component\<close>

text \<open>The writes of the authority bucket are a prefix of what they become: none of the bookkeeping
  operations writes an entity.\<close>

abbreviation in_steady :: "('s \<Rightarrow> bool) \<Rightarrow> ('s \<Rightarrow> kv_commit list) \<Rightarrow> 's ingest \<Rightarrow> 's ingest \<Rightarrow> bool" where
  "in_steady ok wl st st' \<equiv> steady ok wl (in_world st) (in_world st')"

text \<open>What the rest of the world must leave to the authority bucket.\<close>

definition ingest_steady :: "('s \<Rightarrow> bool) \<Rightarrow> ('s \<Rightarrow> kv_commit list) \<Rightarrow> 's ingest_env \<Rightarrow> bool" where
  "ingest_steady ok wl G \<longleftrightarrow>
     (\<forall>s. steady ok wl s (fst (gi_now G s))) \<and> steady_env ok wl (gi_retry G) \<and>
     (case gi_suffixBucket G of None \<Rightarrow> True
      | Some kv \<Rightarrow> (\<forall>c k v s. steady ok wl s (fst (kv_Put kv c k v s))) \<and> (\<forall>c k s. steady ok wl s (fst (kv_Delete kv c k s))))"

lemma on_world_steady: "(\<And>s. steady ok wl s (fst (f s))) \<Longrightarrow> in_steady ok wl st (fst (on_world f st))"
  by (auto simp: on_world_def split: prod.splits) (metis fst_conv)

lemma cache_world [simp]: "in_world (invalidateEntityCacheEntry i st) = in_world st"
  by (simp add: invalidateEntityCacheEntry_def split: option.splits)

lemma record_world [simp]: "in_world (fst (recordEntityPoison ce r st)) = in_world st"
  by (simp add: recordEntityPoison_def Let_def split: option.splits)

lemma drop_world [simp]: "in_world (dropEntityPoisonRecord i p st) = in_world st"
  by (simp add: dropEntityPoisonRecord_def Let_def split: option.splits)

lemma clear_world [simp]:
  "in_world (clearEntityPoisonOnDelete i st) = in_world st" "in_world (clearEntityPoisonOnValidRead i p st) = in_world st"
  by (simp_all add: clearEntityPoisonOnDelete_def clearEntityPoisonOnValidRead_def)

context cas_bucket
begin

lemma get_in_steady: "kv_bucket (gi_bucket G) = B \<Longrightarrow> on_world (kv_Get (gi_bucket G) ctx k) st = (st', r) \<Longrightarrow> in_steady ok wlog st st'"
  using kv_Get_steady[of "gi_bucket G" ctx k "in_world st"] by (auto simp: on_world_def split: prod.splits)

lemma verify_in_steady:
  "kv_bucket (gi_bucket G) = B \<Longrightarrow> in_steady ok wlog st (verifyEntityPoisonRecord G ctx i st)"
  using get_in_steady[of G ctx i st] by (auto simp: verifyEntityPoisonRecord_def split: prod.splits sum.splits)

lemma inventory_in_steady:
  "kv_bucket (gi_bucket G) = B \<Longrightarrow> in_steady ok wlog st (inventoryEntityPoison G ctx ce r st)"
  using verify_in_steady[of G "fst (recordEntityPoison ce r st)" ctx]
  by (auto simp: inventoryEntityPoison_def split: prod.splits bool.splits) (metis fst_conv record_world steady_refl)+

lemma inventory_current_in_steady:
  assumes "kv_bucket (gi_bucket G) = B"
  shows "in_steady ok wlog st (inventoryEntityPoisonAtCurrentRevision G ctx ce st)"
proof (cases ce)
  case (Some c)
  obtain st1 r where g: "on_world (kv_Get (gi_bucket G) ctx (sc_EntityID c)) st = (st1, r)" by fastforce
  note 1 = get_in_steady[OF assms g]
  have "in_steady ok wlog st (inventoryEntityPoison G ctx ce rv st1)" for rv
    using steady_trans[OF 1 inventory_in_steady[OF assms]] .
  then show ?thesis
    using 1 by (auto simp: inventoryEntityPoisonAtCurrentRevision_def Some g split: sum.splits)
qed (simp add: inventoryEntityPoisonAtCurrentRevision_def)

lemma clear_commit_in_steady:
  "kv_bucket (gi_bucket G) = B \<Longrightarrow> in_steady ok wlog st (clearEntityPoisonOnCommit G ctx i r st)"
  using get_in_steady[of G ctx i st] by (auto simp: clearEntityPoisonOnCommit_def split: prod.splits sum.splits)

lemma classify_in_steady:
  "kv_bucket (gi_bucket G) = B \<Longrightarrow> in_steady ok wlog st (fst (classifyStoredStateRMWError G ctx i cur err st))"
  using inventory_current_in_steady[of G st ctx]
  by (auto simp: classifyStoredStateRMWError_def split: sum.splits option.splits)

end

lemma suffix_in_steady:
  assumes "ingest_steady ok wl G"
  shows "in_steady ok wl st (updateSuffixIndex G ctx i st)" "in_steady ok wl st (removeSuffixIndex G ctx i st)"
proof -
  have p: "in_steady ok wl st (fst (on_world (kv_Put kv c k v) st))" "in_steady ok wl st (fst (on_world (kv_Delete kv c k) st))"
    if "gi_suffixBucket G = Some kv" for kv c k v st
    using assms that by (auto simp: ingest_steady_def intro: on_world_steady)
  have r: "in_steady ok wl st (removeSuffix kv c k st)" if "gi_suffixBucket G = Some kv" for kv c k st
    using p(2)[OF that] by (simp add: removeSuffix_def Let_def)
  show "in_steady ok wl st (updateSuffixIndex G ctx i st)"
    by (auto simp: updateSuffixIndex_def Let_def split: option.splits prod.splits intro: p(1) steady_trans[OF p(1) p(1)])
  show "in_steady ok wl st (removeSuffixIndex G ctx i st)"
    by (auto simp: removeSuffixIndex_def Let_def split: option.splits prod.splits intro: steady_trans[OF r r])
qed

end
