(* ===== verification/Graph_Ingest.thy ===== *)
theory Graph_Ingest
  imports Ingest_State "HOL-Library.Multiset"
begin

text \<open>
  The canonical mutations of the graph (\<open>processor/graph-ingest/canonical_mutations.go\<close>,
  \<open>mutation_runtime.go\<close>, \<open>authority_gate.go\<close> and the append lane of \<open>component.go\<close>): create, reconcile
  of a predicate set, append, delete, each a whole handler from the request to the response over the
  authority bucket of \<open>Kv_Store\<close>.  Decoding of request bytes is the parameter \<open>'r json_request\<close>; a
  response is returned as the struct that is then encoded.  The main lemmas say what a successful
  reconcile and a successful append committed, at which revision, and over which state.
\<close>

subsection \<open>Requests and responses\<close>

record CreateEntityRequest =
  cr_Entity :: "EntityState option"
  cr_Triples :: "Triple list"
  cr_IndexingProfile :: string
  cr_TraceID :: string
  cr_RequestID :: string

record DeleteEntityRequest =
  dr_EntityID :: string
  dr_ExpectedRevision :: revision
  dr_TraceID :: string
  dr_RequestID :: string

record ReconcilePredicatesRequest =
  rr_EntityID :: string
  rr_ExpectedRevision :: revision
  rr_Predicates :: "string list"
  rr_Desired :: "Triple list"
  rr_TraceID :: string
  rr_RequestID :: string

record AppendTriplesRequest =
  ar_Triples :: "Triple list"
  ar_TraceID :: string
  ar_RequestID :: string

datatype MutationOutcome =
    MutationApplied | MutationUnchanged | MutationEntityNotFound | MutationEntityAlreadyExists
  | MutationRevisionMismatch | MutationInvalid | MutationFailed

record CreateEntityResponse =
  cp_Outcome :: MutationOutcome
  cp_Entity :: EntityState
  cp_KVRevision :: revision
  cp_TraceID :: string
  cp_RequestID :: string

record ReconcilePredicatesResponse =
  rp_Outcome :: MutationOutcome
  rp_Entity :: EntityState
  rp_KVRevision :: revision
  rp_TraceID :: string
  rp_RequestID :: string

record MutationFailure =
  mf_Class :: string
  mf_Code :: string

record AppendSubjectResult =
  as_EntityID :: string
  as_Outcome :: MutationOutcome
  as_KVRevision :: revision
  as_Error :: "MutationFailure option"

record AppendTriplesResponse =
  ap_Results :: "AppendSubjectResult list"
  ap_TraceID :: string
  ap_RequestID :: string

record DeleteEntityResponse =
  dp_EntityID :: string
  dp_Outcome :: MutationOutcome
  dp_ExpectedRevision :: revision
  dp_TraceID :: string
  dp_RequestID :: string

text \<open>\<open>encoding/json\<close> on request bytes: the strict decode of the first value, what follows it, and the
  top-level field names.\<close>

datatype json_trailing = TrailEOF | TrailValue | TrailError go_error

record 'r json_request =
  jr_decode :: "bytes \<Rightarrow> go_error + 'r"
  jr_trailing :: "bytes \<Rightarrow> json_trailing"
  jr_fields :: "bytes \<Rightarrow> go_error + string list"

fun missing_field :: "string list \<Rightarrow> string list \<Rightarrow> go_error option" where
  "missing_field present [] = None"
| "missing_field present (f # fs) =
     (if List.member present f then missing_field present fs
      else Some (ErrText (''required field '' @ quoted f @ '' is missing'')))"

definition decodeCanonicalMutation :: "'r json_request \<Rightarrow> bytes \<Rightarrow> string list \<Rightarrow> go_error + 'r" where
  "decodeCanonicalMutation R data requiredFields =
     (case jr_decode R data of
        Inl err \<Rightarrow> Inl err
      | Inr target \<Rightarrow>
          (case jr_trailing R data of
             TrailValue \<Rightarrow> Inl (ErrText ''multiple JSON values are not admitted'')
           | TrailError err \<Rightarrow> Inl err
           | TrailEOF \<Rightarrow>
               (case jr_fields R data of
                  Inl err \<Rightarrow> Inl err
                | Inr present \<Rightarrow>
                    (case missing_field present requiredFields of Some err \<Rightarrow> Inl err | None \<Rightarrow> Inr target))))"

subsection \<open>Rejections\<close>

definition rejectInvalid :: "string \<Rightarrow> go_error \<Rightarrow> go_error" where
  "rejectInvalid code err = ClassifiedCode ErrorInvalid code err"

definition rejectInvalidDetail :: "string \<Rightarrow> (string \<times> detail_value) list \<Rightarrow> go_error \<Rightarrow> go_error" where
  "rejectInvalidDetail code detail err = ClassifiedCodeDetail ErrorInvalid code detail err"

definition rejectInternal :: "go_error \<Rightarrow> go_error" where
  "rejectInternal err = ClassifiedCode ErrorTransient ''internal'' err"

definition rejectFromError :: "go_error \<Rightarrow> go_error" where
  "rejectFromError err =
     (if errors_as_state err \<noteq> None then ClassifiedCode ErrorFatal ErrorCodeGraphStateResetRequired err
      else if IsInvalid (Some err) then rejectInvalid ''invalid_request'' err
      else rejectInternal err)"

definition rejectRevisionMismatch :: "(string \<times> detail_value) list \<Rightarrow> go_error \<Rightarrow> go_error" where
  "rejectRevisionMismatch detail err = ClassifiedCodeDetail ErrorInvalid ''revision_mismatch'' detail err"

definition drev :: "revision \<Rightarrow> detail_value" where
  "drev r = DInt (uint r)"

definition class_string :: "ErrorClass \<Rightarrow> string" where
  "class_string c = (case c of ErrorTransient \<Rightarrow> ''transient'' | ErrorInvalid \<Rightarrow> ''invalid'' | ErrorFatal \<Rightarrow> ''fatal'')"

definition canonicalAppendFailure :: "go_error \<Rightarrow> MutationFailure" where
  "canonicalAppendFailure err =
     (case errors_as_classified (rejectFromError err) of
        Some (typed, _) \<Rightarrow> \<lparr>mf_Class = class_string (em_Class typed), mf_Code = em_Code typed\<rparr>
      | None \<Rightarrow> \<lparr>mf_Class = class_string ErrorTransient, mf_Code = ''internal''\<rparr>)"

definition canonicalErrorOutcome :: "go_error \<Rightarrow> string" where
  "canonicalErrorOutcome err =
     (case errors_as_classified err of
        None \<Rightarrow> ''internal''
      | Some (ce, _) \<Rightarrow>
          if em_Code ce = ''entity_not_found'' then ''entity_not_found''
          else if em_Code ce = ''entity_already_exists'' then ''entity_already_exists''
          else if em_Code ce = ''revision_mismatch'' then ''revision_mismatch''
          else if em_Code ce = ''invalid_request'' \<or> em_Code ce = ''structural_invalid'' then ''invalid''
          else ''internal'')"

subsection \<open>Gates\<close>

definition validateEntityID_error :: "string \<Rightarrow> go_error option" where
  "validateEntityID_error i = map_option entity_id_error (ValidateEntityID i)"

definition authorizeSubject :: "'s ingest_env \<Rightarrow> string \<Rightarrow> bool \<Rightarrow> go_error option" where
  "authorizeSubject G subject importLane =
     map_option entity_id_error (ValidateEntityIDAuthority subject (gi_org G) (gi_platform G) importLane)"

definition requireRegisteredMessageType :: "'s ingest_env \<Rightarrow> EntityState \<Rightarrow> go_error option" where
  "requireRegisteredMessageType G entity =
     (case gi_registry G of
        None \<Rightarrow> Some (rejectInternal (ErrText ''graph-ingest holds no payload registry; entity.create refused''))
      | Some reg \<Rightarrow>
          let key = MsgType_Key (es_MessageType entity) in
          (case reg key of
             None \<Rightarrow> Some (rejectInvalidDetail ''message_type_unregistered'' [(''message_type'', DStr key)]
               (ErrText (''entity message_type '' @ quoted key @ '' is not registered in this deployment's payload registry'')))
           | Some _ \<Rightarrow> None))"

definition fetchEntityState ::
  "'s ingest_env \<Rightarrow> go_ctx \<Rightarrow> string \<Rightarrow> 's ingest \<Rightarrow> 's ingest \<times> (go_error + EntityState \<times> revision)" where
  "fetchEntityState G ctx entityID st =
     (case on_world (kv_Get (gi_bucket G) ctx entityID) st of
        (st, Inl err) \<Rightarrow> (st, Inl err)
      | (st, Inr entry) \<Rightarrow>
          if ke_Value entry = [] then (st, Inl ErrKVKeyNotFound)
          else (case UnmarshalEntityState (gi_codec G) (ke_Value entry) of
             Inl err \<Rightarrow>
               (case errors_as_state err of
                  Some (r, _, c) \<Rightarrow>
                    (inventoryEntityPoison G ctx (Some \<lparr>sc_Reason = r, sc_EntityID = entityID, sc_Err = c\<rparr>) (ke_Revision entry) st,
                     Inl (ErrWrap ''unmarshal entity state: '' (stamp_entity entityID err) []))
                | None \<Rightarrow> (st, Inl (ErrWrap ''unmarshal entity state: '' err [])))
           | Inr state \<Rightarrow>
               (clearEntityPoisonOnValidRead entityID (ke_Revision entry) st, Inr (state, ke_Revision entry))))"

definition now_of :: "'s ingest_env \<Rightarrow> 's ingest \<Rightarrow> 's ingest \<times> time" where
  "now_of G st = on_world (gi_now G) st"

definition recordCanonicalEntityCommit ::
  "'s ingest_env \<Rightarrow> go_ctx \<Rightarrow> string \<Rightarrow> revision \<Rightarrow> nat \<Rightarrow> 's ingest \<Rightarrow> 's ingest" where
  "recordCanonicalEntityCommit G ctx entityID revision bytesWritten st =
     (let st = clearEntityPoisonOnCommit G ctx entityID revision st;
          st = invalidateEntityCacheEntry entityID st;
          st = st\<lparr>in_messagesProcessed := in_messagesProcessed st + 1,
                  in_bytesProcessed := in_bytesProcessed st + of_nat bytesWritten\<rparr>;
          (st, t) = now_of G st
      in st\<lparr>in_lastActivity := Some t\<rparr>)"

subsection \<open>The indexing profile\<close>

definition EntityIndexingProfile :: string where
  "EntityIndexingProfile = ''entity.indexing.profile''"

definition IsValidIndexingProfile :: "string \<Rightarrow> bool" where
  "IsValidIndexingProfile s \<longleftrightarrow> s = ''content'' \<or> s = ''control'' \<or> s = ''signal'' \<or> s = ''trace''"

definition removeIndexingProfileTriples :: "EntityState \<Rightarrow> EntityState" where
  "removeIndexingProfileTriples e = e\<lparr>es_Triples := filter (\<lambda>t. tr_Predicate t \<noteq> EntityIndexingProfile) (es_Triples e)\<rparr>"

definition appendIndexingProfileTriple :: "string \<Rightarrow> time \<Rightarrow> EntityState \<Rightarrow> EntityState" where
  "appendIndexingProfileTriple profile now e =
     e\<lparr>es_Triples := es_Triples e @ [\<lparr>tr_Subject = es_ID e, tr_Predicate = EntityIndexingProfile, tr_Object = GString profile,
        tr_Source = ''graph-ingest-indexing-profile'', tr_Timestamp = now, tr_Confidence = 1, tr_Context = [], tr_Datatype = [],
        tr_ExpiresAt = None\<rparr>]\<rparr>"

definition stampExplicitIndexingProfile ::
  "'s ingest_env \<Rightarrow> string \<Rightarrow> EntityState \<Rightarrow> 's ingest \<Rightarrow> 's ingest \<times> EntityState" where
  "stampExplicitIndexingProfile G profile e st =
     (if \<not> IsValidIndexingProfile profile then (st, e)
      else let (st, now) = now_of G st in (st, appendIndexingProfileTriple profile now (removeIndexingProfileTriples e)))"

fun keep_first_profile :: "bool \<Rightarrow> Triple list \<Rightarrow> Triple list" where
  "keep_first_profile kept [] = []"
| "keep_first_profile kept (t # ts) =
     (if tr_Predicate t = EntityIndexingProfile then
        if kept then keep_first_profile kept ts else t # keep_first_profile True ts
      else t # keep_first_profile kept ts)"

definition registeredIndexingProfile :: "'s ingest_env \<Rightarrow> MsgType \<Rightarrow> string \<times> bool" where
  "registeredIndexingProfile G mt =
     (case gi_registry G of
        None \<Rightarrow> (''control'', False)
      | Some reg \<Rightarrow>
          (case reg (MsgType_Key mt) of
             None \<Rightarrow> (''control'', False)
           | Some profile_floor \<Rightarrow> if profile_floor = [] then (''control'', False) else (profile_floor, True)))"

definition reconcileIndexingProfile :: "'s ingest_env \<Rightarrow> EntityState \<Rightarrow> 's ingest \<Rightarrow> 's ingest \<times> EntityState" where
  "reconcileIndexingProfile G e st =
     (let kept = list_ex (\<lambda>t. tr_Predicate t = EntityIndexingProfile) (es_Triples e);
          e = e\<lparr>es_Triples := keep_first_profile False (es_Triples e)\<rparr>
      in if kept then (st, e)
         else let (profile, floored) = registeredIndexingProfile G (es_MessageType e); (st, now) = now_of G st
              in (st, appendIndexingProfileTriple profile now e))"

subsection \<open>Create\<close>

fun subject_mismatch :: "string \<Rightarrow> nat \<Rightarrow> Triple list \<Rightarrow> go_error option" where
  "subject_mismatch i index [] = None"
| "subject_mismatch i index (t # ts) =
     (if tr_Subject t \<noteq> i then
        Some (ErrText (''triple['' @ itoa index @ ''] subject '' @ quoted (tr_Subject t) @ '' does not match entity '' @ quoted i))
      else subject_mismatch i (Suc index) ts)"

text \<open>The fields the handler fills in, and then the rest of it after its guards, with the entity the request
  stands for.\<close>

definition createStamp ::
  "'s ingest_env \<Rightarrow> CreateEntityRequest \<Rightarrow> EntityState \<Rightarrow> 's ingest \<Rightarrow> 's ingest \<times> EntityState" where
  "createStamp G request entity st =
     (let entity = (if es_Version entity = 0 then entity\<lparr>es_Version := 1\<rparr> else entity);
          (st, entity) = (if es_UpdatedAt entity = 0
             then let (st, now) = now_of G st in (st, entity\<lparr>es_UpdatedAt := now\<rparr>) else (st, entity));
          (st, entity) = stampExplicitIndexingProfile G (cr_IndexingProfile request) entity st
      in reconcileIndexingProfile G entity st)"

definition createCommit ::
  "'s ingest_env \<Rightarrow> go_ctx \<Rightarrow> CreateEntityRequest \<Rightarrow> EntityState \<Rightarrow> 's ingest \<Rightarrow> 's ingest \<times> (go_error + CreateEntityResponse)" where
  "createCommit G ctx request entity st =
     (let (st, entity) = createStamp G request entity st
      in case ValidateEntityStateContract (Some entity) of
           Some err \<Rightarrow> (st, Inl (rejectInvalid ''invalid_request'' err))
         | None \<Rightarrow>
             (case MarshalEntityState (gi_codec G) entity of
                Inl err \<Rightarrow> (st, Inl (rejectInvalid ''invalid_request'' err))
              | Inr encoded \<Rightarrow>
                  (case on_world (kv_Create (gi_bucket G) ctx (es_ID entity) encoded) st of
                     (st, Inl err) \<Rightarrow>
                       (st, Inl (if errors_is err ErrKVKeyExists
                          then rejectInvalidDetail ''entity_already_exists'' [(''entity'', DStr (es_ID entity))]
                                 (ErrText (''entity already exists: '' @ es_ID entity))
                          else rejectFromError err))
                   | (st, Inr revision) \<Rightarrow>
                       let st = recordCanonicalEntityCommit G ctx (es_ID entity) revision (length encoded) st;
                           st = updateSuffixIndex G ctx (es_ID entity) st
                       in (st, Inr \<lparr>cp_Outcome = MutationApplied, cp_Entity = entity, cp_KVRevision = revision,
                            cp_TraceID = cr_TraceID request, cp_RequestID = cr_RequestID request\<rparr>))))"

definition handleCanonicalCreate ::
  "'s ingest_env \<Rightarrow> CreateEntityRequest json_request \<Rightarrow> go_ctx \<Rightarrow> bytes \<Rightarrow> 's ingest \<Rightarrow> 's ingest \<times> (go_error + CreateEntityResponse)" where
  "handleCanonicalCreate G R ctx data st =
     (case decodeCanonicalMutation R data [''entity'', ''triples''] of
        Inl err \<Rightarrow> (st, Inl (rejectInvalid ''invalid_request'' (ErrWrap ''invalid request: '' err [])))
      | Inr request \<Rightarrow>
          (case cr_Entity request of
             None \<Rightarrow> (st, Inl (rejectInvalid ''invalid_request'' (ErrText ''entity cannot be nil'')))
           | Some e \<Rightarrow>
               if \<not> MsgType_IsValid (es_MessageType e) then
                 (st, Inl (rejectInvalid ''invalid_request'' (ErrText ''entity message_type must be valid'')))
               else (case requireRegisteredMessageType G e of
                  Some err \<Rightarrow> (st, Inl err)
                | None \<Rightarrow>
                    (case authorizeSubject G (es_ID e) False of
                       Some err \<Rightarrow> (st, Inl err)
                     | None \<Rightarrow>
                         if es_Triples e \<noteq> [] then
                           (st, Inl (rejectInvalid ''invalid_request'' (ErrText ''entity.triples is not admitted; use top-level triples'')))
                         else if cr_IndexingProfile request \<noteq> [] \<and> \<not> IsValidIndexingProfile (cr_IndexingProfile request) then
                           (st, Inl (rejectInvalid ''invalid_request''
                              (ErrText (''invalid indexing_profile '' @ quoted (cr_IndexingProfile request)))))
                         else (case subject_mismatch (es_ID e) 0 (cr_Triples request) of
                            Some err \<Rightarrow> (st, Inl (rejectInvalid ''invalid_request'' err))
                          | None \<Rightarrow> createCommit G ctx request (e\<lparr>es_Triples := cr_Triples request\<rparr>) st)))))"

subsection \<open>Reconcile\<close>

fun predicate_invalid :: "string list \<Rightarrow> go_error option" where
  "predicate_invalid [] = None"
| "predicate_invalid (p # ps) =
     (if \<not> IsValidPredicate p then Some (ErrText (''predicate '' @ quoted p @ '' is structurally invalid''))
      else predicate_invalid ps)"

fun desired_mismatch :: "string \<Rightarrow> string list \<Rightarrow> nat \<Rightarrow> Triple list \<Rightarrow> go_error option" where
  "desired_mismatch i predicates index [] = None"
| "desired_mismatch i predicates index (t # ts) =
     (if tr_Subject t \<noteq> i then
        Some (ErrText (''desired triple['' @ itoa index @ ''] subject '' @ quoted (tr_Subject t) @ '' does not match entity '' @ quoted i))
      else if \<not> List.member predicates (tr_Predicate t) then
        Some (ErrText (''desired triple['' @ itoa index @ ''] predicate '' @ quoted (tr_Predicate t) @ '' is outside reconciled set''))
      else desired_mismatch i predicates (Suc index) ts)"

text \<open>The predicate set of an accepted request is the list of its predicates.\<close>

definition validateCanonicalReconcileRequest :: "ReconcilePredicatesRequest \<Rightarrow> go_error + string list" where
  "validateCanonicalReconcileRequest request =
     (if rr_Predicates request = [] then Inl (ErrText ''predicates cannot be empty'')
      else case predicate_invalid (rr_Predicates request) of
        Some err \<Rightarrow> Inl err
      | None \<Rightarrow>
          (case desired_mismatch (rr_EntityID request) (rr_Predicates request) 0 (rr_Desired request) of
             Some err \<Rightarrow> Inl err
           | None \<Rightarrow>
               (case ValidateEntityStateContract (Some (zero_entity (rr_EntityID request) (rr_Desired request))) of
                  Some err \<Rightarrow> Inl err
                | None \<Rightarrow> Inr (rr_Predicates request))))"

definition sameReconcileTriple :: "go_text \<Rightarrow> Triple \<Rightarrow> Triple \<Rightarrow> bool" where
  "sameReconcileTriple T left right \<longleftrightarrow>
     SameAppendTuple T left right \<and> tr_Confidence left = tr_Confidence right \<and> tr_Timestamp left = tr_Timestamp right \<and>
     tr_ExpiresAt left = tr_ExpiresAt right"

fun dedupeReconcileLoop :: "go_text \<Rightarrow> Triple list \<Rightarrow> Triple list \<Rightarrow> Triple list" where
  "dedupeReconcileLoop T result [] = result"
| "dedupeReconcileLoop T result (candidate # rest) =
     dedupeReconcileLoop T
       (if list_ex (\<lambda>existing. sameReconcileTriple T existing candidate) result then result else result @ [candidate]) rest"

definition dedupeReconcileTriples :: "go_text \<Rightarrow> Triple list \<Rightarrow> Triple list" where
  "dedupeReconcileTriples T incoming = dedupeReconcileLoop T [] incoming"

fun countsFullTriple :: "go_text \<Rightarrow> (Triple \<times> nat) list \<Rightarrow> Triple \<Rightarrow> (Triple \<times> nat) list" where
  "countsFullTriple T [] triple = [(triple, 1)]"
| "countsFullTriple T ((t, n) # counts) triple =
     (if sameReconcileTriple T t triple then (t, Suc n) # counts else (t, n) # countsFullTriple T counts triple)"

text \<open>Take one occurrence out of the counts; \<open>None\<close> when there is none left.\<close>

fun takeFullTriple :: "go_text \<Rightarrow> (Triple \<times> nat) list \<Rightarrow> Triple \<Rightarrow> (Triple \<times> nat) list option" where
  "takeFullTriple T [] triple = None"
| "takeFullTriple T ((t, n) # counts) triple =
     (if n > 0 \<and> sameReconcileTriple T t triple then Some ((t, n - 1) # counts)
      else map_option (Cons (t, n)) (takeFullTriple T counts triple))"

fun takeAllTriples :: "go_text \<Rightarrow> (Triple \<times> nat) list \<Rightarrow> Triple list \<Rightarrow> bool" where
  "takeAllTriples T counts [] = True"
| "takeAllTriples T counts (t # ts) =
     (case takeFullTriple T counts t of None \<Rightarrow> False | Some counts \<Rightarrow> takeAllTriples T counts ts)"

definition selectedPredicatesEqual :: "go_text \<Rightarrow> Triple list \<Rightarrow> Triple list \<Rightarrow> string list \<Rightarrow> bool" where
  "selectedPredicatesEqual T current desired predicates =
     (let selected = filter (\<lambda>t. List.member predicates (tr_Predicate t)) current;
          counts = foldl (countsFullTriple T) [] selected
      in if length selected \<noteq> length desired then False else takeAllTriples T counts desired)"

definition reconcileSelectedPredicates :: "Triple list \<Rightarrow> Triple list \<Rightarrow> string list \<Rightarrow> Triple list" where
  "reconcileSelectedPredicates current desired predicates =
     filter (\<lambda>t. \<not> List.member predicates (tr_Predicate t)) current @ desired"

text \<open>The handler after its guards.\<close>

definition reconcileCommit ::
  "'s ingest_env \<Rightarrow> go_ctx \<Rightarrow> ReconcilePredicatesRequest \<Rightarrow> string list \<Rightarrow> 's ingest \<Rightarrow> 's ingest \<times> (go_error + ReconcilePredicatesResponse)" where
  "reconcileCommit G ctx request predicates st =
     (let i = rr_EntityID request; expected = rr_ExpectedRevision request; B = kv_bucket (gi_bucket G) in
      case fetchEntityState G ctx i st of
        (st, Inl err) \<Rightarrow>
          (st, Inl (if IsKVNotFoundError B err then rejectInvalidDetail ''entity_not_found'' [(''entity'', DStr i)] err
                    else rejectFromError err))
      | (st, Inr (current, revision)) \<Rightarrow>
          if revision \<noteq> expected then
            (st, Inl (rejectRevisionMismatch
               [(''entity'', DStr i), (''expected_revision'', drev expected), (''current_revision'', drev revision)]
               (ErrText (''revision mismatch: expected '' @ rev_text expected @ '', current '' @ rev_text revision))))
          else let desired = dedupeReconcileTriples (gi_text G) (rr_Desired request) in
            if selectedPredicatesEqual (gi_text G) (es_Triples current) desired predicates then
              (st, Inr \<lparr>rp_Outcome = MutationUnchanged, rp_Entity = current, rp_KVRevision = revision,
                 rp_TraceID = rr_TraceID request, rp_RequestID = rr_RequestID request\<rparr>)
            else
              (let (st, now) = now_of G st;
                   candidate = current\<lparr>es_Triples := reconcileSelectedPredicates (es_Triples current) desired predicates,
                     es_Version := es_Version current + 1, es_UpdatedAt := now\<rparr>
               in case MarshalEntityState (gi_codec G) candidate of
                    Inl err \<Rightarrow> (st, Inl (rejectFromError err))
                  | Inr encoded \<Rightarrow>
                      (case on_world (kv_Update (gi_bucket G) ctx i encoded expected) st of
                         (st, Inl err) \<Rightarrow>
                           (st, Inl (if errors_is err ErrKVRevisionMismatch
                              then rejectRevisionMismatch [(''entity'', DStr i), (''expected_revision'', drev expected)]
                                     (ErrText (''revision mismatch: concurrent modification of '' @ i))
                              else if IsKVNotFoundError B err then rejectInvalidDetail ''entity_not_found'' [(''entity'', DStr i)] err
                              else rejectFromError err))
                       | (st, Inr committedRevision) \<Rightarrow>
                           (recordCanonicalEntityCommit G ctx i committedRevision (length encoded) st,
                            Inr \<lparr>rp_Outcome = MutationApplied, rp_Entity = candidate, rp_KVRevision = committedRevision,
                              rp_TraceID = rr_TraceID request, rp_RequestID = rr_RequestID request\<rparr>))))"

text \<open>The handler on a decoded request.\<close>

definition reconcileRequest ::
  "'s ingest_env \<Rightarrow> go_ctx \<Rightarrow> ReconcilePredicatesRequest \<Rightarrow> 's ingest \<Rightarrow> 's ingest \<times> (go_error + ReconcilePredicatesResponse)" where
  "reconcileRequest G ctx request st =
     (case validateEntityID_error (rr_EntityID request) of
        Some err \<Rightarrow> (st, Inl (rejectFromError err))
      | None \<Rightarrow>
          (case authorizeSubject G (rr_EntityID request) False of
             Some err \<Rightarrow> (st, Inl err)
           | None \<Rightarrow>
               if rr_ExpectedRevision request = 0 then
                 (st, Inl (rejectInvalid ''invalid_request'' (ErrText ''expected_revision must be nonzero'')))
               else (case validateCanonicalReconcileRequest request of
                  Inl err \<Rightarrow> (st, Inl (rejectInvalid ''invalid_request'' err))
                | Inr predicates \<Rightarrow> reconcileCommit G ctx request predicates st)))"

definition handleCanonicalReconcile ::
  "'s ingest_env \<Rightarrow> ReconcilePredicatesRequest json_request \<Rightarrow> go_ctx \<Rightarrow> bytes \<Rightarrow> 's ingest \<Rightarrow>
     's ingest \<times> (go_error + ReconcilePredicatesResponse)" where
  "handleCanonicalReconcile G R ctx data st =
     (case decodeCanonicalMutation R data [''entity_id'', ''expected_revision'', ''predicates'', ''desired''] of
        Inl err \<Rightarrow> (st, Inl (rejectInvalid ''invalid_request'' (ErrWrap ''invalid request: '' err [])))
      | Inr request \<Rightarrow> reconcileRequest G ctx request st)"

subsection \<open>Delete\<close>

definition deleteEntityAtRevision :: "'s ingest_env \<Rightarrow> go_ctx \<Rightarrow> string \<Rightarrow> revision \<Rightarrow> 's ingest \<Rightarrow> 's ingest \<times> go_error option" where
  "deleteEntityAtRevision G ctx entityID revision st =
     (case validateEntityID_error entityID of
        Some err \<Rightarrow> (st, Some err)
      | None \<Rightarrow>
          (case authorizeSubject G entityID False of
             Some err \<Rightarrow> (st, Some err)
           | None \<Rightarrow>
               if revision = 0 then
                 (st, WrapInvalid (Some ErrInvalidData) ''Component'' ''deleteEntityAtRevision'' ''revision must be nonzero'')
               else (case on_world (DeleteAtRevision (gi_bucket G) ctx entityID revision) st of
                  (st, Some err) \<Rightarrow> (st\<lparr>in_errors := in_errors st + 1\<rparr>, Some err)
                | (st, None) \<Rightarrow>
                    let st = clearEntityPoisonOnDelete entityID st;
                        st = invalidateEntityCacheEntry entityID st;
                        st = removeSuffixIndex G ctx entityID st;
                        st = st\<lparr>in_messagesProcessed := in_messagesProcessed st + 1\<rparr>;
                        (st, t) = now_of G st
                    in (st\<lparr>in_lastActivity := Some t\<rparr>, None))))"

text \<open>The handler on a decoded request.\<close>

definition deleteRequest ::
  "'s ingest_env \<Rightarrow> go_ctx \<Rightarrow> DeleteEntityRequest \<Rightarrow> 's ingest \<Rightarrow> 's ingest \<times> (go_error + DeleteEntityResponse)" where
  "deleteRequest G ctx request st =
     (let i = dr_EntityID request; expected = dr_ExpectedRevision request; B = kv_bucket (gi_bucket G);
          notFound = rejectInvalidDetail ''entity_not_found'' [(''entity'', DStr i)] (ErrText (''entity not found: '' @ i)) in
      case validateEntityID_error i of
        Some err \<Rightarrow> (st, Inl (rejectFromError err))
      | None \<Rightarrow>
          (case authorizeSubject G i False of
             Some err \<Rightarrow> (st, Inl err)
           | None \<Rightarrow>
               if expected = 0 then (st, Inl (rejectInvalid ''invalid_request'' (ErrText ''expected_revision must be nonzero'')))
               else (case fetchEntityState G ctx i st of
                  (st, Inl err) \<Rightarrow> (st, Inl (if IsKVNotFoundError B err then notFound else rejectFromError err))
                | (st, Inr (_, currentRevision)) \<Rightarrow>
                    if currentRevision \<noteq> expected then
                      (st, Inl (rejectRevisionMismatch
                         [(''entity'', DStr i), (''expected_revision'', drev expected), (''current_revision'', drev currentRevision)]
                         (ErrText (''revision mismatch: expected '' @ rev_text expected @ '', current '' @ rev_text currentRevision))))
                    else (case deleteEntityAtRevision G ctx i expected st of
                       (st, Some err) \<Rightarrow>
                         (st, Inl (if errors_is err ErrKVRevisionMismatch
                            then rejectRevisionMismatch [(''entity'', DStr i), (''expected_revision'', drev expected)]
                                   (ErrText (''revision mismatch deleting '' @ i @ '' at '' @ rev_text expected))
                            else if IsKVNotFoundError B err then notFound
                            else rejectInternal err))
                     | (st, None) \<Rightarrow>
                         (st, Inr \<lparr>dp_EntityID = i, dp_Outcome = MutationApplied, dp_ExpectedRevision = expected,
                            dp_TraceID = dr_TraceID request, dp_RequestID = dr_RequestID request\<rparr>)))))"

definition handleCanonicalDelete ::
  "'s ingest_env \<Rightarrow> DeleteEntityRequest json_request \<Rightarrow> go_ctx \<Rightarrow> bytes \<Rightarrow> 's ingest \<Rightarrow> 's ingest \<times> (go_error + DeleteEntityResponse)" where
  "handleCanonicalDelete G R ctx data st =
     (case decodeCanonicalMutation R data [''entity_id'', ''expected_revision''] of
        Inl err \<Rightarrow> (st, Inl (rejectInvalid ''invalid_request'' (ErrWrap ''invalid request: '' err [])))
      | Inr request \<Rightarrow> deleteRequest G ctx request st)"

subsection \<open>Comparison of triple groups\<close>

text \<open>What the comparison looks at.\<close>

definition triple_key :: "go_text \<Rightarrow> Triple \<Rightarrow> string \<times> rat \<times> time \<times> time option" where
  "triple_key T t = (AppendIdentityKey T t, tr_Confidence t, tr_Timestamp t, tr_ExpiresAt t)"

lemma same_iff_key: "sameReconcileTriple T a b \<longleftrightarrow> triple_key T a = triple_key T b"
  by (auto simp: sameReconcileTriple_def triple_key_def SameAppendTuple_def)

fun count_bag :: "go_text \<Rightarrow> (Triple \<times> nat) list \<Rightarrow> (string \<times> rat \<times> time \<times> time option) multiset" where
  "count_bag T [] = {#}"
| "count_bag T ((t, n) # cs) = replicate_mset n (triple_key T t) + count_bag T cs"

lemma counts_bag: "count_bag T (countsFullTriple T cs t) = add_mset (triple_key T t) (count_bag T cs)"
  by (induction T cs t rule: countsFullTriple.induct) (auto simp: same_iff_key)

lemma foldl_counts_bag: "count_bag T (foldl (countsFullTriple T) cs ts) = count_bag T cs + mset (map (triple_key T) ts)"
  by (induction ts arbitrary: cs) (auto simp: counts_bag)

lemma take_bag_None: "takeFullTriple T cs t = None \<longleftrightarrow> triple_key T t \<notin># count_bag T cs"
  by (induction T cs t rule: takeFullTriple.induct) (auto simp: same_iff_key)

lemma take_bag_Some: "takeFullTriple T cs t = Some cs' \<Longrightarrow> count_bag T cs = add_mset (triple_key T t) (count_bag T cs')"
proof (induction T cs t arbitrary: cs' rule: takeFullTriple.induct)
  case (2 T t n cs triple)
  show ?case
  proof (cases "n > 0 \<and> sameReconcileTriple T t triple")
    case True
    then obtain m where "n = Suc m" by (cases n) auto
    then show ?thesis using 2(2) True by (auto simp: same_iff_key)
  next
    case False
    then show ?thesis using 2 by auto
  qed
qed simp

lemma take_all_bag: "takeAllTriples T cs ts \<longleftrightarrow> mset (map (triple_key T) ts) \<subseteq># count_bag T cs"
proof (induction ts arbitrary: cs)
  case (Cons t ts)
  show ?case
  proof (cases "takeFullTriple T cs t")
    case None
    then have "triple_key T t \<notin># count_bag T cs" by (simp add: take_bag_None)
    then show ?thesis using None by (auto dest: mset_subset_eqD)
  next
    case (Some cs')
    show ?thesis using Cons[of cs'] take_bag_Some[OF Some] Some by simp
  qed
qed simp

lemma submset_same_length: "length ys = length xs \<and> mset xs \<subseteq># mset ys \<longleftrightarrow> mset ys = mset xs"
proof
  assume "length ys = length xs \<and> mset xs \<subseteq># mset ys"
  then show "mset ys = mset xs" using mset_subset_size[of "mset xs" "mset ys"] by (auto simp: subset_mset.le_less)
qed (auto dest: mset_eq_length)

lemma selected_triples_mset:
  "selectedPredicatesEqual T current desired predicates \<longleftrightarrow>
     mset (map (triple_key T) (filter (\<lambda>t. tr_Predicate t \<in> set predicates) current)) = mset (map (triple_key T) desired)"
proof -
  let ?s = "filter (\<lambda>t. tr_Predicate t \<in> set predicates) current"
  have "selectedPredicatesEqual T current desired predicates \<longleftrightarrow>
      length ?s = length desired \<and> mset (map (triple_key T) desired) \<subseteq># mset (map (triple_key T) ?s)"
    unfolding selectedPredicatesEqual_def List.member_iff Let_def take_all_bag foldl_counts_bag by simp
  also have "\<dots> \<longleftrightarrow> mset (map (triple_key T) ?s) = mset (map (triple_key T) desired)"
    using submset_same_length[of "map (triple_key T) ?s" "map (triple_key T) desired"] unfolding length_map .
  finally show ?thesis .
qed

text \<open>C22. The counting comparison of two triple groups is multiset equality of what it looks at (the six
  identity fields, confidence, timestamp and expiry), for any number of repetitions and in any order.\<close>

theorem selected_predicates_equal_multiset:
  "selectedPredicatesEqual T current desired predicates \<longleftrightarrow>
     mset (map (triple_key T) (filter (\<lambda>t. tr_Predicate t \<in> set predicates) current)) = mset (map (triple_key T) desired)"
  by (rule selected_triples_mset)

lemma dedupe_loop_set: "set (dedupeReconcileLoop T acc ts) \<subseteq> set acc \<union> set ts"
proof (induction T acc ts rule: dedupeReconcileLoop.induct)
  case (2 T acc c ts)
  then show ?case by (auto split: if_splits)
qed simp

lemma dedupe_loop_keys: "triple_key T ` set (dedupeReconcileLoop T acc ts) = triple_key T ` (set acc \<union> set ts)"
proof (induction T acc ts rule: dedupeReconcileLoop.induct)
  case (2 T acc c ts)
  have "triple_key T c \<in> triple_key T ` set acc" if "list_ex (\<lambda>e. sameReconcileTriple T e c) acc"
    using that by (auto simp: list_ex_iff same_iff_key) (metis imageI)
  then show ?case using 2 by (auto simp: image_Un split: if_splits)
qed simp

lemma dedupe_reconcile_set: "set (dedupeReconcileTriples T ts) \<subseteq> set ts"
  "triple_key T ` set (dedupeReconcileTriples T ts) = triple_key T ` set ts"
  using dedupe_loop_set[of T "[]" ts] dedupe_loop_keys[of T "[]" ts] by (auto simp: dedupeReconcileTriples_def)

subsection \<open>What a reconcile commits\<close>

lemma committed_extend: "committed l l' k r v P \<Longrightarrow> prefix l' l'' \<Longrightarrow> committed l l'' k r v P"
proof -
  assume "committed l l' k r v P" "prefix l' l''"
  then obtain pre post zs where "l'' = (pre @ \<lparr>kc_rev = r, kc_key = k, kc_val = v\<rparr> # post) @ zs" "prefix l pre" "P pre"
    unfolding committed_def prefix_def by blast
  then show ?thesis unfolding committed_def by (intro exI[of _ pre] exI[of _ "post @ zs"]) simp
qed

lemma now_in_steady: "ingest_steady ok wl G \<Longrightarrow> in_steady ok wl st (fst (now_of G st))"
  by (auto simp: now_of_def ingest_steady_def intro: on_world_steady)

text \<open>The authority behind the handlers.\<close>

locale ingest_authority = cas_bucket B ok wlog + entity_json J
  for B :: "'s js_bucket" and ok wlog and J +
  fixes G :: "'s ingest_env"
  assumes bucket: "kv_bucket (gi_bucket G) = B" and codec: "gi_codec G = J"
    and quiet: "ingest_steady ok wlog G"
    and clock: "json_time_ok (snd (gi_now G s))"
begin

lemma fetch_in_steady: "fetchEntityState G ctx i st = (st', r) \<Longrightarrow> in_steady ok wlog st st'"
proof -
  assume a: "fetchEntityState G ctx i st = (st', r)"
  obtain st1 g where g: "on_world (kv_Get (gi_bucket G) ctx i) st = (st1, g)" by fastforce
  note 1 = get_in_steady[OF bucket g]
  have "in_steady ok wlog st (inventoryEntityPoison G ctx ce rv st1)" for ce rv
    using steady_trans[OF 1 inventory_in_steady[OF bucket]] .
  then show ?thesis using a 1
    by (auto simp: fetchEntityState_def g split: sum.splits if_splits option.splits)
qed

lemma fetch_entry:
  assumes "fetchEntityState G ctx i st = (st', Inr (e, rvn))" "ok (in_world st)"
  shows "\<exists>v. \<lparr>kc_rev = rvn, kc_key = i, kc_val = Some v\<rparr> \<in> set (wlog (in_world st')) \<and> UnmarshalEntityState J v = Inr e"
proof -
  obtain s1 g where g: "kv_Get (gi_bucket G) ctx i (in_world st) = (s1, g)" by fastforce
  obtain en where en: "g = Inr en" "ke_Revision en = rvn" "UnmarshalEntityState J (ke_Value en) = Inr e"
      "in_world st' = s1"
    using assms(1) by (auto simp: fetchEntityState_def on_world_def g codec split: sum.splits if_splits option.splits)
  then show ?thesis using kv_Get_entry[OF bucket assms(2), of ctx i s1 en] g by auto
qed

lemma record_in_steady: "in_steady ok wlog st (recordCanonicalEntityCommit G ctx i r n st)"
proof -
  let ?st1 = "clearEntityPoisonOnCommit G ctx i r st"
  let ?st2 = "invalidateEntityCacheEntry i ?st1"
  let ?st3 = "?st2\<lparr>in_messagesProcessed := in_messagesProcessed ?st2 + 1, in_bytesProcessed := in_bytesProcessed ?st2 + of_nat n\<rparr>"
  have "in_steady ok wlog st ?st3" using clear_commit_in_steady[OF bucket] by simp
  from steady_trans[OF this now_in_steady[OF quiet]] show ?thesis
    by (auto simp: recordCanonicalEntityCommit_def Let_def split: prod.splits)
qed

lemma native_candidate:
  assumes "native_entity e" "list_all native_triple des" "json_time_ok t"
  shows "native_entity (e\<lparr>es_Triples := reconcileSelectedPredicates (es_Triples e) (dedupeReconcileTriples T des) ps,
     es_Version := w, es_UpdatedAt := t\<rparr>)"
  using assms dedupe_reconcile_set(1)[of T des]
  by (auto simp: native_entity_def reconcileSelectedPredicates_def list_all_iff)

lemma reconcile_applied:
  assumes run: "reconcileCommit G ctx req ps st = (st', Inr resp)" "rp_Outcome resp = MutationApplied"
    and "ok (in_world st)" "list_all native_triple (rr_Desired req)"
  shows "\<exists>e0 b. committed (wlog (in_world st)) (wlog (in_world st')) (rr_EntityID req) (rp_KVRevision resp) (Some b)
      (\<lambda>pre. last_revision (rr_EntityID req) pre = rr_ExpectedRevision req \<and>
         (\<exists>b0. live_value (rr_EntityID req) pre = Some b0 \<and> UnmarshalEntityState J b0 = Inr e0)) \<and>
    UnmarshalEntityState J b = Inr (rp_Entity resp) \<and>
    rp_Entity resp = e0\<lparr>es_Triples := reconcileSelectedPredicates (es_Triples e0) (dedupeReconcileTriples (gi_text G) (rr_Desired req)) ps,
      es_Version := es_Version e0 + 1, es_UpdatedAt := es_UpdatedAt (rp_Entity resp)\<rparr>"
proof -
  let ?i = "rr_EntityID req" and ?des = "dedupeReconcileTriples (gi_text G) (rr_Desired req)"
  obtain st1 f where f: "fetchEntityState G ctx ?i st = (st1, f)" by fastforce
  then obtain e0 where f': "f = Inr (e0, rr_ExpectedRevision req)"
    using run by (cases f) (auto simp: reconcileCommit_def Let_def split: if_splits)
  have "\<not> selectedPredicatesEqual (gi_text G) (es_Triples e0) ?des ps"
    using run f f' by (auto simp: reconcileCommit_def Let_def)
  obtain st2 now where n: "now_of G st1 = (st2, now)" by fastforce
  define cand where "cand = e0\<lparr>es_Triples := reconcileSelectedPredicates (es_Triples e0) ?des ps,
    es_Version := es_Version e0 + 1, es_UpdatedAt := now\<rparr>"
  obtain b where b: "MarshalEntityState (gi_codec G) cand = Inr b"
    using run f f' n by (auto simp: reconcileCommit_def Let_def cand_def split: if_splits sum.splits)
  obtain s3 r where u: "kv_Update (gi_bucket G) ctx ?i b (rr_ExpectedRevision req) (in_world st2) = (s3, Inr r)"
      and resp: "rp_Entity resp = cand" "rp_KVRevision resp = r"
      and st': "st' = recordCanonicalEntityCommit G ctx ?i r (length b) (st2\<lparr>in_world := s3\<rparr>)"
    using run f f' n b by (auto simp: reconcileCommit_def Let_def cand_def on_world_def split: if_splits sum.splits prod.splits)
  have 1: "in_steady ok wlog st st1" using fetch_in_steady[OF f] .
  have 2: "in_steady ok wlog st1 st2" using now_in_steady[OF quiet, of st1] n by simp
  have ok: "ok (in_world st1)" "ok (in_world st2)" "prefix (wlog (in_world st)) (wlog (in_world st2))"
      "prefix (wlog (in_world st1)) (wlog (in_world st2))"
    using 1 2 \<open>ok (in_world st)\<close> steady_trans[OF 1 2] by (auto simp: steady_def)
  have ok3: "ok s3" using kv_Update_steady[OF bucket u] ok(2) by (simp add: steady_def)
  obtain v where v: "\<lparr>kc_rev = rr_ExpectedRevision req, kc_key = ?i, kc_val = Some v\<rparr> \<in> set (wlog (in_world st1))"
      "UnmarshalEntityState J v = Inr e0"
    using fetch_entry[of ctx ?i st st1 e0 "rr_ExpectedRevision req"] f f' \<open>ok (in_world st)\<close> by auto
  obtain pre post where p: "wlog s3 = pre @ \<lparr>kc_rev = r, kc_key = ?i, kc_val = Some b\<rparr> # post"
      "prefix (wlog (in_world st2)) pre" "last_revision ?i pre = rr_ExpectedRevision req"
    using kv_Update_commit[OF bucket ok(2) u] by (auto simp: committed_def)
  have "live_value ?i pre = Some v"
    using last_revision_value[OF log_ok[OF ok3], of pre "rr_ExpectedRevision req" ?i v] p v(1)
      set_mono_prefix[OF ok(4)] set_mono_prefix[OF p(2)] by auto
  then have c: "committed (wlog (in_world st)) (wlog s3) ?i r (Some b)
      (\<lambda>pre. last_revision ?i pre = rr_ExpectedRevision req \<and> (\<exists>b0. live_value ?i pre = Some b0 \<and> UnmarshalEntityState J b0 = Inr e0))"
    unfolding committed_def using p prefix_order.trans[OF ok(3) p(2)] v(2) by blast
  have "prefix (wlog s3) (wlog (in_world st'))"
    using record_in_steady[of "st2\<lparr>in_world := s3\<rparr>" ctx ?i r "length b"] ok3 st' by (simp add: steady_def)
  moreover have "json_time_ok now" using clock[of "in_world st1"] n by (auto simp: now_of_def on_world_def split: prod.splits)
  then have "native_entity cand"
    unfolding cand_def using native_candidate[OF _ assms(4)] Unmarshal_native[OF v(2)] by blast
  then have "UnmarshalEntityState J b = Inr cand" using Unmarshal_Marshal b codec by auto
  ultimately show ?thesis
    using committed_extend[OF c] resp by (intro exI[of _ e0] exI[of _ b]) (auto simp: cand_def)
qed

lemma reconcile_unchanged:
  assumes run: "reconcileCommit G ctx req ps st = (st', Inr resp)" "rp_Outcome resp \<noteq> MutationApplied"
    and ok: "ok (in_world st)"
  shows "\<exists>b0. \<lparr>kc_rev = rr_ExpectedRevision req, kc_key = rr_EntityID req, kc_val = Some b0\<rparr> \<in> set (wlog (in_world st')) \<and>
    UnmarshalEntityState J b0 = Inr (rp_Entity resp) \<and> rp_Outcome resp = MutationUnchanged \<and>
    rp_KVRevision resp = rr_ExpectedRevision req \<and>
    selectedPredicatesEqual (gi_text G) (es_Triples (rp_Entity resp)) (dedupeReconcileTriples (gi_text G) (rr_Desired req)) ps"
proof -
  let ?i = "rr_EntityID req" and ?des = "dedupeReconcileTriples (gi_text G) (rr_Desired req)"
  obtain st1 f where f: "fetchEntityState G ctx ?i st = (st1, f)" by fastforce
  then obtain e0 where f': "f = Inr (e0, rr_ExpectedRevision req)"
    using run by (cases f) (auto simp: reconcileCommit_def Let_def split: if_splits)
  have "selectedPredicatesEqual (gi_text G) (es_Triples e0) ?des ps"
    using run f f'
    by (auto simp: reconcileCommit_def Let_def on_world_def split: if_splits prod.splits sum.splits)
  then show ?thesis using run f f' fetch_entry[of ctx ?i st st1 e0 "rr_ExpectedRevision req"] ok
    by (auto simp: reconcileCommit_def Let_def)
qed

lemma stamp_in_steady:
  "createStamp G req e st = (st', e') \<Longrightarrow> in_steady ok wlog st st' \<and> es_ID e' = es_ID e"
  "stampExplicitIndexingProfile G p e st = (st', e') \<Longrightarrow> in_steady ok wlog st st' \<and> es_ID e' = es_ID e"
  "reconcileIndexingProfile G e st = (st', e') \<Longrightarrow> in_steady ok wlog st st' \<and> es_ID e' = es_ID e"
proof -
  have n: "in_steady ok wlog st st'" if "now_of G st = (st', t)" for st st' t
    using now_in_steady[OF quiet, of st] that by simp
  have 2: "in_steady ok wlog st st' \<and> es_ID e' = es_ID e" if "stampExplicitIndexingProfile G p e st = (st', e')" for p e st st' e'
    using that by (auto simp: stampExplicitIndexingProfile_def appendIndexingProfileTriple_def removeIndexingProfileTriples_def
        split: if_splits prod.splits dest: n)
  have 3: "in_steady ok wlog st st' \<and> es_ID e' = es_ID e" if "reconcileIndexingProfile G e st = (st', e')" for e st st' e'
    using that by (auto simp: reconcileIndexingProfile_def appendIndexingProfileTriple_def Let_def
        split: if_splits prod.splits dest: n)
  show "stampExplicitIndexingProfile G p e st = (st', e') \<Longrightarrow> in_steady ok wlog st st' \<and> es_ID e' = es_ID e"
    "reconcileIndexingProfile G e st = (st', e') \<Longrightarrow> in_steady ok wlog st st' \<and> es_ID e' = es_ID e"
    by (rule 2, assumption) (rule 3)
  show "createStamp G req e st = (st', e') \<Longrightarrow> in_steady ok wlog st st' \<and> es_ID e' = es_ID e"
    by (auto simp: createStamp_def Let_def split: prod.splits if_splits dest!: 2 3 n intro: steady_trans)
qed

lemma create_committed:
  assumes run: "createCommit G ctx req e st = (st', Inr resp)" and ok: "ok (in_world st)"
  shows "\<exists>b. committed (wlog (in_world st)) (wlog (in_world st')) (es_ID e) (cp_KVRevision resp) (Some b)
      (\<lambda>pre. live_value (es_ID e) pre = None) \<and> MarshalEntityState J (cp_Entity resp) = Inr b \<and>
      es_ID (cp_Entity resp) = es_ID e"
proof -
  obtain st1 e1 where p: "createStamp G req e st = (st1, e1)" by fastforce
  note 1 = stamp_in_steady(1)[OF p]
  have ok1: "ok (in_world st1)" "prefix (wlog (in_world st)) (wlog (in_world st1))" using 1 ok by (auto simp: steady_def)
  obtain b where b: "MarshalEntityState J e1 = Inr b"
    using run p by (auto simp: createCommit_def codec split: option.splits sum.splits)
  obtain s2 r where c: "kv_Create (gi_bucket G) ctx (es_ID e1) b (in_world st1) = (s2, Inr r)"
      and resp: "cp_Entity resp = e1" "cp_KVRevision resp = r"
      and st': "st' = updateSuffixIndex G ctx (es_ID e1) (recordCanonicalEntityCommit G ctx (es_ID e1) r (length b) (st1\<lparr>in_world := s2\<rparr>))"
    using run p b by (auto simp: createCommit_def codec on_world_def Let_def split: option.splits sum.splits prod.splits)
  have ok2: "ok s2" using kv_Create_steady[OF bucket c] ok1 by (simp add: steady_def)
  have "in_steady ok wlog (st1\<lparr>in_world := s2\<rparr>) st'"
    unfolding st' by (rule steady_trans[OF record_in_steady suffix_in_steady(1)[OF quiet]])
  then have "prefix (wlog s2) (wlog (in_world st'))" using ok2 by (simp add: steady_def)
  from committed_extend[OF committed_mono[OF kv_Create_commit[OF bucket ok1(1) c] ok1(2)] this]
  show ?thesis using resp b 1 by auto
qed

lemma delete_committed:
  assumes run: "deleteRequest G ctx req st = (st', Inr resp)" and ok: "ok (in_world st)"
  shows "\<exists>r. committed (wlog (in_world st)) (wlog (in_world st')) (dr_EntityID req) r None
      (\<lambda>pre. last_revision (dr_EntityID req) pre = dr_ExpectedRevision req)"
proof -
  let ?i = "dr_EntityID req" and ?x = "dr_ExpectedRevision req"
  obtain st1 f where f: "fetchEntityState G ctx ?i st = (st1, f)" by fastforce
  note 1 = fetch_in_steady[OF f]
  have ok1: "ok (in_world st1)" "prefix (wlog (in_world st)) (wlog (in_world st1))" using 1 ok by (auto simp: steady_def)
  obtain st2 where d: "deleteEntityAtRevision G ctx ?i ?x st1 = (st2, None)" "st' = st2"
    using run f by (auto simp: deleteRequest_def Let_def split: option.splits if_splits sum.splits prod.splits)
  obtain s2 where c: "DeleteAtRevision (gi_bucket G) ctx ?i ?x (in_world st1) = (s2, None)"
    and w: "in_steady ok wlog (st1\<lparr>in_world := s2\<rparr>) st'"
  proof -
    obtain s2 e where x: "DeleteAtRevision (gi_bucket G) ctx ?i ?x (in_world st1) = (s2, e)" by fastforce
    let ?a = "clearEntityPoisonOnDelete ?i (st1\<lparr>in_world := s2\<rparr>)"
    let ?b = "removeSuffixIndex G ctx ?i (invalidateEntityCacheEntry ?i ?a)"
    let ?c = "?b\<lparr>in_messagesProcessed := in_messagesProcessed ?b + 1\<rparr>"
    have "e = None" "in_world st' = in_world (fst (now_of G ?c))"
      using d x by (auto simp: deleteEntityAtRevision_def on_world_def Let_def WrapInvalid_def wrapClass_def
          split: option.splits if_splits prod.splits)
    moreover have "in_steady ok wlog (st1\<lparr>in_world := s2\<rparr>) ?b"
      using suffix_in_steady(2)[OF quiet, of "invalidateEntityCacheEntry ?i ?a" ctx ?i] by simp
    then have "in_steady ok wlog (st1\<lparr>in_world := s2\<rparr>) (fst (now_of G ?c))"
      using steady_trans[OF _ now_in_steady[OF quiet, of ?c]] by simp
    ultimately show ?thesis using that x by simp
  qed
  have "ok s2" using DeleteAtRevision_steady[OF bucket c] ok1 by (simp add: steady_def)
  then have "prefix (wlog s2) (wlog (in_world st'))" using w by (simp add: steady_def)
  moreover from DeleteAtRevision_commit[OF bucket ok1(1) c] obtain r
    where "committed (wlog (in_world st1)) (wlog s2) ?i r None (\<lambda>pre. last_revision ?i pre = ?x)" by blast
  ultimately show ?thesis using committed_extend committed_mono[OF _ ok1(2)] by meson
qed

end

lemma reconcile_handler_Inr:
  assumes "handleCanonicalReconcile G R ctx data st = (st', Inr resp)"
  shows "\<exists>req. jr_decode R data = Inr req \<and> rr_ExpectedRevision req \<noteq> 0 \<and>
    IsValidEntityID (rr_EntityID req) \<and> authorizeSubject G (rr_EntityID req) False = None \<and>
    (\<forall>t\<in>set (rr_Desired req). tr_Subject t = rr_EntityID req \<and> tr_Predicate t \<in> set (rr_Predicates req)) \<and>
    reconcileCommit G ctx req (rr_Predicates req) st = (st', Inr resp)"
proof -
  have d: "desired_mismatch i ps n ts = None \<Longrightarrow> \<forall>t\<in>set ts. tr_Subject t = i \<and> tr_Predicate t \<in> set ps" for i ps n ts
    by (induction i ps n ts rule: desired_mismatch.induct) (auto split: if_splits)
  have v: "validateCanonicalReconcileRequest req = Inr ps \<Longrightarrow> ps = rr_Predicates req \<and>
      (\<forall>t\<in>set (rr_Desired req). tr_Subject t = rr_EntityID req \<and> tr_Predicate t \<in> set (rr_Predicates req))" for req ps
    by (auto simp: validateCanonicalReconcileRequest_def split: if_splits option.splits dest: d)
  obtain req where "jr_decode R data = Inr req" "reconcileRequest G ctx req st = (st', Inr resp)"
    using assms by (auto simp: handleCanonicalReconcile_def decodeCanonicalMutation_def
        split: sum.splits json_trailing.splits option.splits)
  then show ?thesis
    by (intro exI[of _ req]) (auto simp: reconcileRequest_def validateEntityID_error_def IsValidEntityID_def
        split: option.splits if_splits sum.splits dest: v)
qed

subsection \<open>A deployment in memory\<close>

text \<open>One entity is stored, and a clock stands still.\<close>

definition wit_flying :: EntityState where
  "wit_flying = wit_entity\<lparr>es_Triples := [wit_triple ''drone.state.phase'' ''flying'' 1], es_Version := 2, es_UpdatedAt := 7\<rparr>"

definition wit_table :: "(EntityState \<times> bytes) list" where
  "wit_table = [(wit_entity, ''idle-state''), (wit_flying, ''flying-state'')]"

definition wit_ingest :: "mem_world ingest_env" where
  "wit_ingest =
     \<lparr>gi_bucket = wit_kv, gi_suffixBucket = None, gi_codec = table_codec wit_table, gi_text = sample_text, gi_org = ''acme'',
      gi_platform = ''prod'', gi_registry = Some (\<lambda>_. Some []), gi_now = (\<lambda>s. (s, 7)), gi_retry = wit_env,
      gi_ctx_err = (\<lambda>_ _. None)\<rparr>"

definition wit_ingest_state :: "mem_world ingest" where
  "wit_ingest_state =
     \<lparr>in_world = \<lparr>mw_log = [\<lparr>kc_rev = 1, kc_key = ''acme.prod.ops.fleet.drone.d1'', kc_val = Some ''idle-state''\<rparr>], mw_script = [], mw_own = 0\<rparr>,
      in_entityPoison = [], in_entityPoisonSize = 0, in_entityCache = None, in_cacheGen = (\<lambda>_. 0), in_suffixCache = None,
      in_errors = 0, in_messagesProcessed = 0, in_bytesProcessed = 0, in_lastActivity = None\<rparr>"

definition wit_reconcile :: ReconcilePredicatesRequest where
  "wit_reconcile =
     \<lparr>rr_EntityID = ''acme.prod.ops.fleet.drone.d1'', rr_ExpectedRevision = 1, rr_Predicates = [''drone.state.phase''],
      rr_Desired = [wit_triple ''drone.state.phase'' ''flying'' 1], rr_TraceID = [], rr_RequestID = []\<rparr>"

definition wit_request :: "'r \<Rightarrow> string list \<Rightarrow> 'r json_request" where
  "wit_request r present = \<lparr>jr_decode = (\<lambda>_. Inr r), jr_trailing = (\<lambda>_. TrailEOF), jr_fields = (\<lambda>_. Inr present)\<rparr>"

lemma wit_flying_ok: "native_entity wit_flying" "native_triple (wit_triple ''drone.state.phase'' ''flying'' 1)"
proof -
  have "valid_utf8 ''acme.prod.ops.fleet.drone.d1''" "valid_utf8 ''drone.state.phase''" "valid_utf8 ''flying''" "valid_utf8 ''test''"
    by code_simp+
  then show "native_entity wit_flying" "native_triple (wit_triple ''drone.state.phase'' ''flying'' 1)"
    by (simp_all add: native_entity_def wit_flying_def wit_entity_def zero_entity_def native_triple_def wit_triple_def json_time_ok_def
        f64_round_1 del: valid_utf8.simps(2))
qed

interpretation wit: ingest_authority mem_bucket mem_ok mw_log "table_codec wit_table" wit_ingest
proof (intro ingest_authority.intro ingest_authority_axioms.intro mem.cas_bucket_axioms)
  have "wit_entity \<noteq> wit_flying" by (simp add: wit_flying_def wit_entity_def zero_entity_def)
  then show "entity_json (table_codec wit_table)"
    by (intro table_codec_json) (use wit_entity_ok wit_flying_ok in \<open>auto simp: wit_table_def\<close>)
  show "kv_bucket (gi_bucket wit_ingest) = mem_bucket" "gi_codec wit_ingest = table_codec wit_table"
    by (simp_all add: wit_ingest_def wit_kv_def)
  show "ingest_steady mem_ok mw_log wit_ingest"
    using wit_steady(2) by (simp add: ingest_steady_def wit_ingest_def)
  show "json_time_ok (snd (gi_now wit_ingest s))" for s by (simp add: wit_ingest_def json_time_ok_def)
qed

subsection \<open>Exactness of the mutations\<close>

text \<open>C2. A reconcile that the handler acknowledges is exact.  Applied: the sequence of writes contains, right
  after the revision the client named, a write at the returned revision whose state is the one it
  replaces with the named predicates replaced by the deduplicated desired triples, every other
  triple kept in place, the version one up and everything else unchanged; it reads back as the
  returned entity.  Unchanged: nothing is claimed to be written, and the returned state is stored at
  the named revision and already holds exactly the desired triples under these predicates.  Every
  request that gets this far names a valid entity of this deployment and writes only its own
  predicates.\<close>

theorem reconcile_exact:
  assumes "ingest_authority B ok wlog J G" "ok (in_world st)"
    and "\<forall>req. jr_decode R data = Inr req \<longrightarrow> list_all native_triple (rr_Desired req)"
    and "handleCanonicalReconcile G R ctx data st = (st', Inr resp)"
  shows "\<exists>req e0 b0. jr_decode R data = Inr req \<and> UnmarshalEntityState J b0 = Inr e0 \<and>
    IsValidEntityID (rr_EntityID req) \<and> authorizeSubject G (rr_EntityID req) False = None \<and>
    (\<forall>t\<in>set (rr_Desired req). tr_Subject t = rr_EntityID req \<and> tr_Predicate t \<in> set (rr_Predicates req)) \<and>
    (if rp_Outcome resp = MutationApplied then
       (\<exists>b. committed (wlog (in_world st)) (wlog (in_world st')) (rr_EntityID req) (rp_KVRevision resp) (Some b)
          (\<lambda>pre. last_revision (rr_EntityID req) pre = rr_ExpectedRevision req \<and> live_value (rr_EntityID req) pre = Some b0) \<and>
        UnmarshalEntityState J b = Inr (rp_Entity resp)) \<and>
       rp_Entity resp = e0\<lparr>es_Triples := filter (\<lambda>t. tr_Predicate t \<notin> set (rr_Predicates req)) (es_Triples e0) @
           dedupeReconcileTriples (gi_text G) (rr_Desired req),
         es_Version := es_Version e0 + 1, es_UpdatedAt := es_UpdatedAt (rp_Entity resp)\<rparr>
     else
       rp_Outcome resp = MutationUnchanged \<and> rp_Entity resp = e0 \<and> rp_KVRevision resp = rr_ExpectedRevision req \<and>
       \<lparr>kc_rev = rr_ExpectedRevision req, kc_key = rr_EntityID req, kc_val = Some b0\<rparr> \<in> set (wlog (in_world st')) \<and>
       mset (map (triple_key (gi_text G)) (filter (\<lambda>t. tr_Predicate t \<in> set (rr_Predicates req)) (es_Triples e0))) =
       mset (map (triple_key (gi_text G)) (dedupeReconcileTriples (gi_text G) (rr_Desired req))))"
proof -
  obtain req where req: "jr_decode R data = Inr req" "IsValidEntityID (rr_EntityID req)"
      "authorizeSubject G (rr_EntityID req) False = None"
      "\<forall>t\<in>set (rr_Desired req). tr_Subject t = rr_EntityID req \<and> tr_Predicate t \<in> set (rr_Predicates req)"
      "reconcileCommit G ctx req (rr_Predicates req) st = (st', Inr resp)"
    using reconcile_handler_Inr[OF assms(4)] by blast
  have nat: "list_all native_triple (rr_Desired req)" using assms(3) req(1) by blast
  show ?thesis
  proof (cases "rp_Outcome resp = MutationApplied")
    case True
    from ingest_authority.reconcile_applied[OF assms(1) req(5) True assms(2) nat]
    obtain e0 b where r: "committed (wlog (in_world st)) (wlog (in_world st')) (rr_EntityID req) (rp_KVRevision resp) (Some b)
          (\<lambda>pre. last_revision (rr_EntityID req) pre = rr_ExpectedRevision req \<and>
            (\<exists>b0. live_value (rr_EntityID req) pre = Some b0 \<and> UnmarshalEntityState J b0 = Inr e0))"
        "UnmarshalEntityState J b = Inr (rp_Entity resp)"
        "rp_Entity resp = e0\<lparr>es_Triples := reconcileSelectedPredicates (es_Triples e0)
           (dedupeReconcileTriples (gi_text G) (rr_Desired req)) (rr_Predicates req),
           es_Version := es_Version e0 + 1, es_UpdatedAt := es_UpdatedAt (rp_Entity resp)\<rparr>"
      by blast
    then obtain b0 where "UnmarshalEntityState J b0 = Inr e0"
        "committed (wlog (in_world st)) (wlog (in_world st')) (rr_EntityID req) (rp_KVRevision resp) (Some b)
          (\<lambda>pre. last_revision (rr_EntityID req) pre = rr_ExpectedRevision req \<and> live_value (rr_EntityID req) pre = Some b0)"
      unfolding committed_def by blast
    then show ?thesis using req r(2,3) True by (auto simp: reconcileSelectedPredicates_def)
  next
    case False
    from ingest_authority.reconcile_unchanged[OF assms(1) req(5) False assms(2)] show ?thesis
      using req False by (auto simp: selected_triples_mset)
  qed
qed

definition wit_reconcile_run :: "mem_world ingest \<times> (go_error + ReconcilePredicatesResponse)" where
  "wit_reconcile_run =
     handleCanonicalReconcile wit_ingest (wit_request wit_reconcile [''entity_id'', ''expected_revision'', ''predicates'', ''desired''])
       (Ctx 0) [] wit_ingest_state"

lemma wit_reconcile_result:
  "snd wit_reconcile_run =
     Inr \<lparr>rp_Outcome = MutationApplied, rp_Entity = wit_flying, rp_KVRevision = 2, rp_TraceID = [], rp_RequestID = []\<rparr>"
  by code_simp

theorem reconcile_exact_witness:
  "\<exists>b0 b. committed (mw_log (in_world wit_ingest_state)) (mw_log (in_world (fst wit_reconcile_run))) ''acme.prod.ops.fleet.drone.d1'' 2 (Some b)
       (\<lambda>pre. last_revision ''acme.prod.ops.fleet.drone.d1'' pre = 1 \<and> live_value ''acme.prod.ops.fleet.drone.d1'' pre = Some b0) \<and>
     UnmarshalEntityState (table_codec wit_table) b = Inr wit_flying"
proof -
  let ?R = "wit_request wit_reconcile [''entity_id'', ''expected_revision'', ''predicates'', ''desired'']"
  have "mem_ok (in_world wit_ingest_state)" by (simp add: mem_ok_def wit_ingest_state_def log_ok_def)
  moreover have "\<forall>req. jr_decode ?R [] = Inr req \<longrightarrow> list_all native_triple (rr_Desired req)"
    using wit_flying_ok(2) by (simp add: wit_request_def wit_reconcile_def)
  moreover have "handleCanonicalReconcile wit_ingest ?R (Ctx 0) [] wit_ingest_state = (fst wit_reconcile_run,
      Inr \<lparr>rp_Outcome = MutationApplied, rp_Entity = wit_flying, rp_KVRevision = 2, rp_TraceID = [], rp_RequestID = []\<rparr>)"
    using wit_reconcile_result by (metis prod.collapse wit_reconcile_run_def)
  moreover have "jr_decode ?R [] = Inr wit_reconcile" by (simp add: wit_request_def)
  ultimately show ?thesis
    using reconcile_exact[OF wit.ingest_authority_axioms, of wit_ingest_state ?R "[]" "Ctx 0"] by (auto simp: wit_reconcile_def)
qed

text \<open>C19. Create and delete are placed exactly where they claim to be: an acknowledged create is a write at the
  returned revision of a key that had no live value, and its bytes are the write gate's encoding of
  the returned entity, which keeps the requested identity; an acknowledged delete is a tombstone
  placed immediately after the revision the client named, so that it removes no state the client has
  not seen.\<close>

theorem create_delete_exact:
  assumes "ingest_authority B ok wlog J G" "ok (in_world st)"
  shows "(handleCanonicalCreate G R ctx data st = (st', Inr resp) \<longrightarrow>
      (\<exists>req e b. jr_decode R data = Inr req \<and> cr_Entity req = Some e \<and>
         committed (wlog (in_world st)) (wlog (in_world st')) (es_ID e) (cp_KVRevision resp) (Some b)
           (\<lambda>pre. live_value (es_ID e) pre = None) \<and>
         MarshalEntityState J (cp_Entity resp) = Inr b \<and> es_ID (cp_Entity resp) = es_ID e)) \<and>
    (handleCanonicalDelete G R' ctx data st = (st', Inr dresp) \<longrightarrow>
      (\<exists>req r. jr_decode R' data = Inr req \<and>
         committed (wlog (in_world st)) (wlog (in_world st')) (dr_EntityID req) r None
           (\<lambda>pre. last_revision (dr_EntityID req) pre = dr_ExpectedRevision req)))"
proof (intro conjI impI)
  assume "handleCanonicalCreate G R ctx data st = (st', Inr resp)"
  then obtain req e where "jr_decode R data = Inr req" "cr_Entity req = Some e"
      "createCommit G ctx req (e\<lparr>es_Triples := cr_Triples req\<rparr>) st = (st', Inr resp)"
    by (auto simp: handleCanonicalCreate_def decodeCanonicalMutation_def
        split: sum.splits json_trailing.splits option.splits if_splits)
  with ingest_authority.create_committed[OF assms(1) this(3) assms(2)]
  show "\<exists>req e b. jr_decode R data = Inr req \<and> cr_Entity req = Some e \<and>
         committed (wlog (in_world st)) (wlog (in_world st')) (es_ID e) (cp_KVRevision resp) (Some b)
           (\<lambda>pre. live_value (es_ID e) pre = None) \<and>
         MarshalEntityState J (cp_Entity resp) = Inr b \<and> es_ID (cp_Entity resp) = es_ID e"
    by auto
next
  assume "handleCanonicalDelete G R' ctx data st = (st', Inr dresp)"
  then obtain req where "jr_decode R' data = Inr req" "deleteRequest G ctx req st = (st', Inr dresp)"
    by (auto simp: handleCanonicalDelete_def decodeCanonicalMutation_def
        split: sum.splits json_trailing.splits option.splits)
  with ingest_authority.delete_committed[OF assms(1) this(2) assms(2)]
  show "\<exists>req r. jr_decode R' data = Inr req \<and>
         committed (wlog (in_world st)) (wlog (in_world st')) (dr_EntityID req) r None
           (\<lambda>pre. last_revision (dr_EntityID req) pre = dr_ExpectedRevision req)"
    by blast
qed

definition wit_delete :: "DeleteEntityRequest json_request" where
  "wit_delete = wit_request \<lparr>dr_EntityID = ''acme.prod.ops.fleet.drone.d1'', dr_ExpectedRevision = 1, dr_TraceID = [], dr_RequestID = []\<rparr>
     [''entity_id'', ''expected_revision'']"

definition wit_delete_run :: "mem_world ingest \<times> (go_error + DeleteEntityResponse)" where
  "wit_delete_run = handleCanonicalDelete wit_ingest wit_delete (Ctx 0) [] wit_ingest_state"

lemma wit_delete_result: "\<exists>resp. snd wit_delete_run = Inr resp"
proof -
  have "snd wit_delete_run = Inr \<lparr>dp_EntityID = ''acme.prod.ops.fleet.drone.d1'', dp_Outcome = MutationApplied,
      dp_ExpectedRevision = 1, dp_TraceID = [], dp_RequestID = []\<rparr>" by code_simp
  then show ?thesis by blast
qed

theorem create_delete_exact_witness:
  "\<exists>r. committed (mw_log (in_world wit_ingest_state)) (mw_log (in_world (fst wit_delete_run))) ''acme.prod.ops.fleet.drone.d1'' r None
     (\<lambda>pre. last_revision ''acme.prod.ops.fleet.drone.d1'' pre = 1)"
proof -
  have "mem_ok (in_world wit_ingest_state)" by (simp add: mem_ok_def wit_ingest_state_def log_ok_def)
  moreover obtain resp where "handleCanonicalDelete wit_ingest wit_delete (Ctx 0) [] wit_ingest_state = (fst wit_delete_run, Inr resp)"
    using wit_delete_result by (metis prod.collapse wit_delete_run_def)
  ultimately show ?thesis
    using create_delete_exact[OF wit.ingest_authority_axioms, of wit_ingest_state _ "Ctx 0" "[]" "fst wit_delete_run" _ wit_delete resp]
    by (auto simp: wit_delete_def wit_request_def)
qed

end
