(* ===== verification/Graph_Append.thy ===== *)
theory Graph_Append
  imports Graph_Ingest
begin

text \<open>
  The two read-modify-write lanes of graph-ingest that retry on conflicts
  (\<open>processor/graph-ingest/component.go\<close>): the append of triples to existing entities
  (\<open>addTripleLane\<close>, \<open>addTriplesLane\<close>, and the handler \<open>handleCanonicalAppend\<close> of
  \<open>canonical_mutations.go\<close>), and the merge of an arriving entity (\<open>mergeEntityOnLane\<close>).  Their closures
  run inside \<open>UpdateWithRetryRev\<close> of \<open>Kv_Store\<close> and change the component's state and a captured
  variable, so the store is lifted to that larger state.  The main lemmas say what an acknowledged
  append committed and over which state, and that every subject of a batch gets exactly one outcome.
\<close>

subsection \<open>The store on the component's state\<close>

text \<open>The state of a closure: the component and what the closure captures.\<close>

definition cap_op :: "('s \<Rightarrow> 's \<times> 'a) \<Rightarrow> 's ingest \<times> 'c \<Rightarrow> ('s ingest \<times> 'c) \<times> 'a" where
  "cap_op f w = (let (s, a) = f (in_world (fst w)) in (((fst w)\<lparr>in_world := s\<rparr>, snd w), a))"

definition cap_bucket :: "'s js_bucket \<Rightarrow> ('s ingest \<times> 'c) js_bucket" where
  "cap_bucket B =
     \<lparr>js_ErrKeyNotFound = js_ErrKeyNotFound B, js_ErrKeyDeleted = js_ErrKeyDeleted B, js_ErrNoKeysFound = js_ErrNoKeysFound B,
      js_Get = (\<lambda>ctx k. cap_op (js_Get B ctx k)), js_Put = (\<lambda>ctx k v. cap_op (js_Put B ctx k v)),
      js_Create = (\<lambda>ctx k v. cap_op (js_Create B ctx k v)), js_Update = (\<lambda>ctx k v r. cap_op (js_Update B ctx k v r)),
      js_Delete = (\<lambda>ctx k r. cap_op (js_Delete B ctx k r)), js_Keys = (\<lambda>ctx. cap_op (js_Keys B ctx)),
      js_Status = (\<lambda>ctx. cap_op (js_Status B ctx))\<rparr>"

definition cap_store :: "'s kv_store \<Rightarrow> ('s ingest \<times> 'c) kv_store" where
  "cap_store kv = \<lparr>kv_bucket = cap_bucket (kv_bucket kv), kv_options = kv_options kv\<rparr>"

definition cap_env :: "(go_ctx \<Rightarrow> 's retry_env) \<Rightarrow> go_ctx \<Rightarrow> ('s ingest \<times> 'c) retry_env" where
  "cap_env env c =
     \<lparr>re_ctx_err = (\<lambda>w. re_ctx_err (env c) (in_world (fst w))), re_jitter = (\<lambda>d. cap_op (re_jitter (env c) d)),
      re_sleep = (\<lambda>d. cap_op (re_sleep (env c) d))\<rparr>"

subsection \<open>The append lane\<close>

definition errNoOpAddDuplicate :: go_error where
  "errNoOpAddDuplicate = Sentinel ''add triple: every submitted triple is already stored (no-op)''"

text \<open>The closure; the captured variable is \<open>groupSuppressed\<close>.\<close>

definition append_update :: "'s ingest_env \<Rightarrow> go_ctx \<Rightarrow> string \<Rightarrow> Triple list \<Rightarrow> ('s ingest \<times> int) update_fn" where
  "append_update G ctx subject batch current w =
     (let (st, groupSuppressed) = w in
      if current = [] then (w, Inl (ErrNonRetryable ErrKVKeyNotFound))
      else case UnmarshalEntityStateTrusted (gi_codec G) current of
        Inl err \<Rightarrow>
          let (st, cerr) = classifyStoredStateRMWError G ctx subject current err st in ((st, groupSuppressed), Inl cerr)
      | Inr entity \<Rightarrow>
          let (survivors, suppressed) = DedupeAppendTriples (gi_text G) (es_Triples entity) batch in
          if survivors = [] then ((st, suppressed), Inl errNoOpAddDuplicate)
          else
            let (st, now) = now_of G st;
                entity = entity\<lparr>es_Triples := es_Triples entity @ survivors, es_Version := es_Version entity + 1, es_UpdatedAt := now\<rparr>
            in case MarshalEntityState (gi_codec G) entity of
                 Inl err \<Rightarrow>
                   let (st, cerr) = classifyStoredStateRMWError G ctx subject current err st in ((st, suppressed), Inl cerr)
               | Inr data \<Rightarrow> ((st, suppressed), Inr data))"

text \<open>One subject's read-modify-write.\<close>

definition append_cas ::
  "'s ingest_env \<Rightarrow> go_ctx \<Rightarrow> string \<Rightarrow> Triple list \<Rightarrow> 's ingest \<Rightarrow> ('s ingest \<times> int) \<times> revision go_res" where
  "append_cas G ctx subject batch st =
     UpdateWithRetryRev (cap_env (gi_retry G)) (cap_store (gi_bucket G)) ctx subject (append_update G ctx subject batch) (st, 0)"

text \<open>A single triple: whether it was a duplicate, and the committed revision.\<close>

definition addTripleLane :: "'s ingest_env \<Rightarrow> go_ctx \<Rightarrow> Triple \<Rightarrow> 's ingest \<Rightarrow> 's ingest \<times> (bool \<times> revision) go_res" where
  "addTripleLane G ctx triple st =
     (let subject = tr_Subject triple in
      case ValidateEntityStateContract (Some (zero_entity subject [triple])) of
        Some contractErr \<Rightarrow>
          (st, Fail (the (WrapInvalid (Some contractErr) ''Component'' ''AddTriple'' ''validate triple contract'')))
      | None \<Rightarrow>
          (case authorizeSubject G subject False of
             Some authErr \<Rightarrow> (st, Fail authErr)
           | None \<Rightarrow>
               (case gi_ctx_err G ctx (in_world st) of
                  Some ctxErr \<Rightarrow> (st, Fail (Wrap ctxErr ''Component'' ''AddTriple'' ''context cancelled''))
                | None \<Rightarrow>
                    (case append_cas G ctx subject [triple] st of
                       ((st, _), Panic p) \<Rightarrow> (st, Panic p)
                     | ((st, _), Fail casErr) \<Rightarrow>
                         if errors_is casErr errNoOpAddDuplicate then (st, Ok (True, 0))
                         else (st\<lparr>in_errors := in_errors st + 1\<rparr>, Fail (Wrap casErr ''Component'' ''AddTriple'' ''CAS update''))
                     | ((st, _), Ok casRevision) \<Rightarrow>
                         (invalidateEntityCacheEntry subject (clearEntityPoisonOnCommit G ctx subject 0 st),
                          Ok (False, casRevision))))))"

record addTriplesResult =
  at_Written :: int
  at_Deduplicated :: int
  at_FailedSubjects :: "(string \<times> string) list"
  at_NotFoundSubjects :: "string list"
  at_SubjectErrors :: "(string \<times> go_error) list"
  at_UnchangedSubjects :: "string list"
  at_CommittedRevisions :: "(string \<times> revision) list"

definition emptyResult :: addTriplesResult where
  "emptyResult = \<lparr>at_Written = 0, at_Deduplicated = 0, at_FailedSubjects = [], at_NotFoundSubjects = [], at_SubjectErrors = [],
     at_UnchangedSubjects = [], at_CommittedRevisions = []\<rparr>"

text \<open>The variables of the loop over the subjects.\<close>

record append_acc =
  aa_result :: addTriplesResult
  aa_allAbsences :: bool
  aa_poisonErr :: "go_error option"

definition accCancelled :: "go_error \<Rightarrow> string list \<Rightarrow> append_acc \<Rightarrow> append_acc" where
  "accCancelled ctxErr subjects a =
     a\<lparr>aa_result := (aa_result a)
         \<lparr>at_FailedSubjects := foldl (\<lambda>m s. map_put s (Error ctxErr) m) (at_FailedSubjects (aa_result a)) subjects,
          at_SubjectErrors := foldl (\<lambda>m s. map_put s ctxErr m) (at_SubjectErrors (aa_result a)) subjects\<rparr>,
       aa_allAbsences := False\<rparr>"

definition accUnchanged :: "string \<Rightarrow> int \<Rightarrow> append_acc \<Rightarrow> append_acc" where
  "accUnchanged subject groupSuppressed a =
     a\<lparr>aa_result := (aa_result a)
         \<lparr>at_Deduplicated := at_Deduplicated (aa_result a) + groupSuppressed,
          at_UnchangedSubjects := List.insert subject (at_UnchangedSubjects (aa_result a))\<rparr>\<rparr>"

definition accFailed :: "string \<Rightarrow> go_error \<Rightarrow> append_acc \<Rightarrow> append_acc" where
  "accFailed subject casErr a =
     (let absent = errors_is casErr ErrKVKeyNotFound; res = aa_result a;
          res = res\<lparr>at_FailedSubjects := map_put subject (Error casErr) (at_FailedSubjects res)\<rparr>;
          res = (if absent then res\<lparr>at_NotFoundSubjects := List.insert subject (at_NotFoundSubjects res)\<rparr>
                 else res\<lparr>at_SubjectErrors := map_put subject casErr (at_SubjectErrors res)\<rparr>)
      in a\<lparr>aa_result := res,
           aa_poisonErr := (if aa_poisonErr a = None \<and> errors_as_state casErr \<noteq> None then Some casErr else aa_poisonErr a),
           aa_allAbsences := aa_allAbsences a \<and> absent\<rparr>)"

definition accCommitted :: "string \<Rightarrow> revision \<Rightarrow> nat \<Rightarrow> int \<Rightarrow> append_acc \<Rightarrow> append_acc" where
  "accCommitted subject casRevision groupSize groupSuppressed a =
     a\<lparr>aa_result := (aa_result a)
         \<lparr>at_Deduplicated := at_Deduplicated (aa_result a) + groupSuppressed,
          at_Written := at_Written (aa_result a) + (int groupSize - groupSuppressed),
          at_CommittedRevisions := map_put subject casRevision (at_CommittedRevisions (aa_result a))\<rparr>\<rparr>"

fun appendLoop ::
  "'s ingest_env \<Rightarrow> go_ctx \<Rightarrow> Triple list \<Rightarrow> string list \<Rightarrow> append_acc \<Rightarrow> 's ingest \<Rightarrow> 's ingest \<times> append_acc go_res" where
  "appendLoop G ctx triples [] a st = (st, Ok a)"
| "appendLoop G ctx triples (subject # rest) a st =
     (case gi_ctx_err G ctx (in_world st) of
        Some ctxErr \<Rightarrow> (st\<lparr>in_errors := in_errors st + 1\<rparr>, Ok (accCancelled ctxErr (subject # rest) a))
      | None \<Rightarrow>
          let batch = filter (\<lambda>t. tr_Subject t = subject) triples in
          (case append_cas G ctx subject batch st of
             ((st, groupSuppressed), Panic p) \<Rightarrow> (st, Panic p)
           | ((st, groupSuppressed), Fail casErr) \<Rightarrow>
               if errors_is casErr errNoOpAddDuplicate
               then appendLoop G ctx triples rest (accUnchanged subject groupSuppressed a) st
               else appendLoop G ctx triples rest (accFailed subject casErr a) (st\<lparr>in_errors := in_errors st + 1\<rparr>)
           | ((st, groupSuppressed), Ok casRevision) \<Rightarrow>
               appendLoop G ctx triples rest (accCommitted subject casRevision (length batch) groupSuppressed a)
                 (invalidateEntityCacheEntry subject (clearEntityPoisonOnCommit G ctx subject 0 st))))"

definition distinctSortedSubjects :: "Triple list \<Rightarrow> string list" where
  "distinctSortedSubjects triples = sort (remdups (map tr_Subject triples))"

fun empty_subject :: "nat \<Rightarrow> Triple list \<Rightarrow> nat option" where
  "empty_subject index [] = None"
| "empty_subject index (t # ts) = (if tr_Subject t = [] then Some index else empty_subject (Suc index) ts)"

definition strings_text :: "string list \<Rightarrow> string" where
  "strings_text xs = ''['' @ string_join '' '' xs @ '']''"

text \<open>The error of a batch in which subjects failed.\<close>

definition batchError :: "append_acc \<Rightarrow> nat \<Rightarrow> go_error" where
  "batchError a subjectCount =
     (let failed = sort (map fst (at_FailedSubjects (aa_result a)));
          msg = ''CAS update failed for '' @ itoa (length failed) @ ''/'' @ itoa subjectCount @ '' subjects: '' @ strings_text failed
      in if aa_allAbsences a then ErrWrap (msg @ '': '') ErrKVKeyNotFound []
         else case aa_poisonErr a of
           Some err \<Rightarrow> ErrWrap (msg @ '': '') err []
         | None \<Rightarrow> ErrText msg)"

definition addTriplesLane ::
  "'s ingest_env \<Rightarrow> go_ctx \<Rightarrow> Triple list \<Rightarrow> 's ingest \<Rightarrow> 's ingest \<times> (addTriplesResult \<times> go_error option) go_res" where
  "addTriplesLane G ctx triples st =
     (if triples = [] then (st, Ok (emptyResult, None))
      else case empty_subject 0 triples of
        Some index \<Rightarrow>
          (st, Ok (emptyResult, WrapInvalid (Some ErrInvalidData) ''Component'' ''AddTriples''
             (''triple['' @ itoa index @ ''] subject cannot be empty'')))
      | None \<Rightarrow>
          (case ValidateEntityStateContract (Some (zero_entity (tr_Subject (hd triples)) triples)) of
             Some contractErr \<Rightarrow>
               (st, Ok (emptyResult, WrapInvalid (Some contractErr) ''Component'' ''AddTriples'' ''validate batch contract''))
           | None \<Rightarrow>
               (case first_some (\<lambda>t. authorizeSubject G (tr_Subject t) False) triples of
                  Some authErr \<Rightarrow> (st, Ok (emptyResult, Some authErr))
                | None \<Rightarrow>
                    (case gi_ctx_err G ctx (in_world st) of
                       Some ctxErr \<Rightarrow> (st, Ok (emptyResult, Some (Wrap ctxErr ''Component'' ''AddTriples'' ''context cancelled'')))
                     | None \<Rightarrow>
                         let subjects = distinctSortedSubjects triples in
                         (case appendLoop G ctx triples subjects \<lparr>aa_result = emptyResult, aa_allAbsences = True, aa_poisonErr = None\<rparr> st of
                            (st, Panic p) \<Rightarrow> (st, Panic p)
                          | (st, Fail e) \<Rightarrow> (st, Fail e)
                          | (st, Ok a) \<Rightarrow>
                              (st, Ok (aa_result a,
                                 if at_FailedSubjects (aa_result a) = [] then None
                                 else Some (Wrap (batchError a (length subjects)) ''Component'' ''AddTriples'' ''batch CAS partial failure''))))))))"

subsection \<open>The append handler\<close>

text \<open>The iteration order of the map of groups is a parameter.\<close>

fun validateGroups :: "Triple list \<Rightarrow> string list \<Rightarrow> go_error option" where
  "validateGroups triples [] = None"
| "validateGroups triples (subject # rest) =
     (case ValidateEntityStateContract (Some (zero_entity subject (filter (\<lambda>t. tr_Subject t = subject) triples))) of
        Some err \<Rightarrow> Some err
      | None \<Rightarrow> validateGroups triples rest)"

definition validateCanonicalAppendRequest :: "(string list \<Rightarrow> string list) \<Rightarrow> Triple list \<Rightarrow> go_error option" where
  "validateCanonicalAppendRequest order triples = validateGroups triples (order (remdups (map tr_Subject triples)))"

definition outcome_count :: "addTriplesResult \<Rightarrow> string \<Rightarrow> nat" where
  "outcome_count result subject =
     (if map_of (at_CommittedRevisions result) subject \<noteq> None then 1 else 0) +
     (if List.member (at_UnchangedSubjects result) subject then 1 else 0) +
     (if List.member (at_NotFoundSubjects result) subject then 1 else 0) +
     (if map_of (at_SubjectErrors result) subject \<noteq> None then 1 else 0)"

fun validateCanonicalAppendAccounting :: "string list \<Rightarrow> addTriplesResult \<Rightarrow> go_error option" where
  "validateCanonicalAppendAccounting [] result = None"
| "validateCanonicalAppendAccounting (subject # rest) result =
     (if outcome_count result subject \<noteq> 1 then
        Some (ErrText (''append subject '' @ quoted subject @ '' has '' @ itoa (outcome_count result subject) @ '' outcomes; want exactly one''))
      else validateCanonicalAppendAccounting rest result)"

text \<open>One subject's entry of the response; \<open>None\<close> when no outcome is accounted.\<close>

definition appendSubject ::
  "'s ingest_env \<Rightarrow> go_ctx \<Rightarrow> addTriplesResult \<Rightarrow> string \<Rightarrow> 's ingest \<Rightarrow> 's ingest \<times> AppendSubjectResult option" where
  "appendSubject G ctx result subject st =
     (let entry = (\<lambda>outcome r failure. \<lparr>as_EntityID = subject, as_Outcome = outcome, as_KVRevision = r, as_Error = failure\<rparr>) in
      case map_of (at_CommittedRevisions result) subject of
        Some revision \<Rightarrow> (st, Some (entry MutationApplied revision None))
      | None \<Rightarrow>
          if List.member (at_NotFoundSubjects result) subject then (st, Some (entry MutationEntityNotFound 0 None))
          else (case map_of (at_SubjectErrors result) subject of
             Some subjectErr \<Rightarrow> (st, Some (entry MutationFailed 0 (Some (canonicalAppendFailure subjectErr))))
           | None \<Rightarrow>
               if \<not> List.member (at_UnchangedSubjects result) subject then (st, None)
               else (case fetchEntityState G ctx subject st of
                  (st, Inl readErr) \<Rightarrow>
                    (st, Some (if IsKVNotFoundError (kv_bucket (gi_bucket G)) readErr then entry MutationEntityNotFound 0 None
                       else entry MutationFailed 0 (Some (canonicalAppendFailure readErr))))
                | (st, Inr (_, revision)) \<Rightarrow> (st, Some (entry MutationUnchanged revision None)))))"

fun appendResults ::
  "'s ingest_env \<Rightarrow> go_ctx \<Rightarrow> addTriplesResult \<Rightarrow> string list \<Rightarrow> 's ingest \<Rightarrow> 's ingest \<times> (go_error + AppendSubjectResult list)" where
  "appendResults G ctx result [] st = (st, Inr [])"
| "appendResults G ctx result (subject # rest) st =
     (case appendSubject G ctx result subject st of
        (st, None) \<Rightarrow>
          (st, Inl (rejectInternal (ErrText (''append subject '' @ quoted subject @ '' lost its accounted outcome''))))
      | (st, Some r) \<Rightarrow>
          (case appendResults G ctx result rest st of
             (st, Inl err) \<Rightarrow> (st, Inl err)
           | (st, Inr rs) \<Rightarrow> (st, Inr (r # rs))))"

text \<open>The handler on a decoded request.\<close>

definition appendRequest ::
  "'s ingest_env \<Rightarrow> (string list \<Rightarrow> string list) \<Rightarrow> go_ctx \<Rightarrow> AppendTriplesRequest \<Rightarrow> 's ingest \<Rightarrow> 's ingest \<times> AppendTriplesResponse go_res" where
  "appendRequest G order ctx request st =
     (let triples = ar_Triples request in
      if triples = [] then (st, Fail (rejectInvalid ''invalid_request'' (ErrText ''triples cannot be empty'')))
      else case validateCanonicalAppendRequest order triples of
        Some err \<Rightarrow> (st, Fail (rejectInvalid ''invalid_request'' err))
      | None \<Rightarrow>
          (case first_some (\<lambda>t. authorizeSubject G (tr_Subject t) False) triples of
             Some err \<Rightarrow> (st, Fail err)
           | None \<Rightarrow>
               (case addTriplesLane G ctx triples st of
                  (st, Panic p) \<Rightarrow> (st, Panic p)
                | (st, Fail e) \<Rightarrow> (st, Fail e)
                | (st, Ok (result, batchErr)) \<Rightarrow>
                    let subjects = distinctSortedSubjects triples in
                    (case validateCanonicalAppendAccounting subjects result of
                       Some accountingErr \<Rightarrow>
                         (st, Fail (case batchErr of
                            Some err \<Rightarrow> ErrWrap (Error accountingErr @ '': '') err []
                          | None \<Rightarrow> rejectInternal accountingErr))
                     | None \<Rightarrow>
                         (case appendResults G ctx result subjects st of
                            (st, Inl err) \<Rightarrow> (st, Fail err)
                          | (st, Inr results) \<Rightarrow>
                              (st, Ok \<lparr>ap_Results = results, ap_TraceID = ar_TraceID request, ap_RequestID = ar_RequestID request\<rparr>))))))"

definition handleCanonicalAppend ::
  "'s ingest_env \<Rightarrow> (string list \<Rightarrow> string list) \<Rightarrow> AppendTriplesRequest json_request \<Rightarrow> go_ctx \<Rightarrow> bytes \<Rightarrow> 's ingest \<Rightarrow>
     's ingest \<times> AppendTriplesResponse go_res" where
  "handleCanonicalAppend G order R ctx data st =
     (case decodeCanonicalMutation R data [''triples''] of
        Inl err \<Rightarrow> (st, Fail (rejectInvalid ''invalid_request'' (ErrWrap ''invalid request: '' err [])))
      | Inr request \<Rightarrow> appendRequest G order ctx request st)"

subsection \<open>The lifted store\<close>

definition cap_ok :: "('s \<Rightarrow> bool) \<Rightarrow> ('c \<Rightarrow> bool) \<Rightarrow> 's ingest \<times> 'c \<Rightarrow> bool" where
  "cap_ok ok I w \<longleftrightarrow> ok (in_world (fst w)) \<and> I (snd w)"

definition cap_log :: "('s \<Rightarrow> kv_commit list) \<Rightarrow> 's ingest \<times> 'c \<Rightarrow> kv_commit list" where
  "cap_log wl w = wl (in_world (fst w))"

lemma cap_steady: "steady (cap_ok ok (\<lambda>_. True)) (cap_log wl) w w' \<longleftrightarrow> in_steady ok wl (fst w) (fst w')"
  by (simp add: steady_def cap_ok_def cap_log_def)

lemma cap_steadyI: "in_steady ok wl (fst w) (fst w') \<Longrightarrow> (I (snd w) \<Longrightarrow> I (snd w')) \<Longrightarrow> steady (cap_ok ok I) (cap_log wl) w w'"
  by (auto simp: steady_def cap_ok_def cap_log_def)

lemma cap_opE:
  assumes "cap_op f w = (w', a)"
  obtains s where "f (in_world (fst w)) = (s, a)" "w' = ((fst w)\<lparr>in_world := s\<rparr>, snd w)"
  using assms by (auto simp: cap_op_def split: prod.splits)

lemma cap_op_steady: "(\<And>s. steady ok wl s (fst (f s))) \<Longrightarrow> steady (cap_ok ok I) (cap_log wl) w (fst (cap_op f w))"
  by (rule cap_steadyI) (auto simp: cap_op_def split: prod.splits, metis fst_conv)

lemma cap_env_steady: "steady_env ok wl env \<Longrightarrow> steady_env (cap_ok ok I) (cap_log wl) (cap_env env)"
  by (auto simp: steady_env_def cap_env_def intro: cap_op_steady)

context cas_bucket
begin

lemma cap_cas_bucket: "cas_bucket (cap_bucket B) (cap_ok ok I) (cap_log wlog)"
  by unfold_locales
    (auto simp: cap_bucket_def cap_ok_def cap_log_def elim!: cap_opE
      intro: log_ok get_entry create_commit update_commit delete_commit
        cap_steadyI[OF get_steady] cap_steadyI[OF create_steady] cap_steadyI[OF update_steady] cap_steadyI[OF delete_steady])

lemma UpdateWithRetryRev_steady:
  assumes kv: "kv_bucket kv = B" and fn: "steady_update ok wlog updateFn" and env: "steady_env ok wlog env"
    and run: "UpdateWithRetryRev env kv ctx k updateFn s = (s', r)"
  shows "steady ok wlog s s'"
proof -
  let ?c = "applyTimeout kv ctx" and ?I = "\<lambda>sc. steady ok wlog s (fst sc)"
  obtain sc q where run': "retry_Do (with_capture (env ?c)) (getRetryConfig kv) (kv_attempt kv ?c k updateFn) (s, 0) = (sc, q)"
    by fastforce
  have s': "s' = fst sc"
    using run run' by (auto simp: UpdateWithRetryRev_def Let_def split: prod.splits go_res.splits)
  have a: "?I s2" if "?I s1" "kv_attempt kv ?c k updateFn s1 = (s2, e)" for s1 s2 e
    using steady_trans[OF that(1)] attempt_steady[OF kv fn, of ?c k "fst s1" "snd s1" "fst s2" "snd s2" e] that(2) by simp
  have "case q of Ok _ \<Rightarrow> \<exists>s0. ?I s0 \<and> kv_attempt kv ?c k updateFn s0 = (sc, None) | _ \<Rightarrow> ?I sc"
  proof (rule retry_Do_rule[where I = ?I, OF _ _ _ _ run'])
    show "?I (s, 0)" by simp
    show "?I s2" if "?I s1" "kv_attempt kv ?c k updateFn s1 = (s2, Some err)" for s1 s2 err using a that by blast
    show "?I s2" if "?I s1" "re_jitter (with_capture (env ?c)) d s1 = (s2, j)" for s1 s2 d j
      using that steady_trans[OF that(1)] steady_envD(1)[OF env] by (auto simp: with_capture_def split: prod.splits)
    show "?I s2" if "?I s1" "re_sleep (with_capture (env ?c)) d s1 = (s2, e)" for s1 s2 d e
      using that steady_trans[OF that(1)] steady_envD(2)[OF env] by (auto simp: with_capture_def split: prod.splits)
  qed
  then show ?thesis unfolding s' using a[of _ sc None] by (cases q) auto
qed

end

subsection \<open>What an append commits\<close>

text \<open>The state of a subject before and after: the survivors are appended, the version is one up.\<close>

definition appended :: "go_text \<Rightarrow> Triple list \<Rightarrow> EntityState \<Rightarrow> EntityState \<Rightarrow> bool" where
  "appended T batch e e' \<longleftrightarrow>
     fst (DedupeAppendTriples T (es_Triples e) batch) \<noteq> [] \<and>
     (\<exists>now. e' = e\<lparr>es_Triples := es_Triples e @ fst (DedupeAppendTriples T (es_Triples e) batch),
        es_Version := es_Version e + 1, es_UpdatedAt := now\<rparr>)"

text \<open>The append of a subject's part of a batch, as a write at revision \<open>r\<close> between two points of the
  sequence.\<close>

definition append_fact :: "entity_codec \<Rightarrow> go_text \<Rightarrow> Triple list \<Rightarrow> kv_commit list \<Rightarrow> kv_commit list \<Rightarrow> string \<Rightarrow> revision \<Rightarrow> bool" where
  "append_fact J T triples l l' subject r \<longleftrightarrow>
     (\<exists>b0 e b e'. committed l l' subject r (Some b) (\<lambda>pre. live_value subject pre = Some b0) \<and> ec_decode J b0 = Inr e \<and>
        appended T (filter (\<lambda>t. tr_Subject t = subject) triples) e e' \<and> UnmarshalEntityState J b = Inr e')"

lemma append_fact_mono:
  assumes "append_fact J T triples l l' subject r" "prefix l0 l" "prefix l' l1"
  shows "append_fact J T triples l0 l1 subject r"
proof -
  have "committed l0 l1 subject r v P" if "committed l l' subject r v P" for v P
    using committed_extend[OF committed_mono[OF that assms(2)] assms(3)] by blast
  then show ?thesis using assms(1) unfolding append_fact_def by blast
qed

lemma dedupe_survivors_set: "set (fst (DedupeAppendTriples T stored incoming)) \<subseteq> set incoming"
proof -
  have "set (dedupeLoop T seen ts) \<subseteq> set ts" for seen ts
    by (induction T seen ts rule: dedupeLoop.induct) (auto simp: Let_def)
  then show ?thesis by (simp add: Dedupe_fst)
qed

context ingest_authority
begin

lemma cap_kv: "kv_bucket (cap_store (gi_bucket G)) = cap_bucket B"
  by (simp add: cap_store_def bucket)

lemma append_update_steady: "steady_update (cap_ok ok (\<lambda>_. True)) (cap_log wlog) (append_update G ctx subject batch)"
proof -
  have c: "in_steady ok wlog st st'" if "classifyStoredStateRMWError G ctx subject cur err st = (st', e)" for cur err st st' e
    using classify_in_steady[OF bucket, of st ctx subject cur err] that by simp
  have n: "in_steady ok wlog st st'" if "now_of G st = (st', t)" for st st' t
    using now_in_steady[OF quiet, of st] that by simp
  show ?thesis
    unfolding steady_update_def cap_steady
    by (auto simp: append_update_def Let_def split: prod.splits sum.splits dest!: c n intro: steady_trans)
qed

lemma append_update_Inr:
  assumes "append_update G ctx subject batch cur w = (w', Inr data)"
  shows "cur \<noteq> [] \<and> (\<exists>e e'. ec_decode J cur = Inr e \<and> appended (gi_text G) batch e e' \<and> json_time_ok (es_UpdatedAt e') \<and>
    MarshalEntityState J e' = Inr data)"
proof -
  obtain st sup where w: "w = (st, sup)" by fastforce
  obtain e where e: "ec_decode J cur = Inr e" "cur \<noteq> []"
    using assms by (auto simp: append_update_def w UnmarshalEntityStateTrusted_def codec split: sum.splits prod.splits if_splits)
  obtain st1 now where n: "now_of G st = (st1, now)" by fastforce
  obtain sv k where d: "DedupeAppendTriples (gi_text G) (es_Triples e) batch = (sv, k)" by fastforce
  have "sv \<noteq> []" and m: "MarshalEntityState J (e\<lparr>es_Triples := es_Triples e @ sv, es_Version := es_Version e + 1, es_UpdatedAt := now\<rparr>) = Inr data"
    using assms e n d
    by (auto simp: append_update_def w UnmarshalEntityStateTrusted_def codec split: sum.splits prod.splits if_splits)
  moreover have "json_time_ok now" using clock[of "in_world st"] n by (auto simp: now_of_def on_world_def split: prod.splits)
  ultimately show ?thesis
    using e d by (intro conjI exI[of _ e] exI[of _ "e\<lparr>es_Triples := es_Triples e @ sv, es_Version := es_Version e + 1, es_UpdatedAt := now\<rparr>"])
      (auto simp: appended_def)
qed

lemma append_cas_steady: "append_cas G ctx subject batch st = ((st', n), r) \<Longrightarrow> in_steady ok wlog st st'"
  using cas_bucket.UpdateWithRetryRev_steady[OF cap_cas_bucket cap_kv append_update_steady cap_env_steady]
    quiet unfolding cap_steady by (fastforce simp: append_cas_def ingest_steady_def)

text \<open>A committed append, seen in the sequence of writes.\<close>

lemma append_cas_commit:
  assumes "append_cas G ctx subject batch st = ((st', n), Ok r)" "ok (in_world st)" "list_all native_triple batch"
    "batch = filter (\<lambda>t. tr_Subject t = subject) triples"
  shows "append_fact J (gi_text G) triples (wlog (in_world st)) (wlog (in_world st')) subject r"
proof -
  have env: "steady_env (cap_ok ok (\<lambda>_. True)) (cap_log wlog) (cap_env (gi_retry G))"
    using cap_env_steady quiet by (auto simp: ingest_steady_def)
  from cas_bucket.UpdateWithRetryRev_atomic[OF cap_cas_bucket cap_kv append_update_steady env assms(1)[unfolded append_cas_def]] assms(2)
  obtain b where "committed (wlog (in_world st)) (wlog (in_world st')) subject r (Some b)
      (\<lambda>pre. \<exists>s1 s2. cap_ok ok (\<lambda>_. True) s1 \<and>
        append_update G ctx subject batch (case live_value subject pre of None \<Rightarrow> [] | Some x \<Rightarrow> x) s1 = (s2, Inr b))"
    by (auto simp: cap_ok_def cap_log_def)
  then obtain pre post s1 s2 where p: "wlog (in_world st') = pre @ \<lparr>kc_rev = r, kc_key = subject, kc_val = Some b\<rparr> # post"
      "prefix (wlog (in_world st)) pre"
      "append_update G ctx subject batch (case live_value subject pre of None \<Rightarrow> [] | Some x \<Rightarrow> x) s1 = (s2, Inr b)"
    unfolding committed_def by blast
  obtain b0 where b0: "live_value subject pre = Some b0"
    using append_update_Inr[OF p(3)] by (cases "live_value subject pre") auto
  obtain e e' where e: "ec_decode J b0 = Inr e" "appended (gi_text G) batch e e'" "json_time_ok (es_UpdatedAt e')" "MarshalEntityState J e' = Inr b"
    using append_update_Inr[OF p(3)] b0 by auto
  have "native_entity e'"
    using decode_native[OF e(1)] e(2,3) assms(3) dedupe_survivors_set[of "gi_text G" "es_Triples e" batch]
    by (auto simp: native_entity_def appended_def list_all_iff) blast
  then have "UnmarshalEntityState J b = Inr e'" using Unmarshal_Marshal e(4) by blast
  then show ?thesis using p b0 e assms(4) unfolding append_fact_def committed_def by blast
qed

lemma append_loop_facts:
  assumes "appendLoop G ctx triples subjects a st = (st', Ok a')" "ok (in_world st)" "list_all native_triple triples"
  shows "in_steady ok wlog st st' \<and>
    (\<forall>s r. map_of (at_CommittedRevisions (aa_result a')) s = Some r \<longrightarrow>
       map_of (at_CommittedRevisions (aa_result a)) s = Some r \<or>
       append_fact J (gi_text G) triples (wlog (in_world st)) (wlog (in_world st')) s r)"
  using assms(1,2)
proof (induction subjects arbitrary: a st)
  case (Cons s rest)
  let ?b = "filter (\<lambda>t. tr_Subject t = s) triples"
  obtain st1 n q where c: "append_cas G ctx s ?b st = ((st1, n), q)" by (metis prod.collapse)
  note 1 = append_cas_steady[OF c]
  have ok1: "ok (in_world st1)" "prefix (wlog (in_world st)) (wlog (in_world st1))"
    using 1 Cons.prems(2) by (auto simp: steady_def)
  have step: ?case
    if run: "appendLoop G ctx triples rest a2 st2 = (st', Ok a')" and st: "in_steady ok wlog st1 st2"
      and a2: "\<And>x r. map_of (at_CommittedRevisions (aa_result a2)) x = Some r \<Longrightarrow>
        map_of (at_CommittedRevisions (aa_result a)) x = Some r \<or>
        append_fact J (gi_text G) triples (wlog (in_world st)) (wlog (in_world st1)) x r" for a2 st2
  proof -
    have ok2: "ok (in_world st2)" "prefix (wlog (in_world st1)) (wlog (in_world st2))" using st ok1 by (auto simp: steady_def)
    have I: "in_steady ok wlog st2 st'" using Cons.IH[OF run ok2(1)] by blast
    then have p2: "prefix (wlog (in_world st2)) (wlog (in_world st'))" using ok2 by (simp add: steady_def)
    have pre: "prefix (wlog (in_world st)) (wlog (in_world st2))" "prefix (wlog (in_world st1)) (wlog (in_world st'))"
      using prefix_order.trans[OF ok1(2) ok2(2)] prefix_order.trans[OF ok2(2) p2] by blast+
    have "append_fact J (gi_text G) triples (wlog (in_world st)) (wlog (in_world st')) x r"
      if "append_fact J (gi_text G) triples (wlog (in_world st2)) (wlog (in_world st')) x r \<or>
          append_fact J (gi_text G) triples (wlog (in_world st)) (wlog (in_world st1)) x r" for x r
      using that append_fact_mono[OF _ pre(1)] append_fact_mono[OF _ _ pre(2)] by blast
    then show ?thesis using Cons.IH[OF run ok2(1)] a2 steady_trans[OF 1 steady_trans[OF st I]] by blast
  qed
  show ?case
  proof (cases "gi_ctx_err G ctx (in_world st)")
    case (Some e)
    then show ?thesis using Cons.prems(1) by (auto simp: accCancelled_def)
  next
    case None
    show ?thesis
    proof (cases q)
      case (Ok r)
      have "append_fact J (gi_text G) triples (wlog (in_world st)) (wlog (in_world st1)) s r"
        using append_cas_commit[OF c[unfolded Ok] Cons.prems(2) _ refl] assms(3) by (simp add: list_all_iff)
      moreover have "appendLoop G ctx triples rest (accCommitted s r (length ?b) n a)
          (invalidateEntityCacheEntry s (clearEntityPoisonOnCommit G ctx s 0 st1)) = (st', Ok a')"
        using Cons.prems(1) c None Ok by simp
      ultimately show ?thesis
        using clear_commit_in_steady[OF bucket, of st1 ctx s 0]
        by (intro step[of "accCommitted s r (length ?b) n a" "invalidateEntityCacheEntry s (clearEntityPoisonOnCommit G ctx s 0 st1)"])
          (auto simp: accCommitted_def split: if_splits)
    next
      case (Fail e)
      then show ?thesis
        using Cons.prems(1) c None step[of "accUnchanged s n a" st1] step[of "accFailed s e a" "st1\<lparr>in_errors := in_errors st1 + 1\<rparr>"]
        by (auto simp: accUnchanged_def accFailed_def Let_def split: if_splits)
    next
      case (Panic p)
      then show ?thesis using Cons.prems(1) c None by simp
    qed
  qed
qed simp

end

lemma map_of_foldl_put: "map_of (foldl (\<lambda>m s. map_put s v m) m ss) x = (if x \<in> set ss then Some v else map_of m x)"
  by (induction ss arbitrary: m) auto

lemma acc_outcome:
  "outcome_count (aa_result a) s = 0 \<Longrightarrow> outcome_count (aa_result (accUnchanged s n a)) x = (if x = s then 1 else outcome_count (aa_result a) x)"
  "outcome_count (aa_result a) s = 0 \<Longrightarrow> outcome_count (aa_result (accFailed s e a)) x = (if x = s then 1 else outcome_count (aa_result a) x)"
  "outcome_count (aa_result a) s = 0 \<Longrightarrow> outcome_count (aa_result (accCommitted s r k n a)) x = (if x = s then 1 else outcome_count (aa_result a) x)"
  "\<forall>s\<in>set ss. outcome_count (aa_result a) s = 0 \<Longrightarrow>
     outcome_count (aa_result (accCancelled e ss a)) x = (if x \<in> set ss then 1 else outcome_count (aa_result a) x)"
  by (auto simp: outcome_count_def accUnchanged_def accFailed_def accCommitted_def accCancelled_def map_of_foldl_put Let_def split: if_splits)

text \<open>Every subject the loop visits gets exactly one outcome, and no other subject gets one.\<close>

lemma append_loop_outcomes:
  assumes "appendLoop G ctx triples subjects a st = (st', Ok a')" "distinct subjects" "\<forall>s\<in>set subjects. outcome_count (aa_result a) s = 0"
  shows "outcome_count (aa_result a') x = (if x \<in> set subjects then 1 else outcome_count (aa_result a) x)"
  using assms
proof (induction G ctx triples subjects a st rule: appendLoop.induct)
  case (2 G ctx triples s rest a st)
  have z: "outcome_count (aa_result a) s = 0" "s \<notin> set rest" "distinct rest" using 2(5,6) by auto
  have zr: "\<forall>t\<in>set rest. (if t = s then 1 else outcome_count (aa_result a) t) = 0" using 2(6) z by auto
  obtain st1 n q where c: "append_cas G ctx s (filter (\<lambda>t. tr_Subject t = s) triples) st = ((st1, n), q)" by (metis prod.collapse)
  show ?case
  proof (cases "gi_ctx_err G ctx (in_world st)")
    case (Some e)
    then show ?thesis using 2(4,6) acc_outcome(4)[of "s # rest" a e x] by auto
  next
    case None
    then show ?thesis
      using 2(4) c z zr 2(1)[OF None refl c[symmetric] refl] 2(2)[OF None refl c[symmetric] refl] 2(3)[OF None refl c[symmetric] refl]
      by (cases q) (auto simp: acc_outcome split: if_splits)
  qed
qed simp

lemma accounting_ok: "\<forall>s\<in>set subjects. outcome_count result s = 1 \<Longrightarrow> validateCanonicalAppendAccounting subjects result = None"
  by (induction subjects) auto

lemma accounting_okD: "validateCanonicalAppendAccounting subjects result = None \<Longrightarrow> \<forall>s\<in>set subjects. outcome_count result s = 1"
  by (induction subjects) (auto split: if_splits)

lemma empty_outcome [simp]: "outcome_count emptyResult s = 0"
  by (simp add: outcome_count_def emptyResult_def)

text \<open>A batch that is not refused as a whole ran the loop.\<close>

lemma lane_cases:
  assumes "addTriplesLane G ctx triples st = (st', Ok (result, err))" "triples \<noteq> []"
  obtains "st' = st" "result = emptyResult" "err \<noteq> None"
  | a where "appendLoop G ctx triples (distinctSortedSubjects triples) \<lparr>aa_result = emptyResult, aa_allAbsences = True, aa_poisonErr = None\<rparr> st = (st', Ok a)"
      "result = aa_result a"
  using assms by (auto simp: addTriplesLane_def Let_def WrapInvalid_def wrapClass_def split: option.splits if_splits prod.splits go_res.splits)
    metis

text \<open>C24. A batch of appends is either refused as a whole, before anything is read or written, or every
  subject of the batch has exactly one outcome (committed, unchanged, absent or failed) and no other
  subject has any, whatever conflicts, faults or cancellation happened on the way; so the handler's
  accounting check never fires on a batch that ran.\<close>

theorem append_batch_accounted:
  assumes "addTriplesLane G ctx triples st = (st', Ok (result, err))" "triples \<noteq> []"
  shows "(st' = st \<and> result = emptyResult \<and> err \<noteq> None) \<or>
    (validateCanonicalAppendAccounting (distinctSortedSubjects triples) result = None \<and>
     (\<forall>x. outcome_count result x = (if x \<in> tr_Subject ` set triples then 1 else 0)))"
  using assms
proof (cases rule: lane_cases)
  case (2 a)
  have "outcome_count result x = (if x \<in> tr_Subject ` set triples then 1 else 0)" for x
    using append_loop_outcomes[OF 2(1), of x] 2(2) by (auto simp: distinctSortedSubjects_def)
  then show ?thesis using accounting_ok[of "distinctSortedSubjects triples" result] by (auto simp: distinctSortedSubjects_def)
qed simp

context ingest_authority
begin

lemma append_subject_steady: "appendSubject G ctx result s st = (st', r) \<Longrightarrow> in_steady ok wlog st st'"
  by (auto simp: appendSubject_def Let_def split: option.splits if_splits prod.splits sum.splits dest: fetch_in_steady)

lemma append_results:
  assumes "appendResults G ctx result subjects st = (st', Inr rs)"
  shows "in_steady ok wlog st st' \<and> map as_EntityID rs = subjects \<and>
    (\<forall>r\<in>set rs. as_Outcome r = MutationApplied \<longrightarrow> map_of (at_CommittedRevisions result) (as_EntityID r) = Some (as_KVRevision r))"
  using assms
proof (induction subjects arbitrary: st rs)
  case (Cons s rest)
  obtain st1 q where a: "appendSubject G ctx result s st = (st1, q)" by fastforce
  obtain r rs' where q: "q = Some r" "rs = r # rs'" "appendResults G ctx result rest st1 = (st', Inr rs')"
    using Cons.prems a by (auto split: option.splits prod.splits sum.splits)
  have "as_EntityID r = s \<and> (as_Outcome r = MutationApplied \<longrightarrow> map_of (at_CommittedRevisions result) (as_EntityID r) = Some (as_KVRevision r))"
    using a q(1) by (auto simp: appendSubject_def Let_def split: option.splits if_splits prod.splits sum.splits)
  then show ?case using Cons.IH[OF q(3)] q(2) steady_trans[OF append_subject_steady[OF a]] by auto
qed simp

lemma append_response:
  assumes "appendRequest G order ctx req st = (st', Ok resp)" "ok (in_world st)" "list_all native_triple (ar_Triples req)"
  shows "map as_EntityID (ap_Results resp) = distinctSortedSubjects (ar_Triples req) \<and>
    (\<forall>r\<in>set (ap_Results resp). as_Outcome r = MutationApplied \<longrightarrow>
       append_fact J (gi_text G) (ar_Triples req) (wlog (in_world st)) (wlog (in_world st')) (as_EntityID r) (as_KVRevision r))"
proof -
  let ?ts = "ar_Triples req"
  obtain st1 result err where l: "addTriplesLane G ctx ?ts st = (st1, Ok (result, err))" "?ts \<noteq> []"
      and acc: "validateCanonicalAppendAccounting (distinctSortedSubjects ?ts) result = None"
      and r: "appendResults G ctx result (distinctSortedSubjects ?ts) st1 = (st', Inr (ap_Results resp))"
    using assms(1) by (auto simp: appendRequest_def Let_def split: if_splits option.splits prod.splits go_res.splits sum.splits)
  have f: "in_steady ok wlog st st1 \<and> (\<forall>s x. map_of (at_CommittedRevisions result) s = Some x \<longrightarrow>
      append_fact J (gi_text G) ?ts (wlog (in_world st)) (wlog (in_world st1)) s x)"
    using l
  proof (cases rule: lane_cases)
    case (2 a)
    from append_loop_facts[OF 2(1) assms(2,3)] 2(2) show ?thesis by (auto simp: emptyResult_def)
  qed (simp add: emptyResult_def)
  note R = append_results[OF r]
  have "prefix (wlog (in_world st1)) (wlog (in_world st'))" using f R assms(2) by (auto simp: steady_def)
  then show ?thesis using R f append_fact_mono[OF _ prefix_order.refl] by blast
qed

end

text \<open>C3. Every acknowledged append is exact: the response lists the subjects of the request once each, in order,
  and for a subject reported as applied the sequence of writes contains, at the reported revision, a
  write whose state is the one live immediately before it with exactly the new assertions of the
  request appended (none of them stored already, none twice), the version one up and everything else
  unchanged.  No triple written by anyone else in the meantime is lost, and no assertion is stored
  twice, whatever conflicts the call went through.\<close>

theorem append_exact:
  assumes "ingest_authority B ok wlog J G" "ok (in_world st)"
    and "\<forall>req. jr_decode R data = Inr req \<longrightarrow> list_all native_triple (ar_Triples req)"
    and "handleCanonicalAppend G order R ctx data st = (st', Ok resp)"
  shows "\<exists>req. jr_decode R data = Inr req \<and>
    map as_EntityID (ap_Results resp) = sort (remdups (map tr_Subject (ar_Triples req))) \<and>
    (\<forall>r\<in>set (ap_Results resp). as_Outcome r = MutationApplied \<longrightarrow>
      (\<exists>b0 e b e' added. committed (wlog (in_world st)) (wlog (in_world st')) (as_EntityID r) (as_KVRevision r) (Some b)
           (\<lambda>pre. live_value (as_EntityID r) pre = Some b0) \<and>
         ec_decode J b0 = Inr e \<and> UnmarshalEntityState J b = Inr e' \<and>
         (\<exists>now. e' = e\<lparr>es_Triples := es_Triples e @ added, es_Version := es_Version e + 1, es_UpdatedAt := now\<rparr>) \<and>
         added \<noteq> [] \<and> distinct (map (AppendIdentityKey (gi_text G)) added) \<and>
         identity_keys (gi_text G) added =
           identity_keys (gi_text G) (filter (\<lambda>t. tr_Subject t = as_EntityID r) (ar_Triples req)) - identity_keys (gi_text G) (es_Triples e)))"
proof -
  obtain req where req: "jr_decode R data = Inr req" "appendRequest G order ctx req st = (st', Ok resp)"
    using assms(4) by (auto simp: handleCanonicalAppend_def decodeCanonicalMutation_def
        split: sum.splits json_trailing.splits option.splits)
  have k: "distinct (map (AppendIdentityKey T) (fst (DedupeAppendTriples T ts batch)))"
      "identity_keys T (fst (DedupeAppendTriples T ts batch)) = identity_keys T batch - identity_keys T ts" for T ts batch
    using dedupeLoop_keys[of T "map (AppendIdentityKey T) ts" batch] by (auto simp: Dedupe_fst)
  have "list_all native_triple (ar_Triples req)" using assms(3) req(1) by blast
  note A = ingest_authority.append_response[OF assms(1) req(2) assms(2) this]
  show ?thesis
    using A k unfolding append_fact_def appended_def distinctSortedSubjects_def
    by (intro exI[of _ req] conjI ballI impI req(1)) (blast, metis)
qed

subsection \<open>A run\<close>

definition wit_added :: Triple where
  "wit_added = wit_triple ''drone.battery.level'' ''full'' 2"

definition wit_charged :: EntityState where
  "wit_charged = wit_entity\<lparr>es_Triples := [wit_triple ''drone.state.phase'' ''idle'' 0, wit_added], es_Version := 2, es_UpdatedAt := 7\<rparr>"

definition wit_append_table :: "(EntityState \<times> bytes) list" where
  "wit_append_table = [(wit_entity, ''idle-state''), (wit_charged, ''charged-state'')]"

definition wit_append_ingest :: "mem_world ingest_env" where
  "wit_append_ingest = wit_ingest\<lparr>gi_codec := table_codec wit_append_table\<rparr>"

text \<open>The stored triple once more, and the new one twice.\<close>

definition wit_append_request :: AppendTriplesRequest where
  "wit_append_request = \<lparr>ar_Triples = [wit_triple ''drone.state.phase'' ''idle'' 0, wit_added, wit_added], ar_TraceID = [], ar_RequestID = []\<rparr>"

lemma wit_charged_ok: "native_entity wit_charged" "native_triple wit_added" "native_triple (wit_triple ''drone.state.phase'' ''idle'' 0)"
proof -
  have "valid_utf8 ''acme.prod.ops.fleet.drone.d1''" "valid_utf8 ''drone.state.phase''" "valid_utf8 ''idle''" "valid_utf8 ''test''"
    "valid_utf8 ''drone.battery.level''" "valid_utf8 ''full''"
    by code_simp+
  then show "native_entity wit_charged" "native_triple wit_added" "native_triple (wit_triple ''drone.state.phase'' ''idle'' 0)"
    by (simp_all add: native_entity_def wit_charged_def wit_added_def wit_entity_def zero_entity_def native_triple_def wit_triple_def
        json_time_ok_def f64_round_1 del: valid_utf8.simps(2))
qed

interpretation wit_app: ingest_authority mem_bucket mem_ok mw_log "table_codec wit_append_table" wit_append_ingest
proof (intro ingest_authority.intro ingest_authority_axioms.intro mem.cas_bucket_axioms)
  have "wit_entity \<noteq> wit_charged" by (simp add: wit_charged_def wit_entity_def zero_entity_def)
  then show "entity_json (table_codec wit_append_table)"
    by (intro table_codec_json) (use wit_entity_ok wit_charged_ok in \<open>auto simp: wit_append_table_def\<close>)
qed (use wit.quiet wit.clock in \<open>simp_all add: wit_append_ingest_def ingest_steady_def wit_ingest_def wit_kv_def\<close>)

definition wit_append_run :: "mem_world ingest \<times> AppendTriplesResponse go_res" where
  "wit_append_run = handleCanonicalAppend wit_append_ingest (\<lambda>xs. xs) (wit_request wit_append_request [''triples'']) (Ctx 0) [] wit_ingest_state"

lemma wit_append_result:
  "snd wit_append_run =
     Ok \<lparr>ap_Results = [\<lparr>as_EntityID = ''acme.prod.ops.fleet.drone.d1'', as_Outcome = MutationApplied, as_KVRevision = 2, as_Error = None\<rparr>],
          ap_TraceID = [], ap_RequestID = []\<rparr>"
  by code_simp

theorem append_exact_witness:
  "\<exists>b0 e b e'. committed (mw_log (in_world wit_ingest_state)) (mw_log (in_world (fst wit_append_run))) ''acme.prod.ops.fleet.drone.d1'' 2 (Some b)
       (\<lambda>pre. live_value ''acme.prod.ops.fleet.drone.d1'' pre = Some b0) \<and>
     ec_decode (table_codec wit_append_table) b0 = Inr e \<and> UnmarshalEntityState (table_codec wit_append_table) b = Inr e'"
proof -
  let ?R = "wit_request wit_append_request [''triples'']"
  have "mem_ok (in_world wit_ingest_state)" by (simp add: mem_ok_def wit_ingest_state_def log_ok_def)
  moreover have "\<forall>req. jr_decode ?R [] = Inr req \<longrightarrow> list_all native_triple (ar_Triples req)"
    using wit_charged_ok by (simp add: wit_request_def wit_append_request_def)
  moreover have "handleCanonicalAppend wit_append_ingest (\<lambda>xs. xs) ?R (Ctx 0) [] wit_ingest_state = (fst wit_append_run,
      Ok \<lparr>ap_Results = [\<lparr>as_EntityID = ''acme.prod.ops.fleet.drone.d1'', as_Outcome = MutationApplied, as_KVRevision = 2, as_Error = None\<rparr>],
          ap_TraceID = [], ap_RequestID = []\<rparr>)"
    using wit_append_result by (metis prod.collapse wit_append_run_def)
  ultimately show ?thesis
    using append_exact[OF wit_app.ingest_authority_axioms, of wit_ingest_state ?R "[]" "\<lambda>xs. xs" "Ctx 0"] by fastforce
qed

text \<open>A batch for a stored and for an absent entity.\<close>

definition wit_batch :: "Triple list" where
  "wit_batch = [wit_added, wit_added\<lparr>tr_Subject := ''acme.prod.ops.fleet.drone.d2''\<rparr>]"

definition wit_batch_run :: "mem_world ingest \<times> (addTriplesResult \<times> go_error option) go_res" where
  "wit_batch_run = addTriplesLane wit_append_ingest (Ctx 0) wit_batch wit_ingest_state"

lemma wit_batch_result:
  "case snd wit_batch_run of
     Ok (result, err) \<Rightarrow> at_CommittedRevisions result = [(''acme.prod.ops.fleet.drone.d1'', 2)] \<and>
       at_NotFoundSubjects result = [''acme.prod.ops.fleet.drone.d2''] \<and> err \<noteq> None
   | _ \<Rightarrow> False"
  by code_simp

theorem append_batch_accounted_witness:
  "\<exists>result err. snd wit_batch_run = Ok (result, err) \<and> outcome_count result ''acme.prod.ops.fleet.drone.d1'' = 1 \<and>
     outcome_count result ''acme.prod.ops.fleet.drone.d2'' = 1 \<and> outcome_count result ''acme.prod.ops.fleet.drone.d3'' = 0"
proof -
  obtain result err where r: "snd wit_batch_run = Ok (result, err)" "at_CommittedRevisions result \<noteq> []"
    using wit_batch_result by (auto split: go_res.splits prod.splits)
  then have "addTriplesLane wit_append_ingest (Ctx 0) wit_batch wit_ingest_state = (fst wit_batch_run, Ok (result, err))"
    by (metis prod.collapse wit_batch_run_def)
  from append_batch_accounted[OF this] r show ?thesis
    by (auto simp: wit_batch_def wit_added_def wit_triple_def emptyResult_def)
qed

subsection \<open>The merge lane\<close>

definition MergeTriples :: "Triple list \<Rightarrow> Triple list \<Rightarrow> Triple list" where
  "MergeTriples existing newer =
     (if existing = [] then newer
      else if newer = [] then existing
      else newer @ filter (\<lambda>t. \<not> list_ex (\<lambda>n. tr_Subject t = tr_Subject n \<and> tr_Predicate t = tr_Predicate n) newer) existing)"

definition hasIndexingProfileTriple :: "EntityState \<Rightarrow> bool" where
  "hasIndexingProfileTriple e \<longleftrightarrow> list_ex (\<lambda>t. tr_Predicate t = EntityIndexingProfile) (es_Triples e)"

definition triplesWithoutPredicate :: "Triple list \<Rightarrow> string \<Rightarrow> Triple list" where
  "triplesWithoutPredicate triples predicate = filter (\<lambda>t. tr_Predicate t \<noteq> predicate) triples"

text \<open>\<open>reconcileIndexingProfile\<close> filters in place: another slice over the same array sees the kept
  triples moved to the front and the old ones behind them.\<close>

definition reconcileInPlace :: "Triple list \<Rightarrow> Triple list" where
  "reconcileInPlace triples =
     (let filtered = keep_first_profile False triples in filtered @ drop (length filtered) triples)"

text \<open>The closure; it captures the arriving entity, which the first-write branch changes, and the number of
  bytes written.  A stored entity without triples takes over the slice of the arriving one
  (\<open>MergeTriples\<close> returns it as it is), so the reconciliation of the stored entity then rewrites the
  captured triples; the floor profile it may append lies behind the end of the captured slice.\<close>

definition merge_update ::
  "'s ingest_env \<Rightarrow> go_ctx \<Rightarrow> Triple list \<Rightarrow> ('s ingest \<times> EntityState \<times> nat) update_fn" where
  "merge_update G ctx hierarchyTriples current w =
     (let (st, entity, bytesWritten) = w in
      if current = [] then
        let entity = entity\<lparr>es_Triples := es_Triples entity @ hierarchyTriples\<rparr>;
            (st, entity) = reconcileIndexingProfile G entity st
        in case MarshalEntityState (gi_codec G) entity of
             Inl err \<Rightarrow> ((st, entity, bytesWritten), Inl err)
           | Inr data \<Rightarrow> ((st, entity, length data), Inr data)
      else case UnmarshalEntityStateTrusted (gi_codec G) current of
        Inl err \<Rightarrow>
          let (st, cerr) = classifyStoredStateRMWError G ctx (es_ID entity) current err st in ((st, entity, bytesWritten), Inl cerr)
      | Inr existing \<Rightarrow>
          let shared = (es_Triples existing = []);
              newer = (if hasIndexingProfileTriple existing then triplesWithoutPredicate (es_Triples entity) EntityIndexingProfile
                       else es_Triples entity);
              existing = existing\<lparr>es_Triples := MergeTriples (es_Triples existing) newer, es_MessageType := es_MessageType entity,
                es_StorageRef := (if es_StorageRef entity \<noteq> None then es_StorageRef entity else es_StorageRef existing)\<rparr>;
              (st, existing) = reconcileIndexingProfile G existing st;
              entity = (if shared then entity\<lparr>es_Triples := reconcileInPlace (es_Triples entity)\<rparr> else entity);
              (st, now) = now_of G st;
              existing = existing\<lparr>es_Version := es_Version existing + 1, es_UpdatedAt := now\<rparr>
          in case MarshalEntityState (gi_codec G) existing of
               Inl err \<Rightarrow>
                 let (st, cerr) = classifyStoredStateRMWError G ctx (es_ID entity) current err st in ((st, entity, bytesWritten), Inl cerr)
             | Inr data \<Rightarrow> ((st, entity, length data), Inr data))"

text \<open>Hierarchy inference is a collaborator: \<open>None\<close> when it is not enabled.\<close>

type_synonym 's hierarchy = "(go_ctx \<Rightarrow> string \<Rightarrow> 's ingest \<Rightarrow> 's ingest \<times> (go_error + Triple list)) option"

definition hierarchyProbe :: "'s ingest_env \<Rightarrow> 's hierarchy \<Rightarrow> go_ctx \<Rightarrow> string \<Rightarrow> 's ingest \<Rightarrow> 's ingest \<times> Triple list" where
  "hierarchyProbe G H ctx entityID st =
     (case H of
        None \<Rightarrow> (st, [])
      | Some getHierarchyTriples \<Rightarrow>
          (case on_world (kv_Get (gi_bucket G) ctx entityID) st of
             (st, Inr _) \<Rightarrow> (st, [])
           | (st, Inl err) \<Rightarrow>
               if IsKVNotFoundError (kv_bucket (gi_bucket G)) err
               then (case getHierarchyTriples ctx entityID st of (st, Inl _) \<Rightarrow> (st, []) | (st, Inr triples) \<Rightarrow> (st, triples))
               else (st, [])))"

definition mergeEntityOnLane ::
  "'s ingest_env \<Rightarrow> 's hierarchy \<Rightarrow> go_ctx \<Rightarrow> EntityState option \<Rightarrow> bool \<Rightarrow> 's ingest \<Rightarrow> 's ingest \<times> EntityState option \<times> unit go_res" where
  "mergeEntityOnLane G H ctx arriving importLane st =
     (case arriving of
        None \<Rightarrow> (st, None, Fail (the (WrapInvalid (Some ErrInvalidData) ''Component'' ''MergeEntity'' ''entity cannot be nil'')))
      | Some entity \<Rightarrow>
          (case validateEntityID_error (es_ID entity) of
             Some err \<Rightarrow> (st, arriving, Fail err)
           | None \<Rightarrow>
               (case authorizeSubject G (es_ID entity) importLane of
                  Some err \<Rightarrow> (st, arriving, Fail err)
                | None \<Rightarrow>
                    (case gi_ctx_err G ctx (in_world st) of
                       Some err \<Rightarrow> (st, arriving, Fail (Wrap err ''Component'' ''MergeEntity'' ''context cancelled''))
                     | None \<Rightarrow>
                         let (st, hierarchyTriples) = hierarchyProbe G H ctx (es_ID entity) st in
                         (case UpdateWithRetry (cap_env (gi_retry G)) (cap_store (gi_bucket G)) ctx (es_ID entity)
                                 (merge_update G ctx hierarchyTriples) (st, entity, 0) of
                            ((st, entity, _), Panic p) \<Rightarrow> (st, Some entity, Panic p)
                          | ((st, entity, _), Fail err) \<Rightarrow>
                              (st\<lparr>in_errors := in_errors st + 1\<rparr>, Some entity, Fail (Wrap err ''Component'' ''MergeEntity'' ''CAS update''))
                          | ((st, entity, bytesWritten), Ok _) \<Rightarrow>
                              let st = clearEntityPoisonOnCommit G ctx (es_ID entity) 0 st;
                                  st = invalidateEntityCacheEntry (es_ID entity) st;
                                  st = updateSuffixIndex G ctx (es_ID entity) st;
                                  st = st\<lparr>in_messagesProcessed := in_messagesProcessed st + 1,
                                          in_bytesProcessed := in_bytesProcessed st + of_nat bytesWritten\<rparr>;
                                  (st, t) = now_of G st
                              in (st\<lparr>in_lastActivity := Some t\<rparr>, Some entity, Ok ()))))))"

definition MergeEntity where
  "MergeEntity G H ctx entity st = mergeEntityOnLane G H ctx entity False st"

definition fillFactProjectionSubjects :: "string \<Rightarrow> Triple list \<Rightarrow> Triple list" where
  "fillFactProjectionSubjects entityID triples =
     map (\<lambda>t. if tr_Subject t = [] then t\<lparr>tr_Subject := entityID\<rparr> else t) triples"

fun graphable_mismatch :: "string \<Rightarrow> nat \<Rightarrow> Triple list \<Rightarrow> go_error option" where
  "graphable_mismatch i index [] = None"
| "graphable_mismatch i index (t # ts) =
     (if tr_Subject t \<noteq> i then
        Some (ErrText (''triple['' @ itoa index @ ''] subject '' @ quoted (tr_Subject t) @ '' does not match Graphable entity '' @ quoted i))
      else graphable_mismatch i (Suc index) ts)"

text \<open>The arriving entity after the fill, and the error.\<close>

definition prepareFactProjection :: "'s ingest_env \<Rightarrow> EntityState option \<Rightarrow> bool \<Rightarrow> EntityState option \<times> go_error option" where
  "prepareFactProjection G arriving importLane =
     (case arriving of
        None \<Rightarrow> (None, WrapInvalid (Some ErrInvalidData) ''Component'' ''ingestEntity'' ''entity cannot be nil'')
      | Some entity \<Rightarrow>
          (case validateEntityID_error (es_ID entity) of
             Some err \<Rightarrow>
               (arriving, WrapInvalid (Some (ErrEntityField ''id'' (-1) err)) ''Component'' ''ingestEntity'' ''validate envelope entity ID'')
           | None \<Rightarrow>
               (case authorizeSubject G (es_ID entity) importLane of
                  Some err \<Rightarrow> (arriving, Some err)
                | None \<Rightarrow>
                    let entity = entity\<lparr>es_Triples := fillFactProjectionSubjects (es_ID entity) (es_Triples entity)\<rparr> in
                    (case graphable_mismatch (es_ID entity) 0 (es_Triples entity) of
                       Some err \<Rightarrow>
                         (Some entity, WrapInvalid (Some err) ''Component'' ''ingestEntity'' ''validate projected entity subject'')
                     | None \<Rightarrow>
                         (case ValidateEntityStateContract (Some entity) of
                            Some err \<Rightarrow>
                              (Some entity, WrapInvalid (Some err) ''Component'' ''ingestEntity'' ''validate projected entity state'')
                          | None \<Rightarrow> (Some entity, None))))))"

fun validateTriplePredicates :: "Triple list \<Rightarrow> go_error option" where
  "validateTriplePredicates [] = None"
| "validateTriplePredicates (t # ts) =
     (if IsValidPredicate (tr_Predicate t) then validateTriplePredicates ts
      else Some (rejectInvalid ''structural_invalid''
        (ErrText (''predicate '' @ quoted (tr_Predicate t) @ '' is not a valid 3-part predicate (domain.category.property) on entity '' @
           quoted (tr_Subject t)))))"

definition ingestEntity ::
  "'s ingest_env \<Rightarrow> 's hierarchy \<Rightarrow> go_ctx \<Rightarrow> EntityState option \<Rightarrow> bool \<Rightarrow> 's ingest \<Rightarrow> 's ingest \<times> EntityState option \<times> unit go_res" where
  "ingestEntity G H ctx arriving importLane st =
     (case prepareFactProjection G arriving importLane of
        (arriving, Some err) \<Rightarrow> (st, arriving, Fail err)
      | (arriving, None) \<Rightarrow>
          (case arriving of
             None \<Rightarrow> mergeEntityOnLane G H ctx arriving importLane st
           | Some entity \<Rightarrow>
               (case validateTriplePredicates (es_Triples entity) of
                  Some err \<Rightarrow> (st, arriving, Fail err)
                | None \<Rightarrow> mergeEntityOnLane G H ctx arriving importLane st)))"

subsection \<open>In-process creation\<close>

definition createEntityWithReceipt ::
  "'s ingest_env \<Rightarrow> 's hierarchy \<Rightarrow> go_ctx \<Rightarrow> EntityState option \<Rightarrow> 's ingest \<Rightarrow> 's ingest \<times> (go_error + EntityState \<times> revision)" where
  "createEntityWithReceipt G H ctx arriving st =
     (case arriving of
        None \<Rightarrow> (st, Inl (the (WrapInvalid (Some ErrInvalidData) ''Component'' ''CreateEntity'' ''entity cannot be nil'')))
      | Some entity \<Rightarrow>
          (case requireRegisteredMessageType G entity of
             Some err \<Rightarrow> (st, Inl err)
           | None \<Rightarrow>
               (case validateEntityID_error (es_ID entity) of
                  Some err \<Rightarrow> (st, Inl err)
                | None \<Rightarrow>
                    (case authorizeSubject G (es_ID entity) False of
                       Some err \<Rightarrow> (st, Inl err)
                     | None \<Rightarrow>
                         (case ValidateEntityStateContract (Some entity) of
                            Some err \<Rightarrow>
                              (st, Inl (the (WrapInvalid (Some err) ''Component'' ''CreateEntity'' ''validate entity state contract'')))
                          | None \<Rightarrow>
                              (case gi_ctx_err G ctx (in_world st) of
                                 Some err \<Rightarrow> (st, Inl (Wrap err ''Component'' ''CreateEntity'' ''context cancelled''))
                               | None \<Rightarrow>
                                   let (st, hierarchyTriples) = (case H of None \<Rightarrow> (st, [])
                                         | Some getHierarchyTriples \<Rightarrow>
                                             (case getHierarchyTriples ctx (es_ID entity) st of (st, Inl _) \<Rightarrow> (st, []) | (st, Inr triples) \<Rightarrow> (st, triples)));
                                       (st, entity) = reconcileIndexingProfile G (entity\<lparr>es_Triples := es_Triples entity @ hierarchyTriples\<rparr>) st
                                   in (case MarshalEntityState (gi_codec G) entity of
                                         Inl err \<Rightarrow>
                                           (st\<lparr>in_errors := in_errors st + 1\<rparr>, Inl (Wrap err ''Component'' ''CreateEntity'' ''entity serialization''))
                                       | Inr data \<Rightarrow>
                                           (case on_world (kv_Create (gi_bucket G) ctx (es_ID entity) data) st of
                                              (st, Inl writeErr) \<Rightarrow>
                                                if errors_is writeErr ErrKVKeyExists then (st, Inl writeErr)
                                                else (st\<lparr>in_errors := in_errors st + 1\<rparr>, Inl (Wrap writeErr ''Component'' ''CreateEntity'' ''KV store''))
                                            | (st, Inr committedRev) \<Rightarrow>
                                                let st = clearEntityPoisonOnCommit G ctx (es_ID entity) committedRev st;
                                                    st = invalidateEntityCacheEntry (es_ID entity) st;
                                                    st = updateSuffixIndex G ctx (es_ID entity) st;
                                                    st = st\<lparr>in_messagesProcessed := in_messagesProcessed st + 1,
                                                            in_bytesProcessed := in_bytesProcessed st + of_nat (length data)\<rparr>;
                                                    (st, t) = now_of G st
                                                in (st\<lparr>in_lastActivity := Some t\<rparr>, Inr (entity, committedRev))))))))))"

definition CreateEntity where
  "CreateEntity G H ctx entity st = (case createEntityWithReceipt G H ctx entity st of
     (st, Inl err) \<Rightarrow> (st, Some err) | (st, Inr _) \<Rightarrow> (st, None))"

subsection \<open>What a merge keeps\<close>

abbreviation is_profile :: "Triple \<Rightarrow> bool" where
  "is_profile t \<equiv> tr_Predicate t = EntityIndexingProfile"

lemma keep_first_profile_set: "\<not> is_profile t \<Longrightarrow> t \<in> set (keep_first_profile k ts) \<longleftrightarrow> t \<in> set ts"
proof (induction ts arbitrary: k)
  case (Cons u ts)
  then show ?case by (cases "is_profile u"; cases k) auto
qed simp

lemma keep_first_profile_subset: "set (keep_first_profile k ts) \<subseteq> set ts"
  by (induction ts arbitrary: k) auto

lemma reconcileInPlace_set: "\<not> is_profile t \<Longrightarrow> t \<in> set (reconcileInPlace ts) \<longleftrightarrow> t \<in> set ts"
  using keep_first_profile_subset[of False ts] set_drop_subset[of "length (keep_first_profile False ts)" ts]
  by (auto simp: reconcileInPlace_def Let_def keep_first_profile_set)

lemma keep_first_profile_filter:
  "filter is_profile (keep_first_profile k ts) = (if k then [] else case find is_profile ts of None \<Rightarrow> [] | Some t \<Rightarrow> [t])"
proof (induction ts arbitrary: k)
  case (Cons u ts)
  then show ?case by (cases "is_profile u"; cases k) auto
qed simp

text \<open>After the reconciliation an entity has exactly one profile, its first one if it has any.\<close>

lemma reconcile_profile:
  assumes "reconcileIndexingProfile G e st = (st', e')"
  shows "\<exists>ts. e' = e\<lparr>es_Triples := ts\<rparr> \<and> length (filter is_profile ts) = 1 \<and>
    (\<forall>t. find is_profile (es_Triples e) = Some t \<longrightarrow> filter is_profile ts = [t]) \<and>
    (\<forall>t. \<not> is_profile t \<longrightarrow> (t \<in> set ts \<longleftrightarrow> t \<in> set (es_Triples e)))"
proof -
  let ?k = "keep_first_profile False (es_Triples e)"
  obtain new where new: "is_profile new" "e' = e\<lparr>es_Triples := (if list_ex is_profile (es_Triples e) then ?k else ?k @ [new])\<rparr>"
    using assms that[of "\<lparr>tr_Subject = es_ID e, tr_Predicate = EntityIndexingProfile, tr_Object = GString (fst (registeredIndexingProfile G (es_MessageType e))),
        tr_Source = ''graph-ingest-indexing-profile'', tr_Timestamp = snd (now_of G st), tr_Confidence = 1, tr_Context = [], tr_Datatype = [], tr_ExpiresAt = None\<rparr>"]
    by (auto simp: reconcileIndexingProfile_def appendIndexingProfileTriple_def Let_def split: if_splits prod.splits)
  have m: "\<not> is_profile t \<Longrightarrow> t \<in> set ?k \<longleftrightarrow> t \<in> set (es_Triples e)" for t
    by (rule keep_first_profile_set)
  show ?thesis
  proof (cases "find is_profile (es_Triples e)")
    case None
    then have "\<not> list_ex is_profile (es_Triples e)" by (auto simp: find_None_iff list_ex_iff)
    then show ?thesis
      using new m None by (intro exI[of _ "?k @ [new]"]) (auto simp: keep_first_profile_filter)
  next
    case (Some t0)
    then have "list_ex is_profile (es_Triples e)" by (auto simp: find_Some_iff list_ex_iff)
    then show ?thesis
      using new m Some by (intro exI[of _ ?k]) (auto simp: keep_first_profile_filter)
  qed
qed

definition same_slot :: "Triple \<Rightarrow> Triple \<Rightarrow> bool" where
  "same_slot t n \<longleftrightarrow> tr_Subject t = tr_Subject n \<and> tr_Predicate t = tr_Predicate n"

lemma MergeTriples_set:
  "t \<in> set (MergeTriples existing newer) \<longleftrightarrow> t \<in> set newer \<or> (t \<in> set existing \<and> (\<forall>n\<in>set newer. \<not> same_slot t n))"
  by (auto simp: MergeTriples_def list_ex_iff same_slot_def)

lemma find_filter_all: "\<forall>t\<in>set xs. P t \<longrightarrow> Q t \<Longrightarrow> find P (filter Q xs) = find P xs"
  by (induction xs) auto

lemma find_append_none: "\<forall>t\<in>set xs. \<not> P t \<Longrightarrow> find P (xs @ ys) = find P ys"
  by (induction xs) auto

lemma MergeTriples_profile:
  assumes "\<forall>n\<in>set newer. \<not> is_profile n"
  shows "find is_profile (MergeTriples existing newer) = find is_profile existing"
proof -
  have "find is_profile newer = None" using assms by (auto simp: find_None_iff)
  moreover have "find is_profile (filter (\<lambda>t. \<not> list_ex (\<lambda>n. tr_Subject t = tr_Subject n \<and> tr_Predicate t = tr_Predicate n) newer) existing) =
      find is_profile existing"
    by (rule find_filter_all) (use assms in \<open>auto simp: list_ex_iff\<close>)
  ultimately show ?thesis by (auto simp: MergeTriples_def find_append_none assms)
qed

text \<open>What is known of the captured entity: it stands for the arriving one, with hierarchy triples and a
  profile added by first-write attempts.\<close>

definition merge_inv :: "EntityState \<Rightarrow> Triple list \<Rightarrow> EntityState \<times> nat \<Rightarrow> bool" where
  "merge_inv e0 h c \<longleftrightarrow>
     es_ID (fst c) = es_ID e0 \<and> es_MessageType (fst c) = es_MessageType e0 \<and>
     (\<forall>t. \<not> is_profile t \<longrightarrow> (t \<in> set (es_Triples (fst c)) \<longrightarrow> t \<in> set (es_Triples e0) \<union> set h) \<and>
        (t \<in> set (es_Triples e0) \<longrightarrow> t \<in> set (es_Triples (fst c))))"

text \<open>An entity born of an arrival, and a stored entity after an arrival was merged into it.\<close>

definition born :: "EntityState \<Rightarrow> Triple list \<Rightarrow> EntityState \<Rightarrow> bool" where
  "born e0 h e' \<longleftrightarrow>
     es_ID e' = es_ID e0 \<and> (\<forall>t\<in>set (es_Triples e0). \<not> is_profile t \<longrightarrow> t \<in> set (es_Triples e')) \<and>
     (\<forall>t\<in>set (es_Triples e'). \<not> is_profile t \<longrightarrow> t \<in> set (es_Triples e0) \<union> set h) \<and>
     length (filter is_profile (es_Triples e')) = 1"

definition merged :: "EntityState \<Rightarrow> Triple list \<Rightarrow> EntityState \<Rightarrow> EntityState \<Rightarrow> bool" where
  "merged e0 h e e' \<longleftrightarrow>
     es_ID e' = es_ID e \<and> es_Version e' = es_Version e + 1 \<and> es_MessageType e' = es_MessageType e0 \<and>
     (\<forall>t\<in>set (es_Triples e). \<not> is_profile t \<and> (\<forall>n\<in>set (es_Triples e0) \<union> set h. \<not> same_slot t n) \<longrightarrow> t \<in> set (es_Triples e')) \<and>
     (\<forall>t\<in>set (es_Triples e0). \<not> is_profile t \<longrightarrow> t \<in> set (es_Triples e')) \<and>
     (\<forall>t\<in>set (es_Triples e'). \<not> is_profile t \<longrightarrow> t \<in> set (es_Triples e) \<union> set (es_Triples e0) \<union> set h) \<and>
     length (filter is_profile (es_Triples e')) = 1 \<and>
     (\<forall>t. find is_profile (es_Triples e) = Some t \<longrightarrow> filter is_profile (es_Triples e') = [t])"

lemma merge_state:
  assumes "merge_inv e0 h (en, k)" "reconcileIndexingProfile G
      (e\<lparr>es_Triples := MergeTriples (es_Triples e)
           (if hasIndexingProfileTriple e then triplesWithoutPredicate (es_Triples en) EntityIndexingProfile else es_Triples en),
         es_MessageType := es_MessageType en, es_StorageRef := ref\<rparr>) st = (st', e2)"
  shows "merged e0 h e (e2\<lparr>es_Version := es_Version e2 + 1, es_UpdatedAt := now\<rparr>)"
proof -
  let ?new = "if hasIndexingProfileTriple e then triplesWithoutPredicate (es_Triples en) EntityIndexingProfile else es_Triples en"
  let ?M = "MergeTriples (es_Triples e) ?new"
  obtain ts where ts: "e2 = e\<lparr>es_MessageType := es_MessageType en, es_StorageRef := ref, es_Triples := ts\<rparr>" "length (filter is_profile ts) = 1"
      "\<And>t. find is_profile ?M = Some t \<Longrightarrow> filter is_profile ts = [t]" "\<And>t. \<not> is_profile t \<Longrightarrow> t \<in> set ts \<longleftrightarrow> t \<in> set ?M"
    using reconcile_profile[OF assms(2)] by auto
  have n: "\<not> is_profile t \<Longrightarrow> t \<in> set ?new \<longleftrightarrow> t \<in> set (es_Triples en)" for t
    by (simp add: triplesWithoutPredicate_def)
  have I: "\<not> is_profile t \<Longrightarrow> t \<in> set (es_Triples en) \<Longrightarrow> t \<in> set (es_Triples e0) \<union> set h"
      "\<not> is_profile t \<Longrightarrow> t \<in> set (es_Triples e0) \<Longrightarrow> t \<in> set (es_Triples en)" for t
    using assms(1) by (auto simp: merge_inv_def)
  have keep: "t \<in> set ts" if "t \<in> set (es_Triples e)" "\<not> is_profile t" "\<forall>n\<in>set (es_Triples e0) \<union> set h. \<not> same_slot t n" for t
  proof -
    have "\<not> same_slot t m" if "m \<in> set ?new" for m
      using that \<open>\<not> is_profile t\<close> n[of m] I(1)[of m] \<open>\<forall>n\<in>_. \<not> same_slot t n\<close> by (cases "is_profile m") (auto simp: same_slot_def)
    then show ?thesis using ts(4)[OF that(2)] that(1) by (simp add: MergeTriples_set)
  qed
  have "filter is_profile ts = [t]" if "find is_profile (es_Triples e) = Some t" for t
  proof -
    have "hasIndexingProfileTriple e" using that by (auto simp: hasIndexingProfileTriple_def list_ex_iff find_Some_iff)
    then have "find is_profile ?M = find is_profile (es_Triples e)"
      by (intro MergeTriples_profile) (simp add: triplesWithoutPredicate_def)
    then show ?thesis using ts(3) that by simp
  qed
  moreover have "t \<in> set (es_Triples e) \<union> set (es_Triples e0) \<union> set h" if "t \<in> set ts" "\<not> is_profile t" for t
    using that ts(4)[OF that(2)] n[OF that(2)] I(1)[OF that(2)] unfolding MergeTriples_set by blast
  ultimately show ?thesis
    using keep ts(1,2,4) n I(2) assms(1) by (simp add: merged_def MergeTriples_set merge_inv_def) blast
qed

context ingest_authority
begin

lemma merge_update_inv:
  assumes "merge_update G ctx h cur (st, en, k) = ((st', c), r)" "merge_inv e0 h (en, k)"
  shows "merge_inv e0 h c"
proof (cases "cur = []")
  case True
  obtain st1 e1 where p: "reconcileIndexingProfile G (en\<lparr>es_Triples := es_Triples en @ h\<rparr>) st = (st1, e1)" by fastforce
  from reconcile_profile[OF p] assms(2) have "merge_inv e0 h (e1, n)" for n by (auto simp: merge_inv_def)
  then show ?thesis using assms(1) True p by (auto simp: merge_update_def Let_def split: sum.splits)
next
  case False
  have "fst c = en \<or> fst c = en\<lparr>es_Triples := reconcileInPlace (es_Triples en)\<rparr>"
    using assms(1) False by (auto simp: merge_update_def Let_def split: sum.splits prod.splits)
  then show ?thesis using assms(2) by (auto simp: merge_inv_def reconcileInPlace_set)
qed

lemma merge_update_steady: "steady_update (cap_ok ok (merge_inv e0 h)) (cap_log wlog) (merge_update G ctx h)"
  unfolding steady_update_def
proof (intro allI)
  fix cur and w :: "'s ingest \<times> EntityState \<times> nat"
  obtain st en k where w: "w = (st, en, k)" by (metis prod.collapse)
  obtain st' c r where u: "merge_update G ctx h cur w = ((st', c), r)" by (metis prod.collapse)
  have c: "in_steady ok wlog st st'" if "classifyStoredStateRMWError G ctx i cur err st = (st', e)" for i err st st' e
    using classify_in_steady[OF bucket, of st ctx i cur err] that by simp
  have n: "in_steady ok wlog st st'" if "now_of G st = (st', t)" for st st' t
    using now_in_steady[OF quiet, of st] that by simp
  have p: "in_steady ok wlog st st'" if "reconcileIndexingProfile G e st = (st', e')" for e st st' e'
    using stamp_in_steady(3)[OF that] by blast
  have "in_steady ok wlog st st'"
    using u unfolding w merge_update_def Let_def
    by (auto split: prod.splits sum.splits if_splits dest!: c n p intro: steady_trans)
  then show "steady (cap_ok ok (merge_inv e0 h)) (cap_log wlog) w (fst (merge_update G ctx h cur w))"
    using merge_update_inv[of ctx h cur st en k st' c r e0] u w by (auto intro: cap_steadyI)
qed

lemma merge_update_Inr:
  assumes "merge_update G ctx h cur (st, en, k) = (w', Inr data)" "merge_inv e0 h (en, k)"
  shows "\<exists>e'. MarshalEntityState J e' = Inr data \<and>
    (if cur = [] then born e0 h e' else \<exists>e. ec_decode J cur = Inr e \<and> merged e0 h e e')"
proof (cases "cur = []")
  case True
  obtain st1 e1 where p: "reconcileIndexingProfile G (en\<lparr>es_Triples := es_Triples en @ h\<rparr>) st = (st1, e1)" by fastforce
  from reconcile_profile[OF p] assms(2) have "born e0 h e1" by (fastforce simp: merge_inv_def born_def)
  then show ?thesis using assms(1) True p by (auto simp: merge_update_def Let_def codec split: sum.splits)
next
  case False
  obtain e where e: "ec_decode J cur = Inr e"
    using assms(1) False by (auto simp: merge_update_def Let_def UnmarshalEntityStateTrusted_def codec split: sum.splits prod.splits)
  define ref where "ref = (if es_StorageRef en \<noteq> None then es_StorageRef en else es_StorageRef e)"
  obtain st1 e1 where p: "reconcileIndexingProfile G (e\<lparr>es_Triples := MergeTriples (es_Triples e)
           (if hasIndexingProfileTriple e then triplesWithoutPredicate (es_Triples en) EntityIndexingProfile else es_Triples en),
         es_MessageType := es_MessageType en, es_StorageRef := ref\<rparr>) st = (st1, e1)" by fastforce
  obtain st2 now where n: "now_of G st1 = (st2, now)" by fastforce
  have "MarshalEntityState J (e1\<lparr>es_Version := es_Version e1 + 1, es_UpdatedAt := now\<rparr>) = Inr data"
    using assms(1) False e p[unfolded ref_def] n
    by (auto simp: merge_update_def Let_def UnmarshalEntityStateTrusted_def codec split: sum.splits prod.splits)
  then show ?thesis using merge_state[OF assms(2) p] e False by auto
qed

lemma probe_steady:
  assumes "hierarchyProbe G H ctx i st = (st', h)" "\<forall>f. H = Some f \<longrightarrow> (\<forall>c i st. in_steady ok wlog st (fst (f c i st)))"
  shows "in_steady ok wlog st st' \<and> (H = None \<longrightarrow> h = [])"
proof (cases H)
  case (Some f)
  obtain st1 g where g: "on_world (kv_Get (gi_bucket G) ctx i) st = (st1, g)" by fastforce
  obtain st2 q where f: "f ctx i st1 = (st2, q)" by fastforce
  note 1 = get_in_steady[OF bucket g]
  have "in_steady ok wlog st1 st2" using assms(2) Some f by (metis fst_conv)
  from steady_trans[OF 1 this] show ?thesis
    using assms(1) 1 Some g f by (auto simp: hierarchyProbe_def split: sum.splits if_splits)
qed (use assms(1) in \<open>simp add: hierarchyProbe_def\<close>)

lemma merge_committed:
  assumes run: "mergeEntityOnLane G H ctx (Some e0) lane st = (st', e1, Ok u)" and ok: "ok (in_world st)"
    and H: "\<forall>f. H = Some f \<longrightarrow> (\<forall>c i st. in_steady ok wlog st (fst (f c i st)))"
    and p: "hierarchyProbe G H ctx (es_ID e0) st = (st1, h)"
  shows "\<exists>r b e'. MarshalEntityState J e' = Inr b \<and>
    committed (wlog (in_world st)) (wlog (in_world st')) (es_ID e0) r (Some b)
      (\<lambda>pre. case live_value (es_ID e0) pre of None \<Rightarrow> born e0 h e'
         | Some b0 \<Rightarrow> if b0 = [] then born e0 h e' else \<exists>e. ec_decode J b0 = Inr e \<and> merged e0 h e e')"
proof -
  note P = probe_steady[OF p H]
  have ok1: "ok (in_world st1)" "prefix (wlog (in_world st)) (wlog (in_world st1))" using P ok by (auto simp: steady_def)
  let ?run = "UpdateWithRetryRev (cap_env (gi_retry G)) (cap_store (gi_bucket G)) ctx (es_ID e0) (merge_update G ctx h) (st1, e0, 0)"
  obtain st2 en k r where c: "?run = ((st2, en, k), Ok r)"
    and rest: "in_steady ok wlog st2 st'"
  proof -
    obtain st2 en k q where q: "?run = ((st2, en, k), q)" by (metis prod.collapse)
    let ?a = "invalidateEntityCacheEntry (es_ID en) (clearEntityPoisonOnCommit G ctx (es_ID en) 0 st2)"
    let ?b = "updateSuffixIndex G ctx (es_ID en) ?a"
    let ?c = "?b\<lparr>in_messagesProcessed := in_messagesProcessed ?b + 1, in_bytesProcessed := in_bytesProcessed ?b + of_nat k\<rparr>"
    have "\<exists>r. q = Ok r" and w: "in_world st' = in_world (fst (now_of G ?c))"
      using run p q by (auto simp: mergeEntityOnLane_def UpdateWithRetry_def Let_def split: option.splits prod.splits go_res.splits)
    moreover have "in_steady ok wlog st2 ?a" using clear_commit_in_steady[OF bucket, of st2 ctx "es_ID en" 0] by simp
    then have "in_steady ok wlog st2 ?b" using steady_trans[OF _ suffix_in_steady(1)[OF quiet]] by blast
    then have "in_steady ok wlog st2 (fst (now_of G ?c))" using steady_trans[OF _ now_in_steady[OF quiet, of ?c]] by simp
    ultimately show ?thesis using that q by auto
  qed
  have env: "steady_env (cap_ok ok (merge_inv e0 h)) (cap_log wlog) (cap_env (gi_retry G))"
    using cap_env_steady quiet by (auto simp: ingest_steady_def)
  have ok1': "cap_ok ok (merge_inv e0 h) (st1, e0, 0)" using ok1 by (auto simp: cap_ok_def merge_inv_def)
  from cas_bucket.UpdateWithRetryRev_atomic[OF cap_cas_bucket cap_kv merge_update_steady env c ok1']
  obtain b pre post s1 s2 where l: "wlog (in_world st2) = pre @ \<lparr>kc_rev = r, kc_key = es_ID e0, kc_val = Some b\<rparr> # post"
      "prefix (wlog (in_world st1)) pre" "cap_ok ok (merge_inv e0 h) s1"
      "merge_update G ctx h (case live_value (es_ID e0) pre of None \<Rightarrow> [] | Some x \<Rightarrow> x) s1 = (s2, Inr b)"
    unfolding committed_def cap_log_def by auto
  obtain sa en1 k1 where s1: "s1 = (sa, en1, k1)" by (metis prod.collapse)
  have "merge_inv e0 h (en1, k1)" using l(3) s1 by (simp add: cap_ok_def)
  from merge_update_Inr[OF l(4)[unfolded s1] this] obtain e' where e': "MarshalEntityState J e' = Inr b"
      "case live_value (es_ID e0) pre of None \<Rightarrow> born e0 h e'
         | Some b0 \<Rightarrow> if b0 = [] then born e0 h e' else \<exists>e. ec_decode J b0 = Inr e \<and> merged e0 h e e'"
    by (auto split: option.splits)
  have "ok (in_world st2)"
    using cas_bucket.UpdateWithRetryRev_steady[OF cap_cas_bucket cap_kv merge_update_steady env c] ok1'
    by (auto simp: steady_def cap_ok_def)
  then have x: "prefix (wlog (in_world st2)) (wlog (in_world st'))" using rest by (simp add: steady_def)
  have "committed (wlog (in_world st)) (wlog (in_world st2)) (es_ID e0) r (Some b)
      (\<lambda>pre. case live_value (es_ID e0) pre of None \<Rightarrow> born e0 h e'
         | Some b0 \<Rightarrow> if b0 = [] then born e0 h e' else \<exists>e. ec_decode J b0 = Inr e \<and> merged e0 h e e')"
    unfolding committed_def using l(1) e'(2) prefix_order.trans[OF ok1(2) l(2)] by blast
  from committed_extend[OF this x] show ?thesis using P e'(1) by blast
qed

end

text \<open>C4. Merging an arriving entity loses nothing of the stored one that the merge does not speak about.
  Let \<open>h\<close> be the hierarchy triples the inference gave for this merge; there are none unless the entity
  was absent when the merge first looked.  The acknowledged write carries every non-profile triple of
  the arrival and exactly one profile.  Relative to the state that was live immediately before it,
  whatever was written concurrently: it is one version above that state; it keeps every stored
  non-profile triple whose subject and predicate occur neither in the arrival nor in \<open>h\<close> (after a
  lost first write the code does replace the slots of \<open>h\<close> in an entity stored meanwhile); it leaves
  the indexing profile chosen at creation as it was; and it adds nothing but triples of the arrival
  and of \<open>h\<close>, and a profile.  Without a live state the written entity has no other non-profile
  triples than those of the arrival and of \<open>h\<close>.\<close>

theorem merge_keeps_stored:
  assumes "ingest_authority B ok wlog J G" "ok (in_world st)"
    and "\<forall>f. H = Some f \<longrightarrow> (\<forall>c i st. in_steady ok wlog st (fst (f c i st)))"
    and "hierarchyProbe G H ctx (es_ID e0) st = (st1, h)"
    and "mergeEntityOnLane G H ctx (Some e0) lane st = (st', e1, Ok ())"
  shows "\<exists>r b e'. MarshalEntityState J e' = Inr b \<and>
    (\<forall>t\<in>set (es_Triples e0). tr_Predicate t \<noteq> EntityIndexingProfile \<longrightarrow> t \<in> set (es_Triples e')) \<and>
    length (filter (\<lambda>t. tr_Predicate t = EntityIndexingProfile) (es_Triples e')) = 1 \<and>
    committed (wlog (in_world st)) (wlog (in_world st')) (es_ID e0) r (Some b)
      (\<lambda>pre. case live_value (es_ID e0) pre of
         Some (c0 # b0) \<Rightarrow>
           (\<exists>e. ec_decode J (c0 # b0) = Inr e \<and> es_ID e' = es_ID e \<and> es_Version e' = es_Version e + 1 \<and>
             (\<forall>t\<in>set (es_Triples e). tr_Predicate t \<noteq> EntityIndexingProfile \<and>
               (\<forall>n\<in>set (es_Triples e0) \<union> set h. tr_Subject t \<noteq> tr_Subject n \<or> tr_Predicate t \<noteq> tr_Predicate n) \<longrightarrow> t \<in> set (es_Triples e')) \<and>
             (\<forall>t\<in>set (es_Triples e'). tr_Predicate t \<noteq> EntityIndexingProfile \<longrightarrow>
                t \<in> set (es_Triples e) \<union> set (es_Triples e0) \<union> set h) \<and>
             (\<forall>t. find (\<lambda>t. tr_Predicate t = EntityIndexingProfile) (es_Triples e) = Some t \<longrightarrow>
                filter (\<lambda>t. tr_Predicate t = EntityIndexingProfile) (es_Triples e') = [t]))
       | _ \<Rightarrow> es_ID e' = es_ID e0 \<and>
           (\<forall>t\<in>set (es_Triples e'). tr_Predicate t \<noteq> EntityIndexingProfile \<longrightarrow> t \<in> set (es_Triples e0) \<union> set h))"
proof -
  from ingest_authority.merge_committed[OF assms(1,5,2,3,4)] obtain r b e' where m: "MarshalEntityState J e' = Inr b"
      "committed (wlog (in_world st)) (wlog (in_world st')) (es_ID e0) r (Some b)
        (\<lambda>pre. case live_value (es_ID e0) pre of None \<Rightarrow> born e0 h e'
           | Some b0 \<Rightarrow> if b0 = [] then born e0 h e' else \<exists>e. ec_decode J b0 = Inr e \<and> merged e0 h e e')"
    by blast
  then have "born e0 h e' \<or> (\<exists>e. merged e0 h e e')" unfolding committed_def by (auto split: option.splits if_splits)
  then have a: "\<forall>t\<in>set (es_Triples e0). tr_Predicate t \<noteq> EntityIndexingProfile \<longrightarrow> t \<in> set (es_Triples e')"
      "length (filter (\<lambda>t. tr_Predicate t = EntityIndexingProfile) (es_Triples e')) = 1"
    by (auto simp: born_def merged_def)
  show ?thesis
    by (intro exI[of _ r] exI[of _ b] exI[of _ e'] conjI m(1) a committed_mono[OF m(2) prefix_order.refl])
      (auto simp: born_def merged_def same_slot_def split: option.splits list.splits)
qed

definition wit_profile :: Triple where
  "wit_profile = (wit_triple ''entity.indexing.profile'' ''control'' 7)\<lparr>tr_Source := ''graph-ingest-indexing-profile''\<rparr>"

definition wit_arrival :: EntityState where
  "wit_arrival = wit_entity\<lparr>es_Triples := [wit_added]\<rparr>"

definition wit_merged :: EntityState where
  "wit_merged = wit_entity\<lparr>es_Triples := [wit_added, wit_triple ''drone.state.phase'' ''idle'' 0, wit_profile], es_Version := 2, es_UpdatedAt := 7\<rparr>"

definition wit_merge_table :: "(EntityState \<times> bytes) list" where
  "wit_merge_table = [(wit_entity, ''idle-state''), (wit_merged, ''merged-state'')]"

definition wit_merge_ingest :: "mem_world ingest_env" where
  "wit_merge_ingest = wit_ingest\<lparr>gi_codec := table_codec wit_merge_table\<rparr>"

lemma wit_merged_ok: "native_entity wit_merged"
proof -
  have "valid_utf8 ''entity.indexing.profile''" "valid_utf8 ''control''" "valid_utf8 ''graph-ingest-indexing-profile''"
    "valid_utf8 ''acme.prod.ops.fleet.drone.d1''" by code_simp+
  then have "native_triple wit_profile"
    by (simp add: wit_profile_def native_triple_def wit_triple_def json_time_ok_def f64_round_1 del: valid_utf8.simps(2))
  then show ?thesis
    using wit_charged_ok wit_entity_ok(1) by (simp add: wit_merged_def native_entity_def wit_entity_def json_time_ok_def del: valid_utf8.simps(2))
qed

interpretation wit_mrg: ingest_authority mem_bucket mem_ok mw_log "table_codec wit_merge_table" wit_merge_ingest
proof (intro ingest_authority.intro ingest_authority_axioms.intro mem.cas_bucket_axioms)
  have "wit_entity \<noteq> wit_merged" by (simp add: wit_merged_def wit_entity_def zero_entity_def)
  then show "entity_json (table_codec wit_merge_table)"
    by (intro table_codec_json) (use wit_entity_ok wit_merged_ok in \<open>auto simp: wit_merge_table_def\<close>)
qed (use wit.quiet wit.clock in \<open>simp_all add: wit_merge_ingest_def ingest_steady_def wit_ingest_def wit_kv_def\<close>)

text \<open>The entity is absent when the merge looks for it, so its hierarchy is inferred; another client stores
  it before the compare-and-swap reads, and the merge keeps what that client wrote.\<close>

definition wit_edge :: Triple where
  "wit_edge = wit_triple ''hierarchy.type.container'' ''acme.prod.ops.fleet.drone.group'' 0"

definition wit_hierarchy :: "mem_world hierarchy" where
  "wit_hierarchy = Some (\<lambda>_ _ st. (st, Inr [wit_edge]))"

definition wit_merge_start :: "mem_world ingest" where
  "wit_merge_start = wit_ingest_state\<lparr>in_world := \<lparr>mw_log = [],
     mw_script = [([], Delivered), ([(''acme.prod.ops.fleet.drone.d1'', Some ''idle-state'')], Delivered)], mw_own = 0\<rparr>\<rparr>"

definition wit_merge_run :: "mem_world ingest \<times> EntityState option \<times> unit go_res" where
  "wit_merge_run = mergeEntityOnLane wit_merge_ingest wit_hierarchy (Ctx 0) (Some wit_arrival) False wit_merge_start"

lemma wit_merge_result: "snd (snd wit_merge_run) = Ok ()" "mw_log (in_world (fst wit_merge_run)) =
    [\<lparr>kc_rev = 1, kc_key = ''acme.prod.ops.fleet.drone.d1'', kc_val = Some ''idle-state''\<rparr>,
     \<lparr>kc_rev = 2, kc_key = ''acme.prod.ops.fleet.drone.d1'', kc_val = Some ''merged-state''\<rparr>]"
  "snd (hierarchyProbe wit_merge_ingest wit_hierarchy (Ctx 0) (es_ID wit_arrival) wit_merge_start) = [wit_edge]"
  by code_simp+

lemma wit_merge_encoding:
  "MarshalEntityState (table_codec wit_merge_table) e = Inr ''idle-state'' \<Longrightarrow> e = wit_entity"
  "ec_decode (table_codec wit_merge_table) ''idle-state'' = Inr e \<longleftrightarrow> e = wit_entity"
  by (auto simp: Marshal_Inr table_codec_def wit_merge_table_def split: option.splits if_splits)

theorem merge_keeps_stored_witness:
  "\<exists>e'. MarshalEntityState (table_codec wit_merge_table) e' = Inr ''merged-state'' \<and> wit_added \<in> set (es_Triples e') \<and>
     wit_triple ''drone.state.phase'' ''idle'' 0 \<in> set (es_Triples e') \<and> es_Version e' = es_Version wit_entity + 1"
proof -
  let ?J = "table_codec wit_merge_table" and ?k = "''acme.prod.ops.fleet.drone.d1''"
    and ?phase = "wit_triple ''drone.state.phase'' ''idle'' 0"
  have 1: "mem_ok (in_world wit_merge_start)" by (simp add: mem_ok_def wit_merge_start_def log_ok_def)
  have 2: "\<forall>f. wit_hierarchy = Some f \<longrightarrow> (\<forall>c i st. in_steady mem_ok mw_log st (fst (f c i st)))"
    by (simp add: wit_hierarchy_def steady_def)
  obtain st1 where 3: "hierarchyProbe wit_merge_ingest wit_hierarchy (Ctx 0) (es_ID wit_arrival) wit_merge_start = (st1, [wit_edge])"
    using wit_merge_result(3) by (metis prod.collapse)
  obtain e1 where 4: "mergeEntityOnLane wit_merge_ingest wit_hierarchy (Ctx 0) (Some wit_arrival) False wit_merge_start =
      (fst wit_merge_run, e1, Ok ())"
    using wit_merge_result(1) by (metis prod.collapse wit_merge_run_def)
  have facts: "es_ID wit_arrival = ?k" "es_Triples wit_arrival = [wit_added]" "es_Triples wit_entity = [?phase]"
      "tr_Predicate wit_added = ''drone.battery.level''" "tr_Predicate ?phase = ''drone.state.phase''"
      "tr_Predicate wit_edge = ''hierarchy.type.container''" "EntityIndexingProfile = ''entity.indexing.profile''"
    by (simp_all add: wit_arrival_def wit_entity_def zero_entity_def wit_added_def wit_edge_def wit_triple_def EntityIndexingProfile_def)
  show ?thesis
    using merge_keeps_stored[OF wit_mrg.ingest_authority_axioms 1 2 3 4, unfolded wit_merge_result(2) committed_def]
  proof (elim exE conjE, goal_cases)
    case (1 r b e' pre post)
    have added: "wit_added \<in> set (es_Triples e')" using 1(2) by (simp add: facts)
    have "b \<noteq> ''idle-state''"
    proof
      assume "b = ''idle-state''"
      then have "e' = wit_entity" using 1(1) wit_merge_encoding(1) by blast
      with added facts(3) have "wit_added = ?phase" by simp
      then show False using facts(4,5) by simp
    qed
    then have pre: "pre = [\<lparr>kc_rev = 1, kc_key = ?k, kc_val = Some ''idle-state''\<rparr>]" "b = ''merged-state''"
      using 1(4) by (auto simp: Cons_eq_append_conv)
    have "live_value (es_ID wit_arrival) pre = Some ''idle-state''" unfolding pre facts(1) by code_simp
    with 1(6) have "es_Version e' = es_Version wit_entity + 1" "?phase \<in> set (es_Triples e')"
      by (auto simp: wit_merge_encoding(2) facts)
    with added 1(1) pre(2) show ?case by blast
  qed
qed

subsection \<open>Retried births repeat the hierarchy\<close>

text \<open>When the first create of an arriving entity is lost, the retry loop runs the closure again, still on an
  absent key, but on the entity it has already extended: the hierarchy triples are stored twice.\<close>

definition wit_birth :: "nat \<Rightarrow> EntityState" where
  "wit_birth n = wit_entity\<lparr>es_Triples := [wit_added, wit_edge, wit_profile] @ replicate n wit_edge\<rparr>"

definition wit_birth_ingest :: "mem_world ingest_env" where
  "wit_birth_ingest = wit_ingest\<lparr>gi_codec := table_codec [(wit_birth 0, ''once''), (wit_birth 1, ''twice'')]\<rparr>"

definition wit_first_attempt :: "(mem_world ingest \<times> EntityState \<times> nat) \<times> (go_error + bytes)" where
  "wit_first_attempt = merge_update wit_birth_ingest (Ctx 0) [wit_edge] [] (wit_ingest_state, wit_arrival, 0)"

lemma merge_retry_repeats_hierarchy:
  "snd wit_first_attempt = Inr ''once''"
  "snd (merge_update wit_birth_ingest (Ctx 0) [wit_edge] [] (fst wit_first_attempt)) = Inr ''twice''"
  "filter (\<lambda>t. t = wit_edge) (es_Triples (wit_birth 1)) = [wit_edge, wit_edge]"
  by code_simp+

subsection \<open>Retried merges into an entity without triples\<close>

text \<open>A stored entity without triples shares the array of the arriving triples.  When the arrival declares
  two profiles and the compare-and-swap is lost, the in-place filter has already rewritten the arrival,
  and the retry stores one of its triples twice.\<close>

definition wit_bare :: EntityState where
  "wit_bare = wit_entity\<lparr>es_Triples := []\<rparr>"

definition wit_two_profiles :: EntityState where
  "wit_two_profiles = wit_entity\<lparr>es_Triples := [wit_profile, wit_profile, wit_added]\<rparr>"

definition wit_filled :: "nat \<Rightarrow> EntityState" where
  "wit_filled n = wit_bare\<lparr>es_Triples := wit_profile # wit_added # replicate n wit_added, es_Version := 2, es_UpdatedAt := 7\<rparr>"

definition wit_bare_ingest :: "mem_world ingest_env" where
  "wit_bare_ingest = wit_ingest\<lparr>gi_codec := table_codec [(wit_bare, ''bare''), (wit_filled 0, ''once''), (wit_filled 1, ''twice'')]\<rparr>"

definition wit_lost_attempt :: "(mem_world ingest \<times> EntityState \<times> nat) \<times> (go_error + bytes)" where
  "wit_lost_attempt = merge_update wit_bare_ingest (Ctx 0) [] ''bare'' (wit_ingest_state, wit_two_profiles, 0)"

lemma merge_retry_repeats_arrival:
  "snd wit_lost_attempt = Inr ''once''"
  "snd (merge_update wit_bare_ingest (Ctx 0) [] ''bare'' (fst wit_lost_attempt)) = Inr ''twice''"
  "filter (\<lambda>t. t = wit_added) (es_Triples wit_two_profiles) = [wit_added]"
  "filter (\<lambda>t. t = wit_added) (es_Triples (wit_filled 1)) = [wit_added, wit_added]"
  by code_simp+

end
