(* ===== verification/Graph_Client.thy ===== *)
theory Graph_Client
  imports Graph_Ingest
begin

text \<open>
  The way from a client of the graph to graph-ingest and back: the error contract of request and
  reply (\<open>natsclient/errors.go\<close>, the responder of \<open>natsclient/request.go\<close>), the exact entity query
  (\<open>processor/graph-ingest/query.go\<close>) with its reader (\<open>graph/exact_entity.go\<close>), and the client of the
  canonical mutations (\<open>internal/graphmutation\<close>).  Requests and replies travel as structs; what the
  network does to them is the parameter \<open>nats_link\<close>: a request may not reach a responder, a
  reply may be too large, unpublished, lost or undecodable.  The locale \<open>graph_port\<close> states what a caller may
  rely on, and the session of a client with graph-ingest provides it.
\<close>

subsection \<open>Errors on the wire\<close>

type_synonym detail = "(string \<times> detail_value) list"

text \<open>\<open>encoding/json\<close> on the error envelope, and what the receiver reads of a header value: nats.go writes
  headers as text lines, so that line breaks and surrounding blanks of a value are not kept.\<close>

record error_body_codec =
  eb_marshal :: "string \<Rightarrow> detail \<Rightarrow> bytes option"
  eb_unmarshal :: "bytes \<Rightarrow> (string \<times> detail) option"
  eb_header :: "string \<Rightarrow> string"

text \<open>The values a header line keeps.\<close>

definition header_safe :: "string \<Rightarrow> bool" where
  "header_safe v \<longleftrightarrow>
     list_all (\<lambda>c. c \<noteq> CHR 0x0A \<and> c \<noteq> CHR 0x0D) v \<and>
     (v \<noteq> [] \<longrightarrow> hd v \<notin> {CHR 0x20, CHR 0x09} \<and> last v \<notin> {CHR 0x20, CHR 0x09})"

text \<open>A reply whose status header is \<open>error\<close>; an absent header reads as the empty string.\<close>

record error_reply =
  er_Class :: string
  er_Code :: string
  er_Data :: bytes

definition marshalErrorBody :: "error_body_codec \<Rightarrow> go_error \<Rightarrow> bytes" where
  "marshalErrorBody E err =
     (let detail = (case errors_as_classified err of Some (ce, _) \<Rightarrow> em_Detail ce | None \<Rightarrow> []) in
      case eb_marshal E (Error err) detail of
        Some b \<Rightarrow> b
      | None \<Rightarrow> (case eb_marshal E (Error err) [] of Some b \<Rightarrow> b | None \<Rightarrow> []))"

definition parseErrorBody :: "error_body_codec \<Rightarrow> bytes \<Rightarrow> string \<times> detail" where
  "parseErrorBody E data =
     (let raw = (if data = [] then (''handler error'', []) else (data, [])) in
      case eb_unmarshal E data of
        Some (message, detail) \<Rightarrow> if message \<noteq> [] then (message, detail) else raw
      | None \<Rightarrow> raw)"

definition classForHeader :: "go_error \<Rightarrow> string" where
  "classForHeader err =
     (case Classify (Some err) of
        ErrorInvalid \<Rightarrow> ''invalid''
      | ErrorFatal \<Rightarrow> ''fatal''
      | ErrorTransient \<Rightarrow> ''transient'')"

definition codeForHeader :: "go_error \<Rightarrow> string" where
  "codeForHeader err = (case errors_as_classified err of Some (ce, _) \<Rightarrow> em_Code ce | None \<Rightarrow> [])"

definition classifiedFromHeader :: "string \<Rightarrow> string \<Rightarrow> string \<Rightarrow> detail \<Rightarrow> go_error" where
  "classifiedFromHeader class code message detail =
     (let message = (if message = [] then ''handler error'' else message);
          inner = ErrText message;
          ec = (if class = ''fatal'' then ErrorFatal
                else if class = ''transient'' then ErrorTransient
                else if class = ''invalid'' then ErrorInvalid
                else ErrorInvalid)
      in if code \<noteq> [] \<or> detail \<noteq> [] then ClassifiedCodeDetail ec code detail inner
         else the (Classified ec (Some inner)))"

definition errMissingReplySubject :: go_error where
  "errMissingReplySubject = Sentinel ''natsclient: message has no reply subject''"

text \<open>The reply that is published, and the error of the call.  \<open>replyTo\<close> is the reply subject of the
  inbound message and \<open>published\<close> the result of \<open>msg.RespondMsg\<close>; an empty code sets no header.\<close>

definition RespondError ::
  "error_body_codec \<Rightarrow> string \<Rightarrow> go_error option \<Rightarrow> go_error option \<Rightarrow> error_reply option \<times> go_error option" where
  "RespondError E replyTo published err =
     (case err of
        None \<Rightarrow> (None, None)
      | Some err \<Rightarrow>
          if replyTo = [] then (None, Some errMissingReplySubject)
          else (case published of
             Some publishErr \<Rightarrow> (None, Some publishErr)
           | None \<Rightarrow>
               (Some \<lparr>er_Class = classForHeader err, er_Code = codeForHeader err, er_Data = marshalErrorBody E err\<rparr>, None)))"

text \<open>The headers as the receiver finds them.\<close>

definition carried :: "error_body_codec \<Rightarrow> error_reply + 'r \<Rightarrow> error_reply + 'r" where
  "carried E msg =
     map_sum (\<lambda>r. r\<lparr>er_Class := eb_header E (er_Class r),
       er_Code := (if er_Code r = [] then [] else eb_header E (er_Code r))\<rparr>) id msg"

definition ClassifyReply :: "error_body_codec \<Rightarrow> error_reply + 'r \<Rightarrow> go_error + 'r" where
  "ClassifyReply E msg =
     (case msg of
        Inl reply \<Rightarrow>
          let (message, detail) = parseErrorBody E (er_Data reply)
          in Inl (classifiedFromHeader (er_Class reply) (er_Code reply) message detail)
      | Inr data \<Rightarrow> Inr data)"

subsection \<open>Request and reply\<close>

datatype reply_fate =
    Delivered
  | TooLarge int int "go_error option" \<comment> \<open>the bytes of the response, the limit of the connection, and the error of publishing the refusal\<close>
  | PublishFailed go_error
  | Lost
  | Garbled go_error \<comment> \<open>the body does not decode\<close>

record 'w nats_link =
  nl_ctx_err :: "go_ctx \<Rightarrow> 'w \<Rightarrow> go_error option"
  nl_deliver :: "go_ctx \<Rightarrow> string \<Rightarrow> 'w \<Rightarrow> 'w \<times> go_error option"
  nl_handler_ctx :: "go_ctx \<Rightarrow> go_ctx" \<comment> \<open>the context of the responder\<close>
  nl_replyTo :: string \<comment> \<open>the reply subject of a request\<close>
  nl_return :: "go_ctx \<Rightarrow> 'w \<Rightarrow> 'w \<times> reply_fate"
  nl_silence :: "go_ctx \<Rightarrow> 'w \<Rightarrow> go_error" \<comment> \<open>the error of a request that gets no reply\<close>
  nl_body :: error_body_codec

definition ErrNoResponders :: go_error where
  "ErrNoResponders = Sentinel ''nats: no responders available for request''"

definition IsNoResponders :: "go_error \<Rightarrow> bool" where
  "IsNoResponders err \<longleftrightarrow> errors_is err ErrNoResponders"

text \<open>What the callback of \<open>SubscribeForRequests\<close> publishes for the result of its handler, if anything;
  errors of publishing are logged.\<close>

definition respond :: "error_body_codec \<Rightarrow> string \<Rightarrow> reply_fate \<Rightarrow> go_error + 'r \<Rightarrow> (error_reply + (go_error + 'r)) option" where
  "respond E replyTo fate r =
     (case r of
        Inl err \<Rightarrow>
          map_option Inl (fst (RespondError E replyTo (case fate of PublishFailed e \<Rightarrow> Some e | _ \<Rightarrow> None) (Some err)))
      | Inr v \<Rightarrow>
          if replyTo = [] then None
          else (case fate of
             TooLarge n limit published \<Rightarrow>
               map_option Inl (fst (RespondError E replyTo published (Some (ClassifiedCodeDetail ErrorInvalid ''response_too_large''
                 [(''response_bytes'', DInt n), (''max_payload'', DInt limit)]
                 (ErrText ''response exceeds active NATS maximum payload'')))))
           | PublishFailed e \<Rightarrow> None
           | Garbled e \<Rightarrow> Some (Inr (Inl e))
           | _ \<Rightarrow> Some (Inr (Inr v))))"

definition RequestClassified ::
  "'w nats_link \<Rightarrow> go_ctx \<Rightarrow> string \<Rightarrow> (go_ctx \<Rightarrow> 'w \<Rightarrow> 'w \<times> (go_error + 'r)) \<Rightarrow> 'w \<Rightarrow> 'w \<times> (go_error + (go_error + 'r))" where
  "RequestClassified L ctx subject handler w =
     (case nl_deliver L ctx subject w of
        (w, Some err) \<Rightarrow> (w, Inl err)
      | (w, None) \<Rightarrow>
          let (w, r) = handler (nl_handler_ctx L ctx) w;
              (w, fate) = nl_return L ctx w
          in case (if fate = Lost then None else respond (nl_body L) (nl_replyTo L) fate r) of
               None \<Rightarrow> (w, Inl (nl_silence L ctx w))
             | Some msg \<Rightarrow> (w, ClassifyReply (nl_body L) (carried (nl_body L) msg)))"

subsection \<open>The exact entity query\<close>

record ExactEntity =
  ex_Entity :: EntityState
  ex_KVRevision :: revision

text \<open>Flags of the component's start-up sweep.\<close>

record query_flags =
  qf_entityWatchLost :: bool
  qf_entityBootstrapStarted :: bool
  qf_entityBootstrapComplete :: bool

definition ensureEntityQueriesReady :: "query_flags \<Rightarrow> go_error option" where
  "ensureEntityQueriesReady f =
     (if qf_entityWatchLost f then
        Some (ClassifiedCode ErrorTransient ''index_not_ready''
          (ErrText ''graph-ingest query not ready: ENTITY_STATES snapshot sweep unavailable''))
      else if qf_entityBootstrapStarted f \<and> \<not> qf_entityBootstrapComplete f then
        Some (ClassifiedCode ErrorTransient ''index_not_ready''
          (ErrText ''graph-ingest query not ready: ENTITY_STATES bootstrap validating''))
      else None)"

definition classifyEntityQueryError :: "go_error \<Rightarrow> go_error" where
  "classifyEntityQueryError err =
     (if IsStateContractError (Some err) then ClassifyStateContractError err
      else ClassifiedCode ErrorTransient ''internal'' err)"

definition validateEntityQueryValue ::
  "'s ingest_env \<Rightarrow> go_ctx \<Rightarrow> string \<Rightarrow> bytes \<Rightarrow> revision \<Rightarrow> 's ingest \<Rightarrow> 's ingest \<times> go_error option" where
  "validateEntityQueryValue G ctx entityID data revision st =
     (case UnmarshalEntityState (gi_codec G) data of
        Inl err \<Rightarrow>
          (case errors_as_state err of
             Some (r, _, c) \<Rightarrow>
               (inventoryEntityPoison G ctx (Some \<lparr>sc_Reason = r, sc_EntityID = entityID, sc_Err = c\<rparr>) revision st,
                Some (classifyEntityQueryError (stamp_entity entityID err)))
           | None \<Rightarrow> (st, Some (classifyEntityQueryError err)))
      | Inr _ \<Rightarrow> (clearEntityPoisonOnValidRead entityID revision st, None))"

definition foreign_entity :: "string \<Rightarrow> string \<Rightarrow> go_error" where
  "foreign_entity i stored = ErrText (''authority key contains entity '' @ quoted stored)"

definition handleQueryEntityNATS ::
  "'s ingest_env \<Rightarrow> ('s ingest \<Rightarrow> query_flags) \<Rightarrow> string \<Rightarrow> go_ctx \<Rightarrow> 's ingest \<Rightarrow> 's ingest \<times> (go_error + ExactEntity)" where
  "handleQueryEntityNATS G flags i ctx st =
     (case ensureEntityQueriesReady (flags st) of
        Some err \<Rightarrow> (st, Inl err)
      | None \<Rightarrow>
          let ctx = WithTimeout ctx 5000000000 in
          (case validateEntityID_error i of
             Some err \<Rightarrow>
               (st, Inl (ClassifiedCode ErrorInvalid ''invalid_request'' (ErrWrap ''invalid request: entity ID: '' err [])))
           | None \<Rightarrow>
               (case on_world (kv_Get (gi_bucket G) ctx i) st of
                  (st, Inl err) \<Rightarrow>
                    (st, Inl (if IsKVNotFoundError (kv_bucket (gi_bucket G)) err
                       then ClassifiedCode ErrorInvalid ''entity_not_found'' (ErrText (''not found: '' @ i))
                       else ClassifiedCode ErrorTransient ''internal'' (ErrWrap ''internal error: '' err [])))
                | (st, Inr entry) \<Rightarrow>
                    (case validateEntityQueryValue G ctx i (ke_Value entry) (ke_Revision entry) st of
                       (st, Some err) \<Rightarrow> (st, Inl err)
                     | (st, None) \<Rightarrow>
                         (case UnmarshalEntityState (gi_codec G) (ke_Value entry) of
                            Inl err \<Rightarrow>
                              (st, Inl (ClassifiedCode ErrorFatal ErrorCodeGraphStateResetRequired
                                 (ErrWrap (''decode validated entity '' @ i @ '' at revision '' @ rev_text (ke_Revision entry) @ '': '') err [])))
                          | Inr entity \<Rightarrow>
                              if es_ID entity \<noteq> i then
                                (inventoryEntityPoison G ctx (Some \<lparr>sc_Reason = GraphStateReasonNoncanonicalEntityID, sc_EntityID = i,
                                    sc_Err = Some (foreign_entity i (es_ID entity))\<rparr>) (ke_Revision entry) st,
                                 Inl (ClassifyStateContractError (ErrStateContract GraphStateReasonNoncanonicalEntityID i
                                    (Some (foreign_entity i (es_ID entity))))))
                              else (st, Inr \<lparr>ex_Entity = entity, ex_KVRevision = ke_Revision entry\<rparr>))))))"

definition exactResponseError :: "go_error \<Rightarrow> go_error" where
  "exactResponseError err = ClassifiedCode ErrorFatal ''internal'' err"

text \<open>The checks of the reader on a decoded envelope; a missing or null entity is \<open>None\<close>.\<close>

definition decodeExactEntity :: "string \<Rightarrow> EntityState option \<Rightarrow> revision \<Rightarrow> go_error + ExactEntity" where
  "decodeExactEntity entityID envelopeEntity envelopeRevision =
     (case envelopeEntity of
        None \<Rightarrow> Inl (exactResponseError (ErrText ''exact entity response has no entity''))
      | Some entity \<Rightarrow>
          if envelopeRevision = 0 then Inl (exactResponseError (ErrText ''exact entity response has zero KV revision''))
          else (case ValidateDecodedEntityState (Some entity) of
             Some err \<Rightarrow> Inl (ClassifyStateContractError err)
           | None \<Rightarrow>
               if es_ID entity \<noteq> entityID then
                 Inl (ClassifyStateContractError (ErrStateContract GraphStateReasonNoncanonicalEntityID entityID
                   (Some (foreign_entity entityID (es_ID entity)))))
               else Inr \<lparr>ex_Entity = entity, ex_KVRevision = envelopeRevision\<rparr>))"

definition ReadExactEntity ::
  "'s ingest nats_link \<Rightarrow> 's ingest_env \<Rightarrow> ('s ingest \<Rightarrow> query_flags) \<Rightarrow> go_ctx \<Rightarrow> string \<Rightarrow> 's ingest \<Rightarrow>
     's ingest \<times> (go_error + ExactEntity)" where
  "ReadExactEntity L G flags ctx i w =
     (case validateEntityID_error i of
        Some err \<Rightarrow> (w, Inl (ClassifiedCode ErrorInvalid ''invalid_request'' (ErrWrap ''exact entity ID: '' err [])))
      | None \<Rightarrow>
          (case RequestClassified L ctx ''graph.ingest.query.entity'' (handleQueryEntityNATS G flags i) w of
             (w, Inl err) \<Rightarrow> (w, Inl err)
           | (w, Inr (Inl err)) \<Rightarrow> (w, Inl (exactResponseError (ErrWrap ''decode exact entity response: '' err [])))
           | (w, Inr (Inr envelope)) \<Rightarrow>
               (w, decodeExactEntity i (Some (ex_Entity envelope)) (ex_KVRevision envelope))))"

subsection \<open>The client of the canonical mutations\<close>

datatype Operation = CreateEntity_op | ReconcilePredicates_op | AppendTriples_op | DeleteEntity_op

fun operation_string :: "Operation \<Rightarrow> string" where
  "operation_string CreateEntity_op = ''entity.create''"
| "operation_string ReconcilePredicates_op = ''entity.reconcile''"
| "operation_string AppendTriples_op = ''triple.append''"
| "operation_string DeleteEntity_op = ''entity.delete''"

definition ResolveSubject :: "Operation \<Rightarrow> string" where
  "ResolveSubject op = ''graph.mutation.'' @ operation_string op"

definition unknownReply :: "Operation \<Rightarrow> go_error \<Rightarrow> go_error" where
  "unknownReply op err = ErrTransport (operation_string op) ''commit_unknown'' err"

definition as_transport :: "go_error \<Rightarrow> string option" where
  "as_transport err =
     first_some (\<lambda>e. case e of ErrTransport _ outcome _ \<Rightarrow> Some outcome | _ \<Rightarrow> None) (chain err)"

definition IsCommitUnknown :: "go_error \<Rightarrow> bool" where
  "IsCommitUnknown err \<longleftrightarrow> as_transport err = Some ''commit_unknown''"

definition IsDefinitelyNotCommitted :: "go_error \<Rightarrow> bool" where
  "IsDefinitelyNotCommitted err \<longleftrightarrow> as_transport err = Some ''unavailable'' \<or> as_transport err = Some ''deadline''"

text \<open>\<open>json.Marshal\<close> of a request fails on a triple without a JSON form.\<close>

definition triple_encodes :: "Triple \<Rightarrow> bool" where
  "triple_encodes t \<longleftrightarrow>
     json_marshal (tr_Object t) \<noteq> None \<and> json_time_ok (tr_Timestamp t) \<and>
     (case tr_ExpiresAt t of None \<Rightarrow> True | Some x \<Rightarrow> json_time_ok x)"

definition client_request ::
  "'w nats_link \<Rightarrow> go_ctx \<Rightarrow> Operation \<Rightarrow> Triple list \<Rightarrow> (go_ctx \<Rightarrow> 'w \<Rightarrow> 'w \<times> (go_error + 'r)) \<Rightarrow> 'w \<Rightarrow> 'w \<times> (go_error + 'r)" where
  "client_request L ctx op triples handler w =
     (case nl_ctx_err L ctx w of
        Some err \<Rightarrow> (w, Inl (ErrTransport (operation_string op) ''deadline'' err))
      | None \<Rightarrow>
          if \<not> list_all triple_encodes triples then
            (w, Inl (ErrWrap (''marshal graph mutation '' @ operation_string op @ '': '') (ErrText ''json: unsupported value'') []))
          else (case RequestClassified L ctx (ResolveSubject op) handler w of
             (w, Inl err) \<Rightarrow>
               (w, Inl (if errors_as_classified err \<noteq> None
                  then ErrWrap (''graph mutation '' @ operation_string op @ '' rejected: '') err []
                  else if IsNoResponders err then ErrTransport (operation_string op) ''unavailable'' err
                  else ErrTransport (operation_string op) ''commit_unknown'' err))
           | (w, Inr (Inl err)) \<Rightarrow> (w, Inl (unknownReply op (ErrWrap ''decode response: '' err [])))
           | (w, Inr (Inr r)) \<Rightarrow> (w, Inr r)))"

text \<open>The create handler on a decoded request.\<close>

definition createRequest ::
  "'s ingest_env \<Rightarrow> CreateEntityRequest \<Rightarrow> go_ctx \<Rightarrow> 's ingest \<Rightarrow> 's ingest \<times> (go_error + CreateEntityResponse)" where
  "createRequest G request ctx st =
     handleCanonicalCreate G \<lparr>jr_decode = (\<lambda>_. Inr request), jr_trailing = (\<lambda>_. TrailEOF),
       jr_fields = (\<lambda>_. Inr [''entity'', ''triples''])\<rparr> ctx [] st"

definition Client_Create ::
  "'s ingest nats_link \<Rightarrow> 's ingest_env \<Rightarrow> go_ctx \<Rightarrow> CreateEntityRequest \<Rightarrow> 's ingest \<Rightarrow> 's ingest \<times> (go_error + CreateEntityResponse)" where
  "Client_Create L G ctx request w =
     (case client_request L ctx CreateEntity_op (cr_Triples request) (createRequest G request) w of
        (w, Inl err) \<Rightarrow> (w, Inl err)
      | (w, Inr response) \<Rightarrow>
          if cp_Outcome response \<noteq> MutationApplied \<or> cr_Entity request = None \<or>
             es_ID (cp_Entity response) \<noteq> es_ID (the (cr_Entity request)) \<or> cp_KVRevision response = 0
          then (w, Inl (unknownReply CreateEntity_op (ErrText ''invalid create response'')))
          else (w, Inr response))"

definition Client_Reconcile ::
  "'s ingest nats_link \<Rightarrow> 's ingest_env \<Rightarrow> go_ctx \<Rightarrow> ReconcilePredicatesRequest \<Rightarrow> 's ingest \<Rightarrow>
     's ingest \<times> (go_error + ReconcilePredicatesResponse)" where
  "Client_Reconcile L G ctx request w =
     (case client_request L ctx ReconcilePredicates_op (rr_Desired request) (\<lambda>ctx. reconcileRequest G ctx request) w of
        (w, Inl err) \<Rightarrow> (w, Inl err)
      | (w, Inr response) \<Rightarrow>
          if rp_Outcome response \<noteq> MutationApplied \<and> rp_Outcome response \<noteq> MutationUnchanged \<or>
             es_ID (rp_Entity response) \<noteq> rr_EntityID request \<or> rp_KVRevision response = 0
          then (w, Inl (unknownReply ReconcilePredicates_op (ErrText ''invalid reconcile response'')))
          else (w, Inr response))"

definition Client_Delete ::
  "'s ingest nats_link \<Rightarrow> 's ingest_env \<Rightarrow> go_ctx \<Rightarrow> DeleteEntityRequest \<Rightarrow> 's ingest \<Rightarrow> 's ingest \<times> (go_error + DeleteEntityResponse)" where
  "Client_Delete L G ctx request w =
     (case client_request L ctx DeleteEntity_op [] (\<lambda>ctx. deleteRequest G ctx request) w of
        (w, Inl err) \<Rightarrow> (w, Inl err)
      | (w, Inr response) \<Rightarrow>
          if dp_Outcome response \<noteq> MutationApplied \<or> dp_EntityID response \<noteq> dr_EntityID request \<or>
             dp_ExpectedRevision response \<noteq> dr_ExpectedRevision request
          then (w, Inl (unknownReply DeleteEntity_op (ErrText ''invalid delete response'')))
          else (w, Inr response))"

text \<open>Every reply to an append is checked before it is believed.\<close>

fun append_result_invalid :: "string list \<Rightarrow> string list \<Rightarrow> AppendSubjectResult list \<Rightarrow> go_error option" where
  "append_result_invalid want seen [] = None"
| "append_result_invalid want seen (result # rest) =
     (let i = as_EntityID result in
      if \<not> List.member want i then Some (ErrText (''invalid append response subject '' @ quoted i))
      else if List.member seen i then Some (ErrText (''duplicate append response subject '' @ quoted i))
      else if as_Outcome result = MutationFailed then
        (case as_Error result of
           None \<Rightarrow> Some (ErrText (''invalid append failure for subject '' @ quoted i))
         | Some f \<Rightarrow>
             if mf_Class f = [] \<or> mf_Code f = [] \<or> as_KVRevision result \<noteq> 0
             then Some (ErrText (''invalid append failure for subject '' @ quoted i))
             else append_result_invalid want (i # seen) rest)
      else if as_Error result \<noteq> None then
        Some (ErrText (''append outcome for subject '' @ quoted i @ '' must not include an error''))
      else if as_Outcome result = MutationApplied \<or> as_Outcome result = MutationUnchanged then
        if as_KVRevision result = 0 then Some (ErrText (''append outcome for subject '' @ quoted i @ '' lacks revision''))
        else append_result_invalid want (i # seen) rest
      else if as_Outcome result = MutationEntityNotFound then
        if as_KVRevision result \<noteq> 0 then Some (ErrText (''not-found append result for subject '' @ quoted i @ '' has revision''))
        else append_result_invalid want (i # seen) rest
      else Some (ErrText (''invalid append outcome for subject '' @ quoted i)))"

definition validateAppendResponse :: "AppendTriplesRequest \<Rightarrow> AppendTriplesResponse \<Rightarrow> go_error option" where
  "validateAppendResponse request response =
     (let want = remdups (map tr_Subject (ar_Triples request)) in
      if want = [] \<or> length (ap_Results response) \<noteq> length want then
        Some (ErrText ''invalid append response result count'')
      else append_result_invalid want [] (ap_Results response))"

subsection \<open>The contract of an error survives the wire\<close>

lemma Classify_classified: "errors_as_classified err = Some (m, c) \<Longrightarrow> Classify (Some err) = em_Class m"
  by (cases "em_Class m") (auto simp: Classify_def IsTransient_def IsFatal_def IsInvalid_def)

lemma fromHeader_shape:
  "\<exists>meta t. classifiedFromHeader cl code message detail = ErrClassified meta (Some (ErrText t)) \<and> em_Code meta = code \<and>
     em_Class meta = (if cl = ''fatal'' then ErrorFatal else if cl = ''transient'' then ErrorTransient else ErrorInvalid)"
proof (cases "code \<noteq> [] \<or> detail \<noteq> []")
  case True
  then show ?thesis by (simp add: classifiedFromHeader_def Let_def ClassifiedCodeDetail_def newClassified_def)
next
  case False
  then show ?thesis
    by (simp add: classifiedFromHeader_def Let_def Classified_def newClassified_def inheritMachineContract_def errors_as_classified_def)
qed

lemma code_mismatch: "machine_code err = ''revision_mismatch'' \<Longrightarrow> errors_is err ErrRevisionMismatch"
proof -
  assume a: "machine_code err = ''revision_mismatch''"
  then obtain m c where m: "errors_as_classified err = Some (m, c)" "em_Code m = ''revision_mismatch''"
    by (auto simp: machine_code_def split: option.splits)
  then obtain x where "x \<in> set (chain err)" "as_classified x = Some (m, c)"
    using first_some_Some by (fastforce simp: errors_as_classified_def)
  moreover have "ClassifiedError_Is m ErrRevisionMismatch"
    using m(2) by (simp add: ClassifiedError_Is_def ErrRevisionMismatch_def errors_as_classified_def)
  ultimately show ?thesis by (force simp: errors_is_def list_ex_iff)
qed

text \<open>The error a receiver makes of an error reply.\<close>

lemma error_reply_contract:
  assumes "\<forall>v. header_safe v \<longrightarrow> eb_header E v = v" "header_safe (machine_code err)"
    and "ClassifyReply E (carried E (Inl \<lparr>er_Class = classForHeader err, er_Code = codeForHeader err, er_Data = marshalErrorBody E err\<rparr>))
      = Inl err'"
  shows "Classify (Some err') = Classify (Some err)" "machine_code err' = machine_code err"
    "errors_is err' ErrRevisionMismatch \<longleftrightarrow> machine_code err = ''revision_mismatch''"
proof -
  obtain m d where p: "parseErrorBody E (marshalErrorBody E err) = (m, d)" by fastforce
  have code: "codeForHeader err = machine_code err"
    by (auto simp: codeForHeader_def machine_code_def split: option.splits)
  have "eb_header E (classForHeader err) = classForHeader err"
    by (rule assms(1)[rule_format]) (auto simp: classForHeader_def header_safe_def split: ErrorClass.splits)
  then have "err' = classifiedFromHeader (classForHeader err) (machine_code err) m d"
    using assms p code by (auto simp: ClassifyReply_def carried_def)
  moreover obtain meta t where
    "classifiedFromHeader (classForHeader err) (machine_code err) m d = ErrClassified meta (Some (ErrText t))"
    "em_Class meta = Classify (Some err)" "em_Code meta = machine_code err"
    using fromHeader_shape[of "classForHeader err" "machine_code err" m d]
    by (cases "Classify (Some err)") (auto simp: classForHeader_def)
  ultimately have e: "err' = ErrClassified meta (Some (ErrText t))" "em_Class meta = Classify (Some err)"
    "em_Code meta = machine_code err" by simp_all
  show "Classify (Some err') = Classify (Some err)"
    using e by (simp add: Classify_classified[of _ meta "Some (ErrText t)"] errors_as_classified_def)
  show "machine_code err' = machine_code err" using e by (simp add: errors_as_classified_def machine_code_def)
  show "errors_is err' ErrRevisionMismatch \<longleftrightarrow> machine_code err = ''revision_mismatch''"
    using e(3) by (auto simp: e(1) errors_is_def ErrRevisionMismatch_def ClassifiedError_Is_def errors_as_classified_def)
qed

text \<open>C30. A handler error is never read as a success, and its contract survives the reply.  Let a request
  reach a handler that returns an error whose outermost machine code fits a header line, over a
  transport that keeps such header values.  When no reply is published (no reply subject, failed
  publishing) or the reply is lost, the requester gets its transport's error.  Otherwise the
  requester gets an error with the handling class and the outermost machine code of the handler error,
  whatever \<open>encoding/json\<close> makes of the body; it matches the revision-mismatch sentinel exactly when
  that outermost code is the mismatch code, so a match is never invented.  A mismatch hidden behind
  another outermost code does not match any more, as \<open>wrapped_mismatch_lost\<close> below shows.\<close>

theorem wire_keeps_class_and_code:
  fixes handler :: "go_ctx \<Rightarrow> 'w \<Rightarrow> 'w \<times> (go_error + 'r)"
  assumes "\<forall>v. header_safe v \<longrightarrow> eb_header (nl_body L) v = v" "header_safe (machine_code err)"
    and "nl_deliver L ctx subject w = (w1, None)" "handler (nl_handler_ctx L ctx) w1 = (w2, Inl err)"
    and "nl_return L ctx w2 = (w3, fate)"
  shows "\<exists>err'. RequestClassified L ctx subject handler w = (w3, Inl err') \<and>
    (if nl_replyTo L = [] \<or> fate = Lost \<or> (\<exists>e. fate = PublishFailed e) then err' = nl_silence L ctx w3
     else Classify (Some err') = Classify (Some err) \<and> machine_code err' = machine_code err \<and>
       (errors_is err' ErrRevisionMismatch \<longleftrightarrow> machine_code err = ''revision_mismatch'') \<and>
       (errors_is err' ErrRevisionMismatch \<longrightarrow> errors_is err ErrRevisionMismatch))"
proof (cases "nl_replyTo L = [] \<or> fate = Lost \<or> (\<exists>e. fate = PublishFailed e)")
  case True
  then show ?thesis using assms(3-5) by (auto simp: RequestClassified_def respond_def RespondError_def)
next
  case False
  let ?m = "Inl \<lparr>er_Class = classForHeader err, er_Code = codeForHeader err, er_Data = marshalErrorBody (nl_body L) err\<rparr> :: error_reply + (go_error + 'r)"
  have "\<exists>err'. ClassifyReply (nl_body L) (carried (nl_body L) ?m) = Inl err'"
    by (simp add: ClassifyReply_def carried_def split: prod.split)
  then obtain err' where c: "ClassifyReply (nl_body L) (carried (nl_body L) ?m) = Inl err'" ..
  have "respond (nl_body L) (nl_replyTo L) fate (Inl err) = Some ?m"
    using False by (cases fate) (auto simp: respond_def RespondError_def)
  then have "RequestClassified L ctx subject handler w = (w3, Inl err')"
    using False assms(3-5) c by (simp add: RequestClassified_def)
  then show ?thesis using False error_reply_contract[OF assms(1,2) c] code_mismatch by auto
qed

text \<open>A mismatch behind an internal error: the handler error matches the sentinel, the reply does not.\<close>

definition wit_hidden_mismatch :: go_error where
  "wit_hidden_mismatch = ClassifiedCode ErrorTransient ''internal'' (ClassifiedCode ErrorInvalid ''revision_mismatch'' (ErrText ''stale''))"

definition wit_unit_link :: "unit nats_link" where
  "wit_unit_link =
     \<lparr>nl_ctx_err = (\<lambda>_ _. None), nl_deliver = (\<lambda>_ _ w. (w, None)), nl_handler_ctx = (\<lambda>c. c), nl_replyTo = ''_INBOX.1'',
      nl_return = (\<lambda>_ w. (w, Delivered)), nl_silence = (\<lambda>_ _. ErrText ''nats: timeout''),
      nl_body = \<lparr>eb_marshal = (\<lambda>m d. Some m), eb_unmarshal = (\<lambda>b. Some (b, [])), eb_header = (\<lambda>v. v)\<rparr>\<rparr>"

theorem wire_keeps_class_and_code_witness:
  "\<exists>err'. RequestClassified wit_unit_link (Ctx 0) ''s'' (\<lambda>_ w. (w, Inl (ClassifiedCode ErrorInvalid ''revision_mismatch'' (ErrText ''stale'')) :: go_error + unit)) ()
      = ((), Inl err') \<and>
     Classify (Some err') = ErrorInvalid \<and> machine_code err' = ''revision_mismatch'' \<and> errors_is err' ErrRevisionMismatch"
proof -
  let ?e = "ClassifiedCode ErrorInvalid ''revision_mismatch'' (ErrText ''stale'')"
  let ?h = "\<lambda>_ w. (w, Inl ?e :: go_error + unit)"
  have e: "machine_code ?e = ''revision_mismatch''" "Classify (Some ?e) = ErrorInvalid" by code_simp+
  have "header_safe (machine_code ?e)" unfolding e by code_simp
  then show ?thesis
    using wire_keeps_class_and_code[of wit_unit_link ?e "Ctx 0" "''s''" "()" "()" ?h "()" "()" Delivered] e
    by (auto simp: wit_unit_link_def)
qed

lemma wrapped_mismatch_lost:
  "errors_is wit_hidden_mismatch ErrRevisionMismatch"
  "case snd (RequestClassified wit_unit_link (Ctx 0) ''s'' (\<lambda>_ w. (w, Inl wit_hidden_mismatch :: go_error + unit)) ()) of
     Inl err' \<Rightarrow> machine_code err' = ''internal'' \<and> \<not> errors_is err' ErrRevisionMismatch | Inr _ \<Rightarrow> False"
  by code_simp+

subsection \<open>What a caller may rely on\<close>

text \<open>The operations of a client, and the contract every one of them keeps towards the sequence of writes.\<close>

record 'w graph_ops =
  gr_read :: "go_ctx \<Rightarrow> string \<Rightarrow> 'w \<Rightarrow> 'w \<times> (go_error + ExactEntity)"
  gr_create :: "go_ctx \<Rightarrow> CreateEntityRequest \<Rightarrow> 'w \<Rightarrow> 'w \<times> (go_error + CreateEntityResponse)"
  gr_reconcile :: "go_ctx \<Rightarrow> ReconcilePredicatesRequest \<Rightarrow> 'w \<Rightarrow> 'w \<times> (go_error + ReconcilePredicatesResponse)"
  gr_delete :: "go_ctx \<Rightarrow> DeleteEntityRequest \<Rightarrow> 'w \<Rightarrow> 'w \<times> (go_error + DeleteEntityResponse)"

definition session_ops :: "'s ingest nats_link \<Rightarrow> 's ingest_env \<Rightarrow> ('s ingest \<Rightarrow> query_flags) \<Rightarrow> 's ingest graph_ops" where
  "session_ops L G flags =
     \<lparr>gr_read = ReadExactEntity L G flags, gr_create = Client_Create L G, gr_reconcile = Client_Reconcile L G,
      gr_delete = Client_Delete L G\<rparr>"

locale graph_port =
  fixes P :: "'w graph_ops" and good :: "'w \<Rightarrow> bool" and hist :: "'w \<Rightarrow> kv_commit list"
    and dec :: "bytes \<Rightarrow> go_error + EntityState" and T :: go_text
  assumes hist_ok: "good w \<Longrightarrow> log_ok (hist w)"
    and dec_native: "dec b = Inr e \<Longrightarrow> native_entity e \<and> contract_ok e"
    and read_steady: "gr_read P ctx i w = (w', rx) \<Longrightarrow> steady good hist w w'"
    and read_entry: "good w \<Longrightarrow> gr_read P ctx i w = (w', Inr x) \<Longrightarrow> es_ID (ex_Entity x) = i \<and>
           (\<exists>v. \<lparr>kc_rev = ex_KVRevision x, kc_key = i, kc_val = Some v\<rparr> \<in> set (hist w') \<and> dec v = Inr (ex_Entity x))"
    and create_steady: "gr_create P ctx cq w = (w', c) \<Longrightarrow> steady good hist w w'"
    and create_commit: "good w \<Longrightarrow> gr_create P ctx cq w = (w', Inr cp) \<Longrightarrow>
           \<exists>e b. cr_Entity cq = Some e \<and> es_ID (cp_Entity cp) = es_ID e \<and>
             committed (hist w) (hist w') (es_ID e) (cp_KVRevision cp) (Some b) (\<lambda>pre. live_value (es_ID e) pre = None) \<and>
             (native_entity (e\<lparr>es_Triples := cr_Triples cq\<rparr>) \<longrightarrow> cr_IndexingProfile cq = [] \<longrightarrow>
                dec b = Inr (cp_Entity cp) \<and>
                filter (\<lambda>t. tr_Predicate t \<noteq> EntityIndexingProfile) (es_Triples (cp_Entity cp)) =
                filter (\<lambda>t. tr_Predicate t \<noteq> EntityIndexingProfile) (cr_Triples cq))"
    and reconcile_steady: "gr_reconcile P ctx rq w = (w', r) \<Longrightarrow> steady good hist w w'"
    and reconcile_commit: "good w \<Longrightarrow> gr_reconcile P ctx rq w = (w', Inr rp) \<Longrightarrow> rp_Outcome rp = MutationApplied \<Longrightarrow>
           list_all native_triple (rr_Desired rq) \<Longrightarrow>
           \<exists>e0 b. committed (hist w) (hist w') (rr_EntityID rq) (rp_KVRevision rp) (Some b)
               (\<lambda>pre. last_revision (rr_EntityID rq) pre = rr_ExpectedRevision rq \<and>
                  (\<exists>b0. live_value (rr_EntityID rq) pre = Some b0 \<and> dec b0 = Inr e0)) \<and>
             dec b = Inr (rp_Entity rp) \<and>
             es_Triples (rp_Entity rp) = reconcileSelectedPredicates (es_Triples e0) (dedupeReconcileTriples T (rr_Desired rq)) (rr_Predicates rq)"
    and reconcile_same: "good w \<Longrightarrow> gr_reconcile P ctx rq w = (w', Inr rp) \<Longrightarrow> rp_Outcome rp \<noteq> MutationApplied \<Longrightarrow>
           rp_KVRevision rp = rr_ExpectedRevision rq \<and>
           (\<exists>b0. \<lparr>kc_rev = rr_ExpectedRevision rq, kc_key = rr_EntityID rq, kc_val = Some b0\<rparr> \<in> set (hist w') \<and>
              dec b0 = Inr (rp_Entity rp) \<and>
              selectedPredicatesEqual T (es_Triples (rp_Entity rp)) (dedupeReconcileTriples T (rr_Desired rq)) (rr_Predicates rq))"
    and delete_steady: "gr_delete P ctx dq w = (w', d) \<Longrightarrow> steady good hist w w'"
    and delete_commit: "good w \<Longrightarrow> gr_delete P ctx dq w = (w', Inr dp) \<Longrightarrow>
           \<exists>rvn. committed (hist w) (hist w') (dr_EntityID dq) rvn None (\<lambda>pre. last_revision (dr_EntityID dq) pre = dr_ExpectedRevision dq)"

text \<open>Every handler leaves the sequence of writes a continuation of what it was.\<close>

context ingest_authority
begin

lemma reconcile_commit_in_steady: "reconcileCommit G ctx q ps st = (st', r) \<Longrightarrow> in_steady ok wlog st st'"
proof -
  assume a: "reconcileCommit G ctx q ps st = (st', r)"
  obtain st1 f where f: "fetchEntityState G ctx (rr_EntityID q) st = (st1, f)" by fastforce
  obtain st2 now where n: "now_of G st1 = (st2, now)" by fastforce
  have 2: "in_steady ok wlog st st2" using steady_trans[OF fetch_in_steady[OF f] now_in_steady[OF quiet, of st1]] n by simp
  have 3: "in_steady ok wlog st (st2\<lparr>in_world := s\<rparr>)" if "kv_Update (gi_bucket G) ctx (rr_EntityID q) b x (in_world st2) = (s, u)" for s u b x
    using steady_trans[OF 2 kv_Update_steady[OF bucket that]] by simp
  have 4: "in_steady ok wlog st (recordCanonicalEntityCommit G ctx i rv k (st2\<lparr>in_world := s\<rparr>))"
    if "kv_Update (gi_bucket G) ctx (rr_EntityID q) b x (in_world st2) = (s, u)" for s u b x i rv k
    by (rule steady_trans[OF 3[OF that] record_in_steady])
  show ?thesis using a f n 2 3 4 fetch_in_steady[OF f]
    by (auto simp: reconcileCommit_def Let_def on_world_def split: sum.splits if_splits prod.splits)
qed

lemma reconcile_in_steady: "reconcileRequest G ctx q st = (st', r) \<Longrightarrow> in_steady ok wlog st st'"
  by (auto simp: reconcileRequest_def split: option.splits if_splits sum.splits dest: reconcile_commit_in_steady)

lemma create_commit_in_steady: "createCommit G ctx q e st = (st', r) \<Longrightarrow> in_steady ok wlog st st'"
proof -
  assume a: "createCommit G ctx q e st = (st', r)"
  obtain st1 e1 where p: "createStamp G q e st = (st1, e1)" by fastforce
  have 1: "in_steady ok wlog st st1" using stamp_in_steady(1)[OF p] by simp
  have 2: "in_steady ok wlog st (st1\<lparr>in_world := s\<rparr>)"
      "in_steady ok wlog st (updateSuffixIndex G ctx k (recordCanonicalEntityCommit G ctx i rv n (st1\<lparr>in_world := s\<rparr>)))"
    if "kv_Create (gi_bucket G) ctx (es_ID e1) b (in_world st1) = (s, u)" for s u b k i rv n
    using steady_trans[OF 1 kv_Create_steady[OF bucket that]]
      steady_trans[OF steady_trans[OF steady_trans[OF 1 kv_Create_steady[OF bucket that]]
        record_in_steady[of "st1\<lparr>in_world := s\<rparr>", simplified]] suffix_in_steady(1)[OF quiet]]
    by simp_all
  show ?thesis using a p 1 2
    by (auto simp: createCommit_def Let_def on_world_def split: sum.splits option.splits prod.splits)
qed

lemma create_in_steady: "createRequest G q ctx st = (st', r) \<Longrightarrow> in_steady ok wlog st st'"
  by (auto simp: createRequest_def handleCanonicalCreate_def decodeCanonicalMutation_def
      split: option.splits if_splits dest: create_commit_in_steady)

lemma delete_at_in_steady: "deleteEntityAtRevision G ctx i x st = (st', e) \<Longrightarrow> in_steady ok wlog st st'"
proof -
  assume a: "deleteEntityAtRevision G ctx i x st = (st', e)"
  obtain s2 d where x: "DeleteAtRevision (gi_bucket G) ctx i x (in_world st) = (s2, d)" by fastforce
  let ?a = "invalidateEntityCacheEntry i (clearEntityPoisonOnDelete i (st\<lparr>in_world := s2\<rparr>))"
  let ?b = "removeSuffixIndex G ctx i ?a"
  let ?c = "?b\<lparr>in_messagesProcessed := in_messagesProcessed ?b + 1\<rparr>"
  have 1: "in_steady ok wlog st (st\<lparr>in_world := s2\<rparr>)" using DeleteAtRevision_steady[OF bucket x] by simp
  have "in_steady ok wlog (st\<lparr>in_world := s2\<rparr>) ?b" using suffix_in_steady(2)[OF quiet, of ?a ctx i] by simp
  then have "in_steady ok wlog st (fst (now_of G ?c))"
    using steady_trans[OF 1 steady_trans[OF _ now_in_steady[OF quiet, of ?c]]] by simp
  then show ?thesis using a x 1
    by (auto simp: deleteEntityAtRevision_def on_world_def Let_def split: option.splits if_splits prod.splits)
qed

lemma delete_in_steady: "deleteRequest G ctx q st = (st', r) \<Longrightarrow> in_steady ok wlog st st'"
proof -
  assume a: "deleteRequest G ctx q st = (st', r)"
  obtain st1 f where f: "fetchEntityState G ctx (dr_EntityID q) st = (st1, f)" by fastforce
  obtain st2 d where d: "deleteEntityAtRevision G ctx (dr_EntityID q) (dr_ExpectedRevision q) st1 = (st2, d)" by fastforce
  note 1 = fetch_in_steady[OF f]
  have 2: "in_steady ok wlog st st2" by (rule steady_trans[OF 1 delete_at_in_steady[OF d]])
  have "st' = st \<or> st' = st1 \<or> st' = st2"
    using a f d by (auto simp: deleteRequest_def Let_def split: option.splits if_splits sum.splits prod.splits)
  then show ?thesis using 1 2 by auto
qed

lemma query_in_steady: "handleQueryEntityNATS G flags i ctx st = (st', r) \<Longrightarrow> in_steady ok wlog st st'"
proof -
  assume a: "handleQueryEntityNATS G flags i ctx st = (st', r)"
  let ?c = "WithTimeout ctx 5000000000"
  obtain st1 g where g: "on_world (kv_Get (gi_bucket G) ?c i) st = (st1, g)" by fastforce
  note 1 = get_in_steady[OF bucket g]
  obtain st2 x where x: "\<forall>en. g = Inr en \<longrightarrow> validateEntityQueryValue G ?c i (ke_Value en) (ke_Revision en) st1 = (st2, x)"
    by (metis surj_pair sum.sel(2))
  have 2: "in_steady ok wlog st st2" if "g = Inr en" for en
  proof -
    have "in_steady ok wlog st (inventoryEntityPoison G ?c ce rv st1)" for ce rv
      using steady_trans[OF 1 inventory_in_steady[OF bucket]] .
    then show ?thesis using x that 1
      by (auto simp: validateEntityQueryValue_def split: sum.splits option.splits prod.splits)
  qed
  have 3: "in_steady ok wlog st (inventoryEntityPoison G ?c ce rv st2)" if "g = Inr en" for en ce rv
    using steady_trans[OF 2[OF that] inventory_in_steady[OF bucket]] .
  show ?thesis using a g 1 2 3 x
    by (auto simp: handleQueryEntityNATS_def Let_def split: option.splits sum.splits prod.splits if_splits)
qed

lemma query_entry:
  assumes "handleQueryEntityNATS G flags i ctx st = (st', Inr x)" "ok (in_world st)"
  shows "es_ID (ex_Entity x) = i"
    "\<exists>v. \<lparr>kc_rev = ex_KVRevision x, kc_key = i, kc_val = Some v\<rparr> \<in> set (wlog (in_world st')) \<and> UnmarshalEntityState J v = Inr (ex_Entity x)"
proof -
  let ?c = "WithTimeout ctx 5000000000"
  obtain s1 g where g: "kv_Get (gi_bucket G) ?c i (in_world st) = (s1, g)" by fastforce
  obtain en where en: "g = Inr en" "ex_KVRevision x = ke_Revision en" "UnmarshalEntityState J (ke_Value en) = Inr (ex_Entity x)"
      "in_world st' = s1" "es_ID (ex_Entity x) = i"
    using assms(1) by (auto simp: handleQueryEntityNATS_def on_world_def g Let_def codec validateEntityQueryValue_def
        split: option.splits sum.splits if_splits)
  show "es_ID (ex_Entity x) = i" by fact
  show "\<exists>v. \<lparr>kc_rev = ex_KVRevision x, kc_key = i, kc_val = Some v\<rparr> \<in> set (wlog (in_world st')) \<and> UnmarshalEntityState J v = Inr (ex_Entity x)"
    using kv_Get_entry[OF bucket assms(2), of ?c i s1 en] g en by auto
qed

end

subsection \<open>A session with graph-ingest\<close>

text \<open>Other clients may act while a message travels; the payload registry admits only the profiles of the
  vocabulary (\<open>payloadregistry/registry.go\<close>).\<close>

locale graph_session = ingest_authority B ok wlog J G
  for B :: "'s js_bucket" and ok wlog J G +
  fixes L :: "'s ingest nats_link" and flags :: "'s ingest \<Rightarrow> query_flags"
  assumes deliver_steady: "in_steady ok wlog w (fst (nl_deliver L ctx subject w))"
    and return_steady: "in_steady ok wlog w (fst (nl_return L ctx w))"
    and floors: "gi_registry G = Some reg \<Longrightarrow> reg k = Some p \<Longrightarrow> p = [] \<or> IsValidIndexingProfile p"
begin

lemma request_steady:
  assumes "\<And>c w. in_steady ok wlog w (fst (handler c w))" "RequestClassified L ctx subject handler w = (w', x)"
  shows "in_steady ok wlog w w'"
proof -
  obtain w1 d where d: "nl_deliver L ctx subject w = (w1, d)" by fastforce
  obtain w2 r where r: "handler (nl_handler_ctx L ctx) w1 = (w2, r)" by fastforce
  obtain w3 f where f: "nl_return L ctx w2 = (w3, f)" by fastforce
  have 1: "in_steady ok wlog w w1" using deliver_steady[of w ctx subject] d by simp
  have 2: "in_steady ok wlog w1 w2" using assms(1)[of w1 "nl_handler_ctx L ctx"] r by simp
  have 3: "in_steady ok wlog w2 w3" using return_steady[of w2 ctx] f by simp
  have "w' = w1 \<or> w' = w3" using assms(2) d r f by (cases d) (auto simp: RequestClassified_def split: option.splits if_splits)
  then show ?thesis using 1 steady_trans[OF 1 steady_trans[OF 2 3]] by auto
qed

lemma client_request_steady:
  assumes "\<And>c w. in_steady ok wlog w (fst (handler c w))" "client_request L ctx op ts handler w = (w', x)"
  shows "in_steady ok wlog w w'"
proof -
  obtain w1 y where y: "RequestClassified L ctx (ResolveSubject op) handler w = (w1, y)" by fastforce
  note 1 = request_steady[OF assms(1) y]
  show ?thesis using assms(2) y 1
    by (auto simp: client_request_def split: option.splits if_splits sum.splits)
qed

text \<open>A value arrives only when the handler ran and returned it.\<close>

lemma request_answer:
  assumes "RequestClassified L ctx subject handler w = (w', Inr (Inr x))"
  obtains w1 w2 where "in_steady ok wlog w w1" "handler (nl_handler_ctx L ctx) w1 = (w2, Inr x)" "in_steady ok wlog w2 w'"
proof -
  obtain w1 d where d: "nl_deliver L ctx subject w = (w1, d)" by fastforce
  obtain w2 r where r: "handler (nl_handler_ctx L ctx) w1 = (w2, r)" by fastforce
  obtain w3 f where f: "nl_return L ctx w2 = (w3, f)" by fastforce
  have "d = None" "w' = w3" "r = Inr x"
    using assms d r f
    by (cases d; cases f; cases r; auto simp: RequestClassified_def ClassifyReply_def carried_def respond_def
        split: prod.splits if_splits option.splits)+
  then show thesis
    using that[of w1 w2] deliver_steady[of w ctx subject] return_steady[of w2 ctx] d r f by simp
qed

lemma client_answer:
  assumes "client_request L ctx op ts handler w = (w', Inr x)"
  obtains w1 w2 where "in_steady ok wlog w w1" "handler (nl_handler_ctx L ctx) w1 = (w2, Inr x)" "in_steady ok wlog w2 w'"
proof -
  have "RequestClassified L ctx (ResolveSubject op) handler w = (w', Inr (Inr x))"
    using assms by (auto simp: client_request_def split: option.splits if_splits prod.splits sum.splits)
  then show thesis using that by (rule request_answer)
qed

lemma commit_window:
  assumes "committed (wlog (in_world w1)) (wlog (in_world w2)) k rv v Q" "ok (in_world w)"
    and "in_steady ok wlog w w1" "in_steady ok wlog w1 w2" "in_steady ok wlog w2 w'"
  shows "committed (wlog (in_world w)) (wlog (in_world w')) k rv v Q"
  using assms committed_extend[OF committed_mono[OF assms(1)]] by (auto simp: steady_def)

lemma created_entity:
  assumes "createStamp G q e st = (st', e')" "cr_IndexingProfile q = []" "native_entity e"
  shows "native_entity e'"
    "filter (\<lambda>t. tr_Predicate t \<noteq> EntityIndexingProfile) (es_Triples e') = filter (\<lambda>t. tr_Predicate t \<noteq> EntityIndexingProfile) (es_Triples e)"
proof -
  have t: "json_time_ok n" if "now_of G st = (st', n)" for st st' n
    using that clock[of "in_world st"] by (auto simp: now_of_def on_world_def split: prod.splits)
  have k: "set (keep_first_profile b ts) \<subseteq> set ts"
      "filter (\<lambda>t. tr_Predicate t \<noteq> EntityIndexingProfile) (keep_first_profile b ts) = filter (\<lambda>t. tr_Predicate t \<noteq> EntityIndexingProfile) ts" for b ts
    by (induction ts arbitrary: b) auto
  have u: "valid_utf8 EntityIndexingProfile" "valid_utf8 ''graph-ingest-indexing-profile''" "valid_utf8 ''content''" "valid_utf8 ''control''"
      "valid_utf8 ''signal''" "valid_utf8 ''trace''" "valid_utf8 []"
    unfolding EntityIndexingProfile_def by (rule valid_utf8_ascii, simp)+
  have vp: "valid_utf8 p" if "p = [] \<or> IsValidIndexingProfile p" for p
    using that u by (auto simp: IsValidIndexingProfile_def simp del: valid_utf8.simps)
  have "valid_utf8 (fst (registeredIndexingProfile G mt))" for mt
    using floors[of _ "MsgType_Key mt"] u
    by (auto simp: registeredIndexingProfile_def simp del: valid_utf8.simps intro!: vp split: option.splits)
  then have nt: "native_triple \<lparr>tr_Subject = es_ID x, tr_Predicate = EntityIndexingProfile,
      tr_Object = GString (fst (registeredIndexingProfile G mt)), tr_Source = ''graph-ingest-indexing-profile'', tr_Timestamp = n,
      tr_Confidence = 1, tr_Context = [], tr_Datatype = [], tr_ExpiresAt = None\<rparr>" if "valid_utf8 (es_ID x)" "json_time_ok n" for x mt n
    using that u by (simp add: native_triple_def f64_round_1 del: valid_utf8.simps)
  have r: "native_entity y \<and> filter (\<lambda>t. tr_Predicate t \<noteq> EntityIndexingProfile) (es_Triples y) =
      filter (\<lambda>t. tr_Predicate t \<noteq> EntityIndexingProfile) (es_Triples x)"
    if "reconcileIndexingProfile G x st = (st', y)" "native_entity x" for x y st st'
  proof -
    obtain n st1 where n: "now_of G st = (st1, n)" by fastforce
    obtain pr fl where pf: "registeredIndexingProfile G (es_MessageType x) = (pr, fl)" by fastforce
    let ?x = "x\<lparr>es_Triples := keep_first_profile False (es_Triples x)\<rparr>"
    have "native_entity ?x" using that(2) k(1)[of False "es_Triples x"] by (auto simp: native_entity_def list_all_iff)
    moreover have "native_triple \<lparr>tr_Subject = es_ID x, tr_Predicate = EntityIndexingProfile, tr_Object = GString pr,
        tr_Source = ''graph-ingest-indexing-profile'', tr_Timestamp = n, tr_Confidence = 1, tr_Context = [], tr_Datatype = [], tr_ExpiresAt = None\<rparr>"
      using nt[of x n "es_MessageType x"] t[OF n] that(2) pf by (simp add: native_entity_def)
    ultimately show ?thesis using that(1) k(2)
      by (auto simp: reconcileIndexingProfile_def Let_def n pf appendIndexingProfileTriple_def native_entity_def split: if_splits)
  qed
  obtain st1 e1 where 1: "reconcileIndexingProfile G e1 st1 = (st', e')" "native_entity e1" "es_Triples e1 = es_Triples e"
  proof -
    have "\<not> IsValidIndexingProfile []" by (simp add: IsValidIndexingProfile_def)
    then show thesis using assms that t
      by (auto simp: createStamp_def stampExplicitIndexingProfile_def Let_def native_entity_def split: prod.splits if_splits)
  qed
  from r[OF 1(1,2)] 1(3) show "native_entity e'"
      "filter (\<lambda>t. tr_Predicate t \<noteq> EntityIndexingProfile) (es_Triples e') = filter (\<lambda>t. tr_Predicate t \<noteq> EntityIndexingProfile) (es_Triples e)"
    by auto
qed

lemma read_port:
  assumes "ReadExactEntity L G flags ctx i w = (w', x)"
  shows "in_steady ok wlog w w'"
    "x = Inr y \<Longrightarrow> ok (in_world w) \<Longrightarrow> es_ID (ex_Entity y) = i \<and>
       (\<exists>v. \<lparr>kc_rev = ex_KVRevision y, kc_key = i, kc_val = Some v\<rparr> \<in> set (wlog (in_world w')) \<and> UnmarshalEntityState J v = Inr (ex_Entity y))"
proof -
  have h: "in_steady ok wlog w (fst (handleQueryEntityNATS G flags i c w))" for c w
    using query_in_steady[of flags i c w] by (metis prod.collapse)
  obtain w1 z where z: "RequestClassified L ctx ''graph.ingest.query.entity'' (handleQueryEntityNATS G flags i) w = (w1, z)" by fastforce
  show "in_steady ok wlog w w'" using assms request_steady[OF h z] z
    by (auto simp: ReadExactEntity_def split: option.splits sum.splits if_splits)
  assume y: "x = Inr y" "ok (in_world w)"
  then have r: "RequestClassified L ctx ''graph.ingest.query.entity'' (handleQueryEntityNATS G flags i) w = (w', Inr (Inr y))"
    using assms by (auto simp: ReadExactEntity_def decodeExactEntity_def split: option.splits prod.splits sum.splits if_splits)
  from r show "es_ID (ex_Entity y) = i \<and>
       (\<exists>v. \<lparr>kc_rev = ex_KVRevision y, kc_key = i, kc_val = Some v\<rparr> \<in> set (wlog (in_world w')) \<and> UnmarshalEntityState J v = Inr (ex_Entity y))"
  proof (rule request_answer)
    fix w1 w2 assume a: "in_steady ok wlog w w1" "handleQueryEntityNATS G flags i (nl_handler_ctx L ctx) w1 = (w2, Inr y)" "in_steady ok wlog w2 w'"
    then have "ok (in_world w1)" "ok (in_world w2)" using y(2) query_in_steady[OF a(2)] by (auto simp: steady_def)
    then show ?thesis using query_entry[OF a(2)] a(3) by (auto simp: steady_def dest: set_mono_prefix)
  qed
qed

lemma create_port:
  assumes "Client_Create L G ctx q w = (w', x)"
  shows "in_steady ok wlog w w'"
    "x = Inr p \<Longrightarrow> ok (in_world w) \<Longrightarrow> \<exists>e b. cr_Entity q = Some e \<and> es_ID (cp_Entity p) = es_ID e \<and>
       committed (wlog (in_world w)) (wlog (in_world w')) (es_ID e) (cp_KVRevision p) (Some b) (\<lambda>pre. live_value (es_ID e) pre = None) \<and>
       (native_entity (e\<lparr>es_Triples := cr_Triples q\<rparr>) \<longrightarrow> cr_IndexingProfile q = [] \<longrightarrow>
          UnmarshalEntityState J b = Inr (cp_Entity p) \<and>
          filter (\<lambda>t. tr_Predicate t \<noteq> EntityIndexingProfile) (es_Triples (cp_Entity p)) =
          filter (\<lambda>t. tr_Predicate t \<noteq> EntityIndexingProfile) (cr_Triples q))"
proof -
  have h: "in_steady ok wlog w (fst (createRequest G q c w))" for c w
    using create_in_steady[of q c w] by (metis prod.collapse)
  obtain w1 z where z: "client_request L ctx CreateEntity_op (cr_Triples q) (createRequest G q) w = (w1, z)" by fastforce
  show "in_steady ok wlog w w'" using assms client_request_steady[OF h z] z
    by (auto simp: Client_Create_def split: sum.splits if_splits)
  assume y: "x = Inr p" "ok (in_world w)"
  then have r: "client_request L ctx CreateEntity_op (cr_Triples q) (createRequest G q) w = (w', Inr p)"
    using assms by (auto simp: Client_Create_def split: prod.splits sum.splits if_splits)
  from r show "\<exists>e b. cr_Entity q = Some e \<and> es_ID (cp_Entity p) = es_ID e \<and>
       committed (wlog (in_world w)) (wlog (in_world w')) (es_ID e) (cp_KVRevision p) (Some b) (\<lambda>pre. live_value (es_ID e) pre = None) \<and>
       (native_entity (e\<lparr>es_Triples := cr_Triples q\<rparr>) \<longrightarrow> cr_IndexingProfile q = [] \<longrightarrow>
          UnmarshalEntityState J b = Inr (cp_Entity p) \<and>
          filter (\<lambda>t. tr_Predicate t \<noteq> EntityIndexingProfile) (es_Triples (cp_Entity p)) =
          filter (\<lambda>t. tr_Predicate t \<noteq> EntityIndexingProfile) (cr_Triples q))"
  proof (rule client_answer)
    fix w1 w2 assume a: "in_steady ok wlog w w1" "createRequest G q (nl_handler_ctx L ctx) w1 = (w2, Inr p)" "in_steady ok wlog w2 w'"
    obtain e where e: "cr_Entity q = Some e" "createCommit G (nl_handler_ctx L ctx) q (e\<lparr>es_Triples := cr_Triples q\<rparr>) w1 = (w2, Inr p)"
      using a(2) by (auto simp: createRequest_def handleCanonicalCreate_def decodeCanonicalMutation_def split: option.splits if_splits)
    have o: "ok (in_world w1)" using y(2) a(1) by (simp add: steady_def)
    from create_committed[OF e(2) o] obtain b where b: "committed (wlog (in_world w1)) (wlog (in_world w2)) (es_ID e) (cp_KVRevision p) (Some b)
        (\<lambda>pre. live_value (es_ID e) pre = None)" "MarshalEntityState J (cp_Entity p) = Inr b" "es_ID (cp_Entity p) = es_ID e" by auto
    obtain st1 where s: "createStamp G q (e\<lparr>es_Triples := cr_Triples q\<rparr>) w1 = (st1, cp_Entity p)"
      using e(2) by (auto simp: createCommit_def Let_def split: prod.splits option.splits sum.splits)
    show ?thesis
      using commit_window[OF b(1) y(2) a(1) create_in_steady[OF a(2)] a(3)] e(1) b(2,3) created_entity[OF s] Unmarshal_Marshal by fastforce
  qed
qed

lemma reconcile_port:
  assumes "Client_Reconcile L G ctx q w = (w', x)"
  shows "in_steady ok wlog w w'"
    "x = Inr p \<Longrightarrow> ok (in_world w) \<Longrightarrow> rp_Outcome p = MutationApplied \<Longrightarrow> list_all native_triple (rr_Desired q) \<Longrightarrow>
       \<exists>e0 b. committed (wlog (in_world w)) (wlog (in_world w')) (rr_EntityID q) (rp_KVRevision p) (Some b)
          (\<lambda>pre. last_revision (rr_EntityID q) pre = rr_ExpectedRevision q \<and>
             (\<exists>b0. live_value (rr_EntityID q) pre = Some b0 \<and> UnmarshalEntityState J b0 = Inr e0)) \<and>
        UnmarshalEntityState J b = Inr (rp_Entity p) \<and>
        es_Triples (rp_Entity p) = reconcileSelectedPredicates (es_Triples e0) (dedupeReconcileTriples (gi_text G) (rr_Desired q)) (rr_Predicates q)"
    "x = Inr p \<Longrightarrow> ok (in_world w) \<Longrightarrow> rp_Outcome p \<noteq> MutationApplied \<Longrightarrow> rp_KVRevision p = rr_ExpectedRevision q \<and>
       (\<exists>b0. \<lparr>kc_rev = rr_ExpectedRevision q, kc_key = rr_EntityID q, kc_val = Some b0\<rparr> \<in> set (wlog (in_world w')) \<and>
          UnmarshalEntityState J b0 = Inr (rp_Entity p) \<and>
          selectedPredicatesEqual (gi_text G) (es_Triples (rp_Entity p)) (dedupeReconcileTriples (gi_text G) (rr_Desired q)) (rr_Predicates q))"
proof -
  let ?h = "\<lambda>ctx. reconcileRequest G ctx q"
  have h: "in_steady ok wlog w (fst (reconcileRequest G c q w))" for c w
    using reconcile_in_steady[of c q w] by (metis prod.collapse)
  obtain w1 z where z: "client_request L ctx ReconcilePredicates_op (rr_Desired q) ?h w = (w1, z)" by fastforce
  show "in_steady ok wlog w w'" using assms client_request_steady[OF h z] z
    by (auto simp: Client_Reconcile_def split: sum.splits if_splits)
  have r: "client_request L ctx ReconcilePredicates_op (rr_Desired q) ?h w = (w', Inr p)" if "x = Inr p"
    using assms that by (auto simp: Client_Reconcile_def split: prod.splits sum.splits if_splits)
  have c: "reconcileCommit G ct q (rr_Predicates q) w1 = (w2, Inr p)" if "reconcileRequest G ct q w1 = (w2, Inr p)" for ct w1 w2
    using that by (auto simp: reconcileRequest_def validateCanonicalReconcileRequest_def split: option.splits if_splits sum.splits)
  show "\<exists>e0 b. committed (wlog (in_world w)) (wlog (in_world w')) (rr_EntityID q) (rp_KVRevision p) (Some b)
          (\<lambda>pre. last_revision (rr_EntityID q) pre = rr_ExpectedRevision q \<and>
             (\<exists>b0. live_value (rr_EntityID q) pre = Some b0 \<and> UnmarshalEntityState J b0 = Inr e0)) \<and>
        UnmarshalEntityState J b = Inr (rp_Entity p) \<and>
        es_Triples (rp_Entity p) = reconcileSelectedPredicates (es_Triples e0) (dedupeReconcileTriples (gi_text G) (rr_Desired q)) (rr_Predicates q)"
    if y: "x = Inr p" "ok (in_world w)" "rp_Outcome p = MutationApplied" "list_all native_triple (rr_Desired q)"
    using r[OF y(1)]
  proof (rule client_answer)
    fix w1 w2 assume a: "in_steady ok wlog w w1" "reconcileRequest G (nl_handler_ctx L ctx) q w1 = (w2, Inr p)" "in_steady ok wlog w2 w'"
    have o: "ok (in_world w1)" using y(2) a(1) by (simp add: steady_def)
    from reconcile_applied[OF c[OF a(2)] y(3) o y(4)] obtain e0 b where
        b: "committed (wlog (in_world w1)) (wlog (in_world w2)) (rr_EntityID q) (rp_KVRevision p) (Some b)
          (\<lambda>pre. last_revision (rr_EntityID q) pre = rr_ExpectedRevision q \<and>
             (\<exists>b0. live_value (rr_EntityID q) pre = Some b0 \<and> UnmarshalEntityState J b0 = Inr e0))"
        "UnmarshalEntityState J b = Inr (rp_Entity p)"
        "rp_Entity p = e0\<lparr>es_Triples := reconcileSelectedPredicates (es_Triples e0) (dedupeReconcileTriples (gi_text G) (rr_Desired q)) (rr_Predicates q),
           es_Version := es_Version e0 + 1, es_UpdatedAt := es_UpdatedAt (rp_Entity p)\<rparr>" by blast
    have "es_Triples (rp_Entity p) = reconcileSelectedPredicates (es_Triples e0) (dedupeReconcileTriples (gi_text G) (rr_Desired q)) (rr_Predicates q)"
      using arg_cong[where f = es_Triples, OF b(3)] by simp
    then show ?thesis using commit_window[OF b(1) y(2) a(1) reconcile_in_steady[OF a(2)] a(3)] b(2) by blast
  qed
  show "rp_KVRevision p = rr_ExpectedRevision q \<and>
       (\<exists>b0. \<lparr>kc_rev = rr_ExpectedRevision q, kc_key = rr_EntityID q, kc_val = Some b0\<rparr> \<in> set (wlog (in_world w')) \<and>
          UnmarshalEntityState J b0 = Inr (rp_Entity p) \<and>
          selectedPredicatesEqual (gi_text G) (es_Triples (rp_Entity p)) (dedupeReconcileTriples (gi_text G) (rr_Desired q)) (rr_Predicates q))"
    if y: "x = Inr p" "ok (in_world w)" "rp_Outcome p \<noteq> MutationApplied"
    using r[OF y(1)]
  proof (rule client_answer)
    fix w1 w2 assume a: "in_steady ok wlog w w1" "reconcileRequest G (nl_handler_ctx L ctx) q w1 = (w2, Inr p)" "in_steady ok wlog w2 w'"
    have o: "ok (in_world w1)" "ok (in_world w2)" using y(2) a(1) reconcile_in_steady[OF a(2)] by (auto simp: steady_def)
    from reconcile_unchanged[OF c[OF a(2)] y(3) o(1)] a(3) o(2) show ?thesis
      by (auto simp: steady_def dest: set_mono_prefix)
  qed
qed

lemma delete_port:
  assumes "Client_Delete L G ctx q w = (w', x)"
  shows "in_steady ok wlog w w'"
    "x = Inr p \<Longrightarrow> ok (in_world w) \<Longrightarrow> \<exists>rvn. committed (wlog (in_world w)) (wlog (in_world w')) (dr_EntityID q) rvn None
       (\<lambda>pre. last_revision (dr_EntityID q) pre = dr_ExpectedRevision q)"
proof -
  let ?h = "\<lambda>ctx. deleteRequest G ctx q"
  have h: "in_steady ok wlog w (fst (deleteRequest G c q w))" for c w
    using delete_in_steady[of c q w] by (metis prod.collapse)
  obtain w1 z where z: "client_request L ctx DeleteEntity_op [] ?h w = (w1, z)" by fastforce
  show "in_steady ok wlog w w'" using assms client_request_steady[OF h z] z
    by (auto simp: Client_Delete_def split: sum.splits if_splits)
  assume y: "x = Inr p" "ok (in_world w)"
  then have "client_request L ctx DeleteEntity_op [] ?h w = (w', Inr p)"
    using assms by (auto simp: Client_Delete_def split: prod.splits sum.splits if_splits)
  then show "\<exists>rvn. committed (wlog (in_world w)) (wlog (in_world w')) (dr_EntityID q) rvn None
       (\<lambda>pre. last_revision (dr_EntityID q) pre = dr_ExpectedRevision q)"
  proof (rule client_answer)
    fix w1 w2 assume a: "in_steady ok wlog w w1" "deleteRequest G (nl_handler_ctx L ctx) q w1 = (w2, Inr p)" "in_steady ok wlog w2 w'"
    have o: "ok (in_world w1)" using y(2) a(1) by (simp add: steady_def)
    from delete_committed[OF a(2) o] commit_window[OF _ y(2) a(1) delete_in_steady[OF a(2)] a(3)] show ?thesis by blast
  qed
qed

end

sublocale graph_session \<subseteq> port: graph_port "session_ops L G flags" "\<lambda>w. ok (in_world w)" "\<lambda>w. wlog (in_world w)"
  "UnmarshalEntityState J" "gi_text G"
proof
  fix w w' ctx i rx x cq c cp rq r rp dq d dp b e
  let ?P = "session_ops L G flags" and ?good = "\<lambda>w. ok (in_world w)" and ?hist = "\<lambda>w. wlog (in_world w)"
  have sel: "gr_read ?P = ReadExactEntity L G flags" "gr_create ?P = Client_Create L G" "gr_reconcile ?P = Client_Reconcile L G"
      "gr_delete ?P = Client_Delete L G"
    by (simp_all add: session_ops_def)
  have lift: "in_steady ok wlog w w' \<Longrightarrow> steady ?good ?hist w w'" by (simp add: steady_def)
  show "?good w \<Longrightarrow> log_ok (?hist w)" by (rule log_ok)
  show "UnmarshalEntityState J b = Inr e \<Longrightarrow> native_entity e \<and> contract_ok e" by (rule Unmarshal_native)
  show "gr_read ?P ctx i w = (w', rx) \<Longrightarrow> steady ?good ?hist w w'" unfolding sel by (rule lift, rule read_port(1))
  show "gr_create ?P ctx cq w = (w', c) \<Longrightarrow> steady ?good ?hist w w'" unfolding sel by (rule lift, rule create_port(1))
  show "gr_reconcile ?P ctx rq w = (w', r) \<Longrightarrow> steady ?good ?hist w w'" unfolding sel by (rule lift, rule reconcile_port(1))
  show "gr_delete ?P ctx dq w = (w', d) \<Longrightarrow> steady ?good ?hist w w'" unfolding sel by (rule lift, rule delete_port(1))
  show "?good w \<Longrightarrow> gr_create ?P ctx cq w = (w', Inr cp) \<Longrightarrow> \<exists>e b. cr_Entity cq = Some e \<and> es_ID (cp_Entity cp) = es_ID e \<and>
       committed (?hist w) (?hist w') (es_ID e) (cp_KVRevision cp) (Some b) (\<lambda>pre. live_value (es_ID e) pre = None) \<and>
       (native_entity (e\<lparr>es_Triples := cr_Triples cq\<rparr>) \<longrightarrow> cr_IndexingProfile cq = [] \<longrightarrow>
          UnmarshalEntityState J b = Inr (cp_Entity cp) \<and>
          filter (\<lambda>t. tr_Predicate t \<noteq> EntityIndexingProfile) (es_Triples (cp_Entity cp)) =
          filter (\<lambda>t. tr_Predicate t \<noteq> EntityIndexingProfile) (cr_Triples cq))"
    unfolding sel by (rule create_port(2)) simp_all
qed (simp_all add: session_ops_def read_port(2) reconcile_port(2,3) delete_port(2))

text \<open>The in-memory deployment behind a link that loses nothing.\<close>

definition wit_link :: "mem_world ingest nats_link" where
  "wit_link =
     \<lparr>nl_ctx_err = (\<lambda>_ _. None), nl_deliver = (\<lambda>_ _ w. (w, None)), nl_handler_ctx = (\<lambda>c. c), nl_replyTo = ''_INBOX.1'',
      nl_return = (\<lambda>_ w. (w, Delivered)), nl_silence = (\<lambda>_ _. ErrText ''nats: timeout''),
      nl_body = \<lparr>eb_marshal = (\<lambda>m d. Some m), eb_unmarshal = (\<lambda>b. Some (b, [])), eb_header = (\<lambda>v. v)\<rparr>\<rparr>"

definition wit_flags :: "mem_world ingest \<Rightarrow> query_flags" where
  "wit_flags w = \<lparr>qf_entityWatchLost = False, qf_entityBootstrapStarted = True, qf_entityBootstrapComplete = True\<rparr>"

lemma wit_link_session:
  assumes "ingest_authority mem_bucket mem_ok mw_log J G" "gi_registry G = Some (\<lambda>_. Some [])"
  shows "graph_session mem_bucket mem_ok mw_log J G wit_link"
proof (intro graph_session.intro graph_session_axioms.intro)
  show "ingest_authority mem_bucket mem_ok mw_log J G" by fact
qed (use assms(2) in \<open>auto simp: wit_link_def\<close>)

interpretation wit_session: graph_session mem_bucket mem_ok mw_log "table_codec wit_table" wit_ingest wit_link wit_flags
  by (rule wit_link_session[OF wit.ingest_authority_axioms]) (simp add: wit_ingest_def)

subsection \<open>Replies to an append\<close>

lemma append_results_exact:
  "append_result_invalid want seen rs = None \<Longrightarrow> distinct (map as_EntityID rs) \<and> set (map as_EntityID rs) \<inter> set seen = {} \<and>
     set (map as_EntityID rs) \<subseteq> set want"
proof (induction rs arbitrary: seen)
  case (Cons r rs)
  then have "append_result_invalid want (as_EntityID r # seen) rs = None" "as_EntityID r \<in> set want" "as_EntityID r \<notin> set seen"
    by (auto simp: Let_def split: if_splits option.splits)
  with Cons.IH[OF this(1)] show ?case by auto
qed simp

text \<open>An accepted reply names every requested subject exactly once.\<close>

lemma append_response_exact:
  assumes "validateAppendResponse q r = None"
  shows "mset (map as_EntityID (ap_Results r)) = mset (remdups (map tr_Subject (ar_Triples q)))"
proof -
  let ?w = "remdups (map tr_Subject (ar_Triples q))" and ?i = "map as_EntityID (ap_Results r)"
  have a: "distinct ?i" "set ?i \<subseteq> set ?w" "length ?i = length ?w"
    using assms append_results_exact[of ?w "[]" "ap_Results r"] by (auto simp: validateAppendResponse_def Let_def split: if_splits)
  then have "card (set ?i) = card (set ?w)" by (metis distinct_card distinct_remdups)
  then have "set ?i = set ?w" using a(2) card_subset_eq[of "set ?w" "set ?i"] by auto
  then show ?thesis using a(1) by (metis distinct_remdups set_eq_iff_mset_eq_distinct)
qed

end
