(* ===== verification/Spec2Isabelle.thy ===== *)
theory Spec2Isabelle
  imports Entity_Id Predicate_Contract Triples Retry Gated_Dag Watermark Model_Registry Breaker Loop_Entity Circular_Buffer Caches Coalescing_Set Kv_Store Entity_State Ingest_State Graph_Ingest Graph_Append Graph_Client
begin

text \<open>
  SemStreams: a verification library for the graph authority and the runtime core of the repository.

  \<^bold>\<open>The program.\<close>  SemStreams is a Go framework of components that exchange messages over NATS and keep
  one authoritative state per entity, a list of semantic triples, in a JetStream key-value bucket.
  The component graph-ingest is the only writer of that bucket.  A client sends it a canonical
  mutation (create, append, reconcile, delete); the handler checks the mutation against the entity
  ID, predicate and state contracts, reads the stored entry, computes the next state and writes it
  with a compare-and-set on the revision it read.  Around that authority stand general packages:
  error classification, retrying, caches, bounded buffers, a revision watermark for the index
  watchers, a gated-DAG dispatcher, the model registry with its circuit breaker, and the record of
  an agentic loop.

  \<^bold>\<open>How the theories correspond to the code.\<close>  Paths are relative to \<open>src/\<close>; definitions keep the
  names of the Go functions, with the receiver in front where two types share a method name.

  \<^item> \<open>Prelude\<close>: Go's string functions, decimal text, generic lemmas on lists, maps and multisets.
  \<^item> \<open>Regexp_Lang\<close>: the meaning of the anchored pattern constants of the sources.
  \<^item> \<open>Go_Float\<close>, \<open>Go_Json\<close>, \<open>Go_Time\<close>: the parts of the language and of its standard library the
    program uses.  A \<open>float64\<close> is a rational rounded as IEEE-754 binary64 prescribes; a dynamic value is
    a \<open>go_value\<close> and its JSON a syntax tree; a duration is a 64-bit integer that saturates where Go does.
  \<^item> \<open>Entity_Id\<close>: \<open>pkg/types/entity_id.go\<close>, \<open>entity_id_authority.go\<close>, \<open>entity_domain_authority.go\<close>,
    \<open>entity_type.go\<close>, \<open>type.go\<close>.  Every validator, with the coded reason and detail of a rejection.
  \<^item> \<open>Predicate_Contract\<close>: \<open>vocabulary/predicate_contract.go\<close>, with the memo of admitted predicates as a
    state.
  \<^item> \<open>Triples\<close>: \<open>message/triple.go\<close>, \<open>message/triple_identity.go\<close>; the identity key of a triple on the
    append lane and duplicate suppression.
  \<^item> \<open>Go_Errors\<close>: \<open>pkg/errs/errs.go\<close>, \<open>shutdown.go\<close>; an error is a chain, \<open>errors.Is\<close> and \<open>errors.As\<close> are
    searches along it.
  \<^item> \<open>Retry\<close>: \<open>pkg/retry/retry.go\<close>; operation, clock, context and random source act on the state of
    the caller.
  \<^item> \<open>Kv_Keys\<close>, \<open>Kv_Store\<close>: \<open>natsclient/kv_key_contract.go\<close>, \<open>natsclient/kv.go\<close>.  The bucket is the
    record \<open>js_bucket\<close> of its operations on a world \<open>'s\<close>; other clients act on that world inside every
    operation.
  \<^item> \<open>Entity_State\<close>: \<open>graph/types.go\<close>, \<open>graph/state_contract.go\<close>, \<open>graph/entity_predicate_contract.go\<close>; the
    stored state, its validator, the write gate and the two read gates.
  \<^item> \<open>Ingest_State\<close>: the state the write paths of \<open>processor/graph-ingest/component.go\<close> share (query cache
    with invalidation generations, suffix index, counters) and the inventory of unreadable entries of
    \<open>poison_inventory.go\<close>.
  \<^item> \<open>Graph_Ingest\<close>: the canonical create, reconcile and delete handlers of \<open>canonical_mutations.go\<close>,
    with \<open>mutation_runtime.go\<close>, \<open>authority_gate.go\<close>, \<open>graph/mutation_requests.go\<close> and
    \<open>graph/mutation_responses.go\<close>, from request bytes to response.
  \<^item> \<open>Graph_Append\<close>: the two lanes of \<open>component.go\<close> that retry on conflicts, append to existing entities
    and merge of arriving facts, with the canonical append handler and in-process creation.
  \<^item> \<open>Graph_Client\<close>: the error contract of request and reply (\<open>natsclient/errors.go\<close>), the exact entity query
    (\<open>processor/graph-ingest/query.go\<close>, \<open>graph/exact_entity.go\<close>) and the client of the canonical mutations
    (\<open>internal/graphmutation\<close>), over a link that loses requests and replies.
  \<^item> \<open>Gated_Dag\<close>: \<open>pkg/gateddag/gateddag.go\<close>.  \<open>Watermark\<close>: \<open>pkg/revlag/watermark.go\<close>.
  \<^item> \<open>Model_Registry\<close>, \<open>Breaker\<close>: \<open>model/registry.go\<close>, \<open>model/breaker.go\<close>, \<open>model/health.go\<close>.
  \<^item> \<open>Loop_Entity\<close>: \<open>agentic/state.go\<close>.
  \<^item> \<open>Circular_Buffer\<close>: \<open>pkg/buffer\<close>.  \<open>Cache_Core\<close>, \<open>Caches\<close>, \<open>Coalescing_Set\<close>: \<open>pkg/cache\<close>.

  \<^bold>\<open>How effects are modelled.\<close>  A Go struct is a record, a method a function from the struct to its
  result and the updated struct.  A mutex makes a method one step; sequences of steps by several
  goroutines are lists of calls, and blocked writers are part of the buffer state.  A slice is a list;
  where a slice is filtered in place while another one shares its array, what the other one then
  shows is written out (\<open>reconcileInPlace\<close> on the merge lane).  An error is a value
  of \<open>go_error\<close> or of a datatype of the package, a run-time panic the constructor \<open>Panic\<close> of \<open>go_res\<close>.
  The wall clock, the random source, the context and the text of \<open>encoding/json\<close> are parameters.  What
  is assumed of them is stated in locales, each interpreted on definitions of the library:
  \<open>cas_bucket\<close> (the documented contract of a JetStream bucket: one sequence of writes with growing
  revisions, a conditional write succeeds only on the last revision) and \<open>definite_bucket\<close> (an error of a
  write means it was not applied), interpreted on an in-memory bucket with interfering writers;
  \<open>entity_json\<close> (an encoded state decodes to itself); \<open>ingest_authority\<close> (the bucket and the
  codec under a graph-ingest component); \<open>graph_session\<close> (the same behind a link to a client) and
  \<open>graph_port\<close> (what a client may rely on), the second a consequence of the first; \<open>cache_contract\<close>, \<open>conserving_queue\<close>, \<open>health_policy\<close> and
  \<open>capability_reader\<close>, interpreted on every implementation the code has.

  \<^bold>\<open>What the lemmas show.\<close>
  \<^item> Authority: an acknowledged write of the KV store is one atomic read-modify-write in the sequence of
    writes of the bucket, whatever other clients do; it is applied exactly once where the bucket answers
    definitely.  On top of it each canonical mutation is characterised: reconcile replaces exactly the
    named predicates over the named revision, append adds exactly the new assertions to the live
    state, create fills a key without live value, delete tombstones the named revision, and a merge
    keeps every stored triple whose subject and predicate occur neither in the arrival nor among the
    hierarchy triples inferred for it.
  \<^item> Contracts: validators accept exactly the words of the published regular expressions, report the first
    violation, and what the write gate accepts the read gates read back.
  \<^item> Identity: the append key is injective on what identifies a triple and survives storage.
  \<^item> Replies: over a link, an error of a handler keeps its class and its outermost machine code and is
    never read as a success; a filtered listing succeeds only for a complete snapshot or an explicit
    answer that there are no keys.
  \<^item> Runtime packages: buffers neither lose nor invent items and strand no blocked writer unless the
    context of a blocked one is cancelled, coalescing sets with a callback deliver what is not taken out
    before, caches return last writes only, the watermark floor is exact, a plan without cycles stalls
    only behind failed units and completes without them, the breaker window refines the
    history of results, a validated registry never fails to resolve, loop records stay well-formed.

  \<^bold>\<open>Loops, bounds and fuel.\<close>  Loops over data are structural recursion or have a termination proof.  The
  retry loops are recursion on the attempts that remain, the bound the code itself counts
  (\<open>MaxRetries\<close>, \<open>MaxAttempts\<close>); that they return is proved, not assumed.  Revisions are \<open>64 word\<close>, as in
  the code; the bucket laws order them as unsigned numbers.  No other fuel is used.

  \<^bold>\<open>Not modelled.\<close>  Connections, consumers and watchers of the NATS library; the redelivery guard and
  the batch, prefix and suffix queries of graph-ingest; hierarchy inference (a parameter of the merge lane); index documents, queries and
  gateways; embeddings, clustering and every stage whose result a remote model decides; the
  rule engine; participant lifecycles of \<open>pkg/lifecycle\<close>, whose projection works by struct
  reflection; inputs, outputs, services, metrics and logging; configuration loading and start-up; concurrent
  schedules finer than the methods of a mutex-protected type.
\<close>

end
